(* ===== verification/Prelude.thy ===== *)
theory Prelude
  imports Main "HOL-Library.Word" "HOL-Library.Sublist" "HOL-Library.AList"
begin

text \<open>
  Shared vocabulary of the development: the type abbreviations for Go's machine
  integers, the outcome of a Go call (a return, a runtime panic, a call that waits for
  ever, or an exhausted recursion budget), big-endian byte strings, XDR padding, and the
  collections of rewrite rules the component theories fill.
\<close>

unbundle bit_operations_syntax

type_synonym u8 = "8 word"
type_synonym u16 = "16 word"
type_synonym u32 = "32 word"
type_synonym u64 = "64 word"

named_theorems xdr_io "reads and writes on lawful streams"
named_theorems tag_simps "byte-level tag operations on well-formed tags"

section \<open>Outcomes of Go calls\<close>

text \<open>
  \<open>Ret\<close>: the call returns (Go error values are part of what is returned); \<open>Panic\<close>: a
  runtime panic; \<open>Blocked\<close>: the call never returns, because it waits for an event that
  nobody will signal or reads from a stream that makes no progress; \<open>Spent\<close>: the recursion
  budget of the model is used up (in Go: the goroutine stack).
\<close>

datatype 'a outcome = Ret 'a | Panic string | Blocked | Spent

fun obind :: "'a outcome \<Rightarrow> ('a \<Rightarrow> 'b outcome) \<Rightarrow> 'b outcome" where
  "obind (Ret x) f = f x"
| "obind (Panic m) f = Panic m"
| "obind Blocked f = Blocked"
| "obind Spent f = Spent"

definition of_option :: "string \<Rightarrow> 'a option \<Rightarrow> 'a outcome" where
  "of_option msg x = (case x of Some y \<Rightarrow> Ret y | None \<Rightarrow> Panic msg)"

lemma obind_Ret_iff [simp]: "obind m f = Ret y \<longleftrightarrow> (\<exists>x. m = Ret x \<and> f x = Ret y)"
  by (cases m) auto

lemma obind_assoc: "obind (obind m f) g = obind m (\<lambda>x. obind (f x) g)"
  by (cases m) auto

lemma obind_cong [fundef_cong]:
  "m = m' \<Longrightarrow> (\<And>x. m' = Ret x \<Longrightarrow> f x = g x) \<Longrightarrow> obind m f = obind m' g"
  by (cases m') auto

lemma of_option_simps [simp]:
  "of_option msg (Some x) = Ret x" "of_option msg None = Panic msg"
  by (simp_all add: of_option_def)

lemma of_option_Ret_iff [simp]: "of_option msg x = Ret y \<longleftrightarrow> x = Some y"
  by (cases x) auto

section \<open>Big-endian byte strings\<close>

text \<open>
  The wire order of XDR, stated once: these two lists and their inverses are what the
  byte manipulations of the encoder, the decoder and the tag package are compared with.
\<close>

definition be32 :: "u32 \<Rightarrow> u8 list" where
  "be32 w = [ucast (drop_bit 24 w), ucast (drop_bit 16 w), ucast (drop_bit 8 w), ucast w]"

definition be64 :: "u64 \<Rightarrow> u8 list" where
  "be64 w = [ucast (drop_bit 56 w), ucast (drop_bit 48 w), ucast (drop_bit 40 w),
             ucast (drop_bit 32 w), ucast (drop_bit 24 w), ucast (drop_bit 16 w),
             ucast (drop_bit 8 w), ucast w]"

definition word32_of :: "u8 \<Rightarrow> u8 \<Rightarrow> u8 \<Rightarrow> u8 \<Rightarrow> u32" where
  "word32_of a b c d =
     push_bit 24 (ucast a) OR push_bit 16 (ucast b) OR push_bit 8 (ucast c) OR ucast d"

lemma length_be [simp]: "length (be32 w) = 4" "length (be64 v) = 8"
  by (simp_all add: be32_def be64_def)

lemma be_not_Nil [simp]: "be32 w \<noteq> []" "be64 v \<noteq> []"
  by (simp_all add: be32_def be64_def)

lemma word32_of_be32:
  "word32_of (ucast (drop_bit 24 w)) (ucast (drop_bit 16 w)) (ucast (drop_bit 8 w)) (ucast w) = w"
proof (rule bit_word_eqI)
  fix n assume "n < LENGTH(32)"
  then consider "n < 8" | "8 \<le> n" "n < 16" | "16 \<le> n" "n < 24" | "24 \<le> n" "n < 32"
    by fastforce
  then show "bit (word32_of (ucast (drop_bit 24 w)) (ucast (drop_bit 16 w))
      (ucast (drop_bit 8 w)) (ucast w)) n = bit w n"
    by cases (auto simp: word32_of_def bit_simps)
qed

lemma word32_of_bytes:
  "ucast (drop_bit 24 (word32_of a b c d)) = a" "ucast (drop_bit 16 (word32_of a b c d)) = b"
  "ucast (drop_bit 8 (word32_of a b c d)) = c" "ucast (word32_of a b c d) = d"
  unfolding word32_of_def
  by (rule bit_word_eqI, auto simp: bit_simps dest: bit_imp_le_length)+

lemma be32_word32_of: "be32 (word32_of a b c d) = [a, b, c, d]"
  by (simp add: be32_def word32_of_bytes)

lemma be32_inj: "be32 v = be32 w \<longleftrightarrow> v = w"
proof
  assume "be32 v = be32 w"
  then have "word32_of (ucast (drop_bit 24 v)) (ucast (drop_bit 16 v)) (ucast (drop_bit 8 v)) (ucast v)
     = word32_of (ucast (drop_bit 24 w)) (ucast (drop_bit 16 w)) (ucast (drop_bit 8 w)) (ucast w)"
    by (simp add: be32_def)
  then show "v = w" by (simp only: word32_of_be32)
qed simp

section \<open>Padding\<close>

text \<open>The number of zero bytes that bring \<open>n\<close> bytes to the next multiple of four.\<close>

definition xdr_pad :: "nat \<Rightarrow> nat" where
  "xdr_pad n = (4 - n mod 4) mod 4"

lemma xdr_pad_add: "n + xdr_pad n = (n + 3) div 4 * 4"
proof -
  obtain q r where n: "n = 4 * q + r" and r: "r < 4"
    by (metis mod_less_divisor mult_div_mod_eq zero_less_numeral)
  from r have "r = 0 \<or> r = 1 \<or> r = 2 \<or> r = 3" by auto
  then show ?thesis unfolding n by (auto simp: xdr_pad_def)
qed

lemma xdr_pad_aligned: "4 dvd n + xdr_pad n"
  by (simp add: xdr_pad_add)

lemma xdr_pad_less: "xdr_pad n < 4"
  by (simp add: xdr_pad_def)

lemma int_and_3: "(k :: int) AND 3 = k mod 4"
  using take_bit_eq_mask [of 2 k] by (simp add: take_bit_eq_mod mask_eq_exp_minus_1)

section \<open>Lists\<close>

lemma prefix_append_self [simp]: "prefix xs (xs @ ys)"
  by (simp add: prefix_def)

lemma length_concat_const:
  "(\<And>x. x \<in> set xs \<Longrightarrow> length (f x) = k) \<Longrightarrow> length (concat (map f xs)) = k * length xs"
  by (induction xs) auto

section \<open>Numbers as text\<close>

text \<open>What \<open>fmt\<close> prints for \<open>%d\<close> and \<open>%x\<close>, and for \<open>%08x\<close> with its zero padding.\<close>

definition digit_char :: "nat \<Rightarrow> char" where
  "digit_char d = (if d < 10 then char_of (48 + d) else char_of (87 + d))"

fun show_base :: "nat \<Rightarrow> nat \<Rightarrow> string" where
  "show_base b n = (if n < b \<or> b < 2 then [digit_char n]
     else show_base b (n div b) @ [digit_char (n mod b)])"

declare show_base.simps [simp del]

definition show_dec :: "nat \<Rightarrow> string" where "show_dec n = show_base 10 n"
definition show_hex :: "nat \<Rightarrow> string" where "show_hex n = show_base 16 n"

definition show_hex8 :: "nat \<Rightarrow> string" where
  "show_hex8 n = replicate (8 - length (show_hex n)) (CHR ''0'') @ show_hex n"

text \<open>\<open>%x\<close> of a signed number prints a minus sign and the magnitude.\<close>

definition show_hex_int :: "int \<Rightarrow> string" where
  "show_hex_int i = (if i < 0 then CHR ''-'' # show_hex (nat (- i)) else show_hex (nat i))"

end
