(* ===== verification/GoTypes.thy ===== *)
theory GoTypes
  imports Prelude
begin

text \<open>
  What the package reads of Go's type system through \<open>reflect\<close>: types, kinds, the
  declared (named) types of a program, run-time values, the accessors of
  \<open>reflect.Value\<close> (where an accessor panics on a wrong kind, the model returns
  \<open>None\<close>), zero values, and the equality Go's maps use on their keys.

  Strings of the program text (type, field and tag strings) are \<open>string\<close>s, one \<open>char\<close>
  per byte; the run-time strings that travel on the wire are byte lists.
\<close>

section \<open>Types and kinds\<close>

text \<open>
  A struct field is its name, its type and the value of the \<open>xdr\<close> key of its struct tag,
  i.e. what \<open>StructTag.Get("xdr")\<close> returns. \<open>GNamed\<close> refers to a declared type by name,
  so recursive types are cyclic through the type environment; the argument of
  \<open>GInterface\<close> says whether the interface's method set includes \<open>Marshaler\<close>.
\<close>

datatype gtype =
    GBool | GInt | GInt8 | GInt16 | GInt32 | GInt64
  | GUint | GUint8 | GUint16 | GUint32 | GUint64 | GUintptr
  | GFloat32 | GFloat64 | GComplex64 | GComplex128 | GString
  | GChan gtype | GFunc | GUnsafePointer | GInterface bool
  | GPtr gtype | GSlice gtype | GArray nat gtype | GMap gtype gtype
  | GStruct "gfield list" | GNamed string
and gfield = GField (fld_name: string) (fld_type: gtype) (fld_tag: string)

datatype gkind =
    KInvalid | KBool | KInt | KInt8 | KInt16 | KInt32 | KInt64
  | KUint | KUint8 | KUint16 | KUint32 | KUint64 | KUintptr
  | KFloat32 | KFloat64 | KComplex64 | KComplex128 | KString
  | KChan | KFunc | KUnsafePointer | KInterface
  | KPtr | KSlice | KArray | KMap | KStruct

text \<open>
  The declared types: name, underlying type, and whether the type (not its pointer)
  implements \<open>Marshaler\<close>.
\<close>

type_synonym tenv = "(string \<times> gtype \<times> bool) list"

definition under :: "tenv \<Rightarrow> gtype \<Rightarrow> gtype" where
  "under G t = (case t of
      GNamed n \<Rightarrow> (case map_of G n of Some (u, _) \<Rightarrow> u | None \<Rightarrow> t)
    | _ \<Rightarrow> t)"

fun kind_of :: "gtype \<Rightarrow> gkind" where
  "kind_of GBool = KBool" | "kind_of GInt = KInt" | "kind_of GInt8 = KInt8"
| "kind_of GInt16 = KInt16" | "kind_of GInt32 = KInt32" | "kind_of GInt64 = KInt64"
| "kind_of GUint = KUint" | "kind_of GUint8 = KUint8" | "kind_of GUint16 = KUint16"
| "kind_of GUint32 = KUint32" | "kind_of GUint64 = KUint64" | "kind_of GUintptr = KUintptr"
| "kind_of GFloat32 = KFloat32" | "kind_of GFloat64 = KFloat64"
| "kind_of GComplex64 = KComplex64" | "kind_of GComplex128 = KComplex128"
| "kind_of GString = KString" | "kind_of (GChan t) = KChan" | "kind_of GFunc = KFunc"
| "kind_of GUnsafePointer = KUnsafePointer" | "kind_of (GInterface b) = KInterface"
| "kind_of (GPtr t) = KPtr" | "kind_of (GSlice t) = KSlice" | "kind_of (GArray n t) = KArray"
| "kind_of (GMap k t) = KMap" | "kind_of (GStruct fs) = KStruct" | "kind_of (GNamed n) = KInvalid"

definition kind :: "tenv \<Rightarrow> gtype \<Rightarrow> gkind" where
  "kind G t = kind_of (under G t)"

text \<open>\<open>Type.Elem\<close>: panics unless the kind is Array, Chan, Map, Ptr or Slice.\<close>

definition elem_type :: "tenv \<Rightarrow> gtype \<Rightarrow> gtype option" where
  "elem_type G t = (case under G t of
      GArray _ e \<Rightarrow> Some e | GChan e \<Rightarrow> Some e | GMap _ e \<Rightarrow> Some e
    | GPtr e \<Rightarrow> Some e | GSlice e \<Rightarrow> Some e | _ \<Rightarrow> None)"

definition key_type :: "tenv \<Rightarrow> gtype \<Rightarrow> gtype option" where
  "key_type G t = (case under G t of GMap k _ \<Rightarrow> Some k | _ \<Rightarrow> None)"

definition array_len :: "tenv \<Rightarrow> gtype \<Rightarrow> nat option" where
  "array_len G t = (case under G t of GArray n _ \<Rightarrow> Some n | _ \<Rightarrow> None)"

definition struct_fields :: "tenv \<Rightarrow> gtype \<Rightarrow> gfield list option" where
  "struct_fields G t = (case under G t of GStruct fs \<Rightarrow> Some fs | _ \<Rightarrow> None)"

definition type_name :: "gtype \<Rightarrow> string" where
  "type_name t = (case t of GNamed n \<Rightarrow> n | _ \<Rightarrow> '''')"

definition implements_marshaler :: "tenv \<Rightarrow> gtype \<Rightarrow> bool" where
  "implements_marshaler G t = (case t of
      GNamed n \<Rightarrow> (case map_of G n of Some (_, b) \<Rightarrow> b | None \<Rightarrow> False)
    | GInterface b \<Rightarrow> b | _ \<Rightarrow> False)"

lemma elem_type_kind:
  "elem_type G t = Some e \<longleftrightarrow> (kind G t = KArray \<or> kind G t = KChan \<or> kind G t = KMap
     \<or> kind G t = KPtr \<or> kind G t = KSlice) \<and> elem_type G t = Some e"
  by (cases "under G t") (auto simp: elem_type_def kind_def)

lemma elem_type_exists:
  "kind G t \<in> {KArray, KMap, KPtr, KSlice} \<Longrightarrow> \<exists>e. elem_type G t = Some e"
  by (cases "under G t") (auto simp: elem_type_def kind_def)

section \<open>Values\<close>

text \<open>
  Integers keep their width; floating-point numbers are their bit patterns
  (\<open>math.Float32bits\<close> and \<open>math.Float64bits\<close>). A nil slice, map, pointer or interface is
  \<open>None\<close>; a map lists its entries in the order in which \<open>MapRange\<close> yields them.
  Values of the kinds the package never encodes (int, uint, uintptr, chan, func,
  unsafe.Pointer) are \<open>VOther\<close>.
\<close>

datatype gvalue =
    VBool bool | VInt8 u8 | VInt16 u16 | VInt32 u32 | VInt64 u64
  | VUint8 u8 | VUint16 u16 | VUint32 u32 | VUint64 u64
  | VFloat32 u32 | VFloat64 u64 | VComplex64 u32 u32 | VComplex128 u64 u64
  | VString "u8 list" | VPtr "gvalue option" | VIface "(gtype \<times> gvalue) option"
  | VSlice "gvalue list option" | VArray "gvalue list" | VStruct "gvalue list"
  | VMap "(gvalue \<times> gvalue) list option" | VOther

subsection \<open>Accessors of reflect.Value\<close>

text \<open>\<open>Int\<close> sign-extends to 64 bits, \<open>SetInt\<close> truncates to the width of the kind.\<close>

fun v_Int :: "gvalue \<Rightarrow> u64 option" where
  "v_Int (VInt8 w) = Some (scast w)" | "v_Int (VInt16 w) = Some (scast w)"
| "v_Int (VInt32 w) = Some (scast w)" | "v_Int (VInt64 w) = Some w" | "v_Int _ = None"

fun v_SetInt :: "gvalue \<Rightarrow> u64 \<Rightarrow> gvalue option" where
  "v_SetInt (VInt8 _) x = Some (VInt8 (ucast x))" | "v_SetInt (VInt16 _) x = Some (VInt16 (ucast x))"
| "v_SetInt (VInt32 _) x = Some (VInt32 (ucast x))" | "v_SetInt (VInt64 _) x = Some (VInt64 x)"
| "v_SetInt _ _ = None"

fun v_Uint :: "gvalue \<Rightarrow> u64 option" where
  "v_Uint (VUint8 w) = Some (ucast w)" | "v_Uint (VUint16 w) = Some (ucast w)"
| "v_Uint (VUint32 w) = Some (ucast w)" | "v_Uint (VUint64 w) = Some w" | "v_Uint _ = None"

fun v_SetUint :: "gvalue \<Rightarrow> u64 \<Rightarrow> gvalue option" where
  "v_SetUint (VUint8 _) x = Some (VUint8 (ucast x))" | "v_SetUint (VUint16 _) x = Some (VUint16 (ucast x))"
| "v_SetUint (VUint32 _) x = Some (VUint32 (ucast x))" | "v_SetUint (VUint64 _) x = Some (VUint64 x)"
| "v_SetUint _ _ = None"

fun v_Bool :: "gvalue \<Rightarrow> bool option" where
  "v_Bool (VBool b) = Some b" | "v_Bool _ = None"

fun v_SetBool :: "gvalue \<Rightarrow> bool \<Rightarrow> gvalue option" where
  "v_SetBool (VBool _) b = Some (VBool b)" | "v_SetBool _ _ = None"

fun v_String :: "gvalue \<Rightarrow> u8 list option" where
  "v_String (VString s) = Some s" | "v_String _ = None"

fun v_SetString :: "gvalue \<Rightarrow> u8 list \<Rightarrow> gvalue option" where
  "v_SetString (VString _) s = Some (VString s)" | "v_SetString _ _ = None"

text \<open>
  \<open>v.Float()\<close> widens a float32 to a float64, and \<open>float32(...)\<close> and \<open>SetFloat\<close> narrow it
  again. On the bit patterns the pair is the identity, but the conversion quiets a
  signalling NaN (it sets the top bit of the significand), as the processors Go supports do.
\<close>

definition f32_nan :: "u32 \<Rightarrow> bool" where
  "f32_nan b \<longleftrightarrow> b AND 0x7F800000 = 0x7F800000 \<and> b AND 0x007FFFFF \<noteq> 0"

definition f64_nan :: "u64 \<Rightarrow> bool" where
  "f64_nan b \<longleftrightarrow> b AND 0x7FF0000000000000 = 0x7FF0000000000000 \<and> b AND 0x000FFFFFFFFFFFFF \<noteq> 0"

definition f32_via_f64 :: "u32 \<Rightarrow> u32" where
  "f32_via_f64 b = (if f32_nan b then b OR 0x00400000 else b)"

lemma f32_via_f64_idem [simp]: "f32_via_f64 (f32_via_f64 b) = f32_via_f64 b"
  by (auto simp: f32_via_f64_def or.assoc)

text \<open>\<open>float32(v.Float())\<close> on a float32 value, and \<open>v.SetFloat(float64(f))\<close>.\<close>

fun v_Float32 :: "gvalue \<Rightarrow> u32 option" where
  "v_Float32 (VFloat32 b) = Some (f32_via_f64 b)" | "v_Float32 _ = None"

fun v_SetFloat32 :: "gvalue \<Rightarrow> u32 \<Rightarrow> gvalue option" where
  "v_SetFloat32 (VFloat32 _) b = Some (VFloat32 (f32_via_f64 b))" | "v_SetFloat32 _ _ = None"

fun v_Float64 :: "gvalue \<Rightarrow> u64 option" where
  "v_Float64 (VFloat64 b) = Some b" | "v_Float64 _ = None"

fun v_SetFloat64 :: "gvalue \<Rightarrow> u64 \<Rightarrow> gvalue option" where
  "v_SetFloat64 (VFloat64 _) b = Some (VFloat64 b)" | "v_SetFloat64 _ _ = None"

text \<open>\<open>complex64(v.Complex())\<close> and \<open>v.SetComplex(complex128(c))\<close>, per component.\<close>

fun v_Complex64 :: "gvalue \<Rightarrow> (u32 \<times> u32) option" where
  "v_Complex64 (VComplex64 re im) = Some (f32_via_f64 re, f32_via_f64 im)" | "v_Complex64 _ = None"

fun v_SetComplex64 :: "gvalue \<Rightarrow> u32 \<Rightarrow> u32 \<Rightarrow> gvalue option" where
  "v_SetComplex64 (VComplex64 _ _) re im = Some (VComplex64 (f32_via_f64 re) (f32_via_f64 im))"
| "v_SetComplex64 _ _ _ = None"

fun v_Complex128 :: "gvalue \<Rightarrow> (u64 \<times> u64) option" where
  "v_Complex128 (VComplex128 re im) = Some (re, im)" | "v_Complex128 _ = None"

fun v_SetComplex128 :: "gvalue \<Rightarrow> u64 \<Rightarrow> u64 \<Rightarrow> gvalue option" where
  "v_SetComplex128 (VComplex128 _ _) re im = Some (VComplex128 re im)"
| "v_SetComplex128 _ _ _ = None"

fun v_IsNil :: "gvalue \<Rightarrow> bool option" where
  "v_IsNil (VPtr p) = Some (p = None)" | "v_IsNil (VIface p) = Some (p = None)"
| "v_IsNil (VSlice p) = Some (p = None)" | "v_IsNil (VMap p) = Some (p = None)" | "v_IsNil _ = None"

text \<open>The elements of a slice value (a nil slice has none), and those of an array value.\<close>

fun slice_elems :: "gvalue \<Rightarrow> gvalue list option" where
  "slice_elems (VSlice None) = Some []" | "slice_elems (VSlice (Some vs)) = Some vs"
| "slice_elems _ = None"

fun array_elems :: "gvalue \<Rightarrow> gvalue list option" where
  "array_elems (VArray vs) = Some vs" | "array_elems _ = None"

text \<open>\<open>v.Field(i)\<close> on a struct value: panics out of range.\<close>

fun v_Field :: "gvalue \<Rightarrow> nat \<Rightarrow> gvalue option" where
  "v_Field (VStruct vs) i = (if i < length vs then Some (vs ! i) else None)" | "v_Field _ _ = None"

fun v_SetField :: "gvalue \<Rightarrow> nat \<Rightarrow> gvalue \<Rightarrow> gvalue" where
  "v_SetField (VStruct vs) i x = VStruct (vs[i := x])" | "v_SetField v _ _ = v"

text \<open>
  \<open>Value.Bytes\<close> needs elements of kind Uint8 (it panics on other kinds, int8 included).
\<close>

fun byte_of :: "gvalue \<Rightarrow> u8 option" where
  "byte_of (VUint8 b) = Some b" | "byte_of _ = None"

fun bytes_of :: "gvalue list \<Rightarrow> u8 list option" where
  "bytes_of [] = Some []"
| "bytes_of (v # vs) = (case byte_of v of None \<Rightarrow> None
     | Some b \<Rightarrow> (case bytes_of vs of None \<Rightarrow> None | Some bs \<Rightarrow> Some (b # bs)))"

definition byte_kind :: "tenv \<Rightarrow> gtype \<Rightarrow> bool" where
  "byte_kind G t \<longleftrightarrow> (case elem_type G t of Some e \<Rightarrow> kind G e = KUint8 | None \<Rightarrow> False)"

lemma bytes_of_map [simp]: "bytes_of (map VUint8 bs) = Some bs"
  by (induction bs) auto

lemma bytes_of_Some: "bytes_of vs = Some bs \<longleftrightarrow> vs = map VUint8 bs"
proof
  show "bytes_of vs = Some bs \<Longrightarrow> vs = map VUint8 bs"
  proof (induction vs arbitrary: bs)
    case (Cons v vs)
    then show ?case by (cases v) (auto split: option.splits)
  qed simp
qed simp

section \<open>Zero values\<close>

text \<open>
  \<open>reflect.Zero\<close>. A Go type cannot contain itself except through a pointer, slice, map or
  interface, whose zero value is nil; so a declared name is expanded at most once on the
  way down and can be dropped from the environment.
\<close>

lemma fld_type_size: "f \<in> set fs \<Longrightarrow> size (fld_type f) < Suc (size_list size fs)"
proof (induction fs)
  case (Cons g fs)
  then show ?case by (cases g) auto
qed simp

function zero_value :: "tenv \<Rightarrow> gtype \<Rightarrow> gvalue" where
  "zero_value G GBool = VBool False" | "zero_value G GInt8 = VInt8 0"
| "zero_value G GInt16 = VInt16 0" | "zero_value G GInt32 = VInt32 0"
| "zero_value G GInt64 = VInt64 0" | "zero_value G GUint8 = VUint8 0"
| "zero_value G GUint16 = VUint16 0" | "zero_value G GUint32 = VUint32 0"
| "zero_value G GUint64 = VUint64 0" | "zero_value G GFloat32 = VFloat32 0"
| "zero_value G GFloat64 = VFloat64 0" | "zero_value G GComplex64 = VComplex64 0 0"
| "zero_value G GComplex128 = VComplex128 0 0" | "zero_value G GString = VString []"
| "zero_value G (GInterface b) = VIface None" | "zero_value G (GPtr t) = VPtr None"
| "zero_value G (GSlice t) = VSlice None" | "zero_value G (GMap k t) = VMap None"
| "zero_value G (GArray n t) = VArray (replicate n (zero_value G t))"
| "zero_value G (GStruct fs) = VStruct (map (\<lambda>f. zero_value G (fld_type f)) fs)"
| "zero_value G (GNamed n) = (case map_of G n of
     Some (u, _) \<Rightarrow> zero_value (filter (\<lambda>d. fst d \<noteq> n) G) u | None \<Rightarrow> VOther)"
| "zero_value G GInt = VOther" | "zero_value G GUint = VOther" | "zero_value G GUintptr = VOther"
| "zero_value G (GChan t) = VOther" | "zero_value G GFunc = VOther"
| "zero_value G GUnsafePointer = VOther"
  by pat_completeness auto
termination
proof (relation "measures [\<lambda>(G, t). length G, \<lambda>(G, t). size t]", goal_cases)
  case (3 G fs f)
  then show ?case by (simp add: fld_type_size)
next
  case (4 G n d u b)
  then have "(n, u, b) \<in> set G" by (simp add: map_of_SomeD)
  then have "length (filter (\<lambda>d. fst d \<noteq> n) G) < length G"
    by (rule length_filter_less) simp
  then show ?case by simp
qed auto

section \<open>Map keys\<close>

text \<open>
  Go's \<open>==\<close> as maps apply it: NaN differs from itself, \<open>+0\<close> equals \<open>-0\<close>, and two pointers
  are equal only when both are nil, since every pointer a decoder makes is fresh.
\<close>

definition f32_eq :: "u32 \<Rightarrow> u32 \<Rightarrow> bool" where
  "f32_eq a b \<longleftrightarrow> \<not> f32_nan a \<and> \<not> f32_nan b \<and> (a = b \<or> (a AND 0x7FFFFFFF = 0 \<and> b AND 0x7FFFFFFF = 0))"

definition f64_eq :: "u64 \<Rightarrow> u64 \<Rightarrow> bool" where
  "f64_eq a b \<longleftrightarrow> \<not> f64_nan a \<and> \<not> f64_nan b \<and>
     (a = b \<or> (a AND 0x7FFFFFFFFFFFFFFF = 0 \<and> b AND 0x7FFFFFFFFFFFFFFF = 0))"

fun go_eq :: "gvalue \<Rightarrow> gvalue \<Rightarrow> bool" where
  "go_eq (VFloat32 a) y = (case y of VFloat32 b \<Rightarrow> f32_eq a b | _ \<Rightarrow> False)"
| "go_eq (VFloat64 a) y = (case y of VFloat64 b \<Rightarrow> f64_eq a b | _ \<Rightarrow> False)"
| "go_eq (VComplex64 a b) y = (case y of VComplex64 c d \<Rightarrow> f32_eq a c \<and> f32_eq b d | _ \<Rightarrow> False)"
| "go_eq (VComplex128 a b) y = (case y of VComplex128 c d \<Rightarrow> f64_eq a c \<and> f64_eq b d | _ \<Rightarrow> False)"
| "go_eq (VPtr p) y = (p = None \<and> y = VPtr None)"
| "go_eq (VIface None) y = (y = VIface None)"
| "go_eq (VIface (Some (t, x))) y = (case y of VIface (Some (u, z)) \<Rightarrow> t = u \<and> go_eq x z | _ \<Rightarrow> False)"
| "go_eq (VStruct xs) y = (case y of VStruct ys \<Rightarrow> list_all2 go_eq xs ys | _ \<Rightarrow> False)"
| "go_eq (VArray xs) y = (case y of VArray ys \<Rightarrow> list_all2 go_eq xs ys | _ \<Rightarrow> False)"
| "go_eq (VBool b) y = (y = VBool b)"
| "go_eq (VInt8 w) y = (y = VInt8 w)" | "go_eq (VInt16 w) y = (y = VInt16 w)"
| "go_eq (VInt32 w) y = (y = VInt32 w)" | "go_eq (VInt64 w) y = (y = VInt64 w)"
| "go_eq (VUint8 w) y = (y = VUint8 w)" | "go_eq (VUint16 w) y = (y = VUint16 w)"
| "go_eq (VUint32 w) y = (y = VUint32 w)" | "go_eq (VUint64 w) y = (y = VUint64 w)"
| "go_eq (VString bs) y = (y = VString bs)"
| "go_eq (VSlice x) y = False" | "go_eq (VMap x) y = False" | "go_eq VOther y = False"

text \<open>\<open>SetMapIndex\<close>: overwrites the entry with an equal key, or adds one.\<close>

fun map_set :: "(gvalue \<times> gvalue) list \<Rightarrow> gvalue \<Rightarrow> gvalue \<Rightarrow> (gvalue \<times> gvalue) list" where
  "map_set [] k v = [(k, v)]"
| "map_set ((k', v') # m) k v = (if go_eq k' k then (k', v) # m else (k', v') # map_set m k v)"

lemma map_set_fresh: "(\<forall>(k', _)\<in>set m. \<not> go_eq k' k) \<Longrightarrow> map_set m k v = m @ [(k, v)]"
  by (induction m) auto

end
