(* ===== verification/Layout.thy ===== *)
theory Layout
  imports GoTypes
begin

text \<open>
  The memory layout of Go's types: what \<open>reflect.Type.Size\<close> and \<open>reflect.StructField.Offset\<close>
  report for the gc compiler, on platforms with 4-byte and 8-byte words. The unsafe build
  stores these numbers in its codecs. Also: types whose values are finite (Go refuses the
  others as invalid recursive types), for which sizes and zero values do not depend on how
  deep a declared name is unfolded.
\<close>

section \<open>Sizes, alignments, offsets\<close>

text \<open>The size of a word, from the largest int of the platform.\<close>

definition word_bytes :: "nat \<Rightarrow> nat" where
  "word_bytes maxInt = (if maxInt < 2 ^ 31 then 4 else 8)"

definition align_up :: "nat \<Rightarrow> nat \<Rightarrow> nat" where
  "align_up off a = (off + (a - 1)) div a * a"

text \<open>Fields in order, each at the next multiple of its alignment; the offsets and the end.\<close>

fun place :: "nat \<Rightarrow> (nat \<times> nat) list \<Rightarrow> nat list \<times> nat" where
  "place off [] = ([], off)"
| "place off ((s, a) # sas) =
     (let o1 = align_up off a; (os, e) = place (o1 + s) sas in (o1 # os, e))"

text \<open>
  A struct is as aligned as its most aligned field; one that ends in a field without size
  gets an extra byte, so that a pointer to that field stays within the struct.
\<close>

definition struct_layout :: "(nat \<times> nat) list \<Rightarrow> nat \<times> nat" where
  "struct_layout sas = (let e = snd (place 0 sas); a = fold max (map snd sas) 1 in
     (align_up (if 0 < e \<and> fst (last sas) = 0 then Suc e else e) a, a))"

function size_align :: "nat \<Rightarrow> tenv \<Rightarrow> gtype \<Rightarrow> nat \<times> nat" where
  "size_align w G GBool = (1, 1)" | "size_align w G GInt8 = (1, 1)"
| "size_align w G GInt16 = (2, 2)" | "size_align w G GInt32 = (4, 4)"
| "size_align w G GInt64 = (8, w)" | "size_align w G GUint8 = (1, 1)"
| "size_align w G GUint16 = (2, 2)" | "size_align w G GUint32 = (4, 4)"
| "size_align w G GUint64 = (8, w)" | "size_align w G GFloat32 = (4, 4)"
| "size_align w G GFloat64 = (8, w)" | "size_align w G GComplex64 = (8, 4)"
| "size_align w G GComplex128 = (16, w)" | "size_align w G GString = (2 * w, w)"
| "size_align w G (GInterface b) = (2 * w, w)" | "size_align w G (GPtr t) = (w, w)"
| "size_align w G (GSlice t) = (3 * w, w)" | "size_align w G (GMap k t) = (w, w)"
| "size_align w G (GArray n t) = (case size_align w G t of (s, a) \<Rightarrow> (n * s, a))"
| "size_align w G (GStruct fs) = struct_layout (map (\<lambda>f. size_align w G (fld_type f)) fs)"
| "size_align w G (GNamed n) = (case map_of G n of
     Some (u, _) \<Rightarrow> size_align w (filter (\<lambda>d. fst d \<noteq> n) G) u | None \<Rightarrow> (0, 1))"
| "size_align w G GInt = (w, w)" | "size_align w G GUint = (w, w)" | "size_align w G GUintptr = (w, w)"
| "size_align w G (GChan t) = (w, w)" | "size_align w G GFunc = (w, w)"
| "size_align w G GUnsafePointer = (w, w)"
  by pat_completeness auto
termination
proof (relation "measures [\<lambda>(w, G, t). length G, \<lambda>(w, G, t). size t]", goal_cases)
  case (3 w G fs f)
  then show ?case by (simp add: fld_type_size)
next
  case (4 w G n d u b)
  then have "(n, u, b) \<in> set G" by (simp add: map_of_SomeD)
  then have "length (filter (\<lambda>d. fst d \<noteq> n) G) < length G"
    by (rule length_filter_less) simp
  then show ?case by simp
qed auto

definition size_of :: "nat \<Rightarrow> tenv \<Rightarrow> gtype \<Rightarrow> nat" where
  "size_of w G t = fst (size_align w G t)"

definition field_offset :: "nat \<Rightarrow> tenv \<Rightarrow> gtype \<Rightarrow> nat \<Rightarrow> nat" where
  "field_offset w G t i = (case struct_fields G t of
      Some fs \<Rightarrow> fst (place 0 (map (\<lambda>f. size_align w G (fld_type f)) fs)) ! i | None \<Rightarrow> 0)"

section \<open>Fields do not overlap\<close>

lemma align_up_ge: "0 < a \<Longrightarrow> off \<le> align_up off a"
proof -
  assume a: "0 < a"
  have "off + (a - 1) = (off + (a - 1)) div a * a + (off + (a - 1)) mod a" by simp
  moreover have "(off + (a - 1)) mod a \<le> a - 1" using a by (simp add: Suc_leI less_Suc_eq_le [symmetric])
  ultimately show ?thesis using a unfolding align_up_def by linarith
qed

lemma place_length: "length (fst (place off sas)) = length sas"
  by (induction off sas rule: place.induct) (auto simp: Let_def split: prod.splits)

lemma place_bounds:
  "(\<forall>(s, a)\<in>set sas. 0 < a) \<Longrightarrow> off \<le> snd (place off sas) \<and>
    (\<forall>i<length sas. off \<le> fst (place off sas) ! i
      \<and> fst (place off sas) ! i + fst (sas ! i) \<le> snd (place off sas))"
proof (induction off sas rule: place.induct)
  case (2 off s a sas)
  obtain os e where p: "place (align_up off a + s) sas = (os, e)" by fastforce
  note IH = "2.IH" [OF refl] and up = align_up_ge [of a off]
  show ?case using IH up 2 p by (auto simp: Let_def less_Suc_eq_0_disj split: prod.splits)
qed simp

lemma place_disjoint:
  "(\<forall>(s, a)\<in>set sas. 0 < a) \<Longrightarrow> i < j \<Longrightarrow> j < length sas \<Longrightarrow>
     fst (place off sas) ! i + fst (sas ! i) \<le> fst (place off sas) ! j"
proof (induction off sas arbitrary: i j rule: place.induct)
  case (2 off s a sas)
  obtain os e where p: "place (align_up off a + s) sas = (os, e)" by fastforce
  obtain j' where j: "j = Suc j'" using 2 by (cases j) auto
  show ?case
  proof (cases i)
    case 0
    then show ?thesis using place_bounds [of sas "align_up off a + s"] 2(2,4) j p
      by (auto simp: Let_def)
  next
    case (Suc i')
    then show ?thesis using 2 j p by (auto simp: Let_def)
  qed
qed simp

section \<open>Types with finite values\<close>

text \<open>
  \<open>solid k G t\<close>: values of type \<open>t\<close> are finite, with at most \<open>k\<close> declared names one inside
  the other, pointers, slices and maps not counted. The compiler accepts no other types.
\<close>

function (sequential) solid :: "nat \<Rightarrow> tenv \<Rightarrow> gtype \<Rightarrow> bool" where
  "solid k G (GNamed n) = (case k of 0 \<Rightarrow> False | Suc j \<Rightarrow> (case map_of G n of
     Some (u, _) \<Rightarrow> solid j G u | None \<Rightarrow> False))"
| "solid k G (GArray m t) = solid k G t"
| "solid k G (GStruct fs) = (\<forall>f\<in>set fs. solid k G (fld_type f))"
| "solid k G t = True"
  by pat_completeness auto
termination
  by (relation "measures [\<lambda>(k, G, t). k, \<lambda>(k, G, t). size t]") (auto simp: fld_type_size)

definition solid_type :: "tenv \<Rightarrow> gtype \<Rightarrow> bool" where
  "solid_type G t \<longleftrightarrow> (\<exists>k. solid k G t)"

lemma solid_mono: "solid k G t \<Longrightarrow> k \<le> l \<Longrightarrow> solid l G t"
proof (induction k G t arbitrary: l rule: solid.induct)
  case (1 k G n)
  then show ?case by (cases l) (auto split: nat.splits option.splits)
qed auto

text \<open>Names that a solid type cannot contain may be dropped from the environment.\<close>

lemma solid_drop:
  "solid k G t \<Longrightarrow> (\<And>n. n \<in> D \<Longrightarrow> \<not> solid k G (GNamed n)) \<Longrightarrow>
     zero_value (filter (\<lambda>d. fst d \<notin> D) G) t = zero_value G t
   \<and> size_align w (filter (\<lambda>d. fst d \<notin> D) G) t = size_align w G t"
proof (induction k arbitrary: D t rule: less_induct)
  case (less k)
  note IH = less.IH
  from less.prems show ?case
  proof (induction t rule: measure_induct_rule [of size])
    case (less t)
    show ?case
    proof (cases t)
      case (GArray m e)
      then show ?thesis using less.IH [of e] less.prems by auto
    next
      case (GStruct fs)
      have "zero_value (filter (\<lambda>d. fst d \<notin> D) G) (fld_type f) = zero_value G (fld_type f)
         \<and> size_align w (filter (\<lambda>d. fst d \<notin> D) G) (fld_type f) = size_align w G (fld_type f)"
        if "f \<in> set fs" for f
        using less.IH [of "fld_type f"] less.prems that GStruct by (auto simp: fld_type_size)
      then show ?thesis using GStruct by (auto cong: map_cong)
    next
      case (GNamed n)
      define k0 where "k0 = (LEAST l. solid l G (GNamed n))"
      have k0: "solid k0 G (GNamed n)" "k0 \<le> k"
        unfolding k0_def using less.prems GNamed by (auto intro: LeastI Least_le)
      then obtain j u b where j: "k0 = Suc j" "map_of G n = Some (u, b)" "solid j G u"
        by (auto split: nat.splits option.splits)
      have n: "n \<notin> D" using less.prems GNamed by blast
      have nj: "\<not> solid j G (GNamed n)" using not_less_Least [of j "\<lambda>l. solid l G (GNamed n)"] j k0_def by simp
      have D: "\<not> solid j G (GNamed m)" if "m \<in> D" for m
        using less.prems(2) [OF that] solid_mono [of j G "GNamed m" k] j k0 by auto
      have "j < k" using j k0 by simp
      note 1 = IH [OF this j(3), of "{n}"] and 2 = IH [OF this j(3), of "insert n D"]
      have "filter (\<lambda>d. fst d \<noteq> n) (filter (\<lambda>d. fst d \<notin> D) G) = filter (\<lambda>d. fst d \<notin> insert n D) G"
        by (auto simp: conj_commute intro: filter_cong)
      moreover have "map_of (filter (\<lambda>d. fst d \<notin> D) G) n = Some (u, b)"
        using n j(2) by (induction G) auto
      ultimately show ?thesis using 1 2 nj D j(2) GNamed by auto
    qed auto
  qed
qed

lemma solid_named:
  assumes "solid_type G (GNamed n)" and "map_of G n = Some (u, b)"
  shows "zero_value G (GNamed n) = zero_value G u" "size_align w G (GNamed n) = size_align w G u"
    "solid_type G u"
proof -
  define k where "k = (LEAST l. solid l G (GNamed n))"
  have "solid k G (GNamed n)" unfolding k_def using assms(1) by (auto simp: solid_type_def intro: LeastI)
  with assms(2) obtain j where j: "k = Suc j" "solid j G u" by (auto split: nat.splits)
  then have "\<not> solid j G (GNamed n)" using not_less_Least [of j "\<lambda>l. solid l G (GNamed n)"] k_def by simp
  then show "zero_value G (GNamed n) = zero_value G u" "size_align w G (GNamed n) = size_align w G u"
    using solid_drop [OF j(2), of "{n}" w] assms(2) by auto
  show "solid_type G u" using j(2) by (auto simp: solid_type_def)
qed

lemma solid_parts:
  "solid_type G (GArray m e) \<longleftrightarrow> solid_type G e"
  "solid_type G (GStruct fs) \<Longrightarrow> f \<in> set fs \<Longrightarrow> solid_type G (fld_type f)"
  by (auto simp: solid_type_def)

section \<open>The parts of a value lie apart\<close>

lemma fold_max_ge: "(a :: nat) \<le> fold max ns a"
  by (induction ns arbitrary: a) (auto intro: order_trans [OF max.cobounded2])

lemma align_pos: "0 < w \<Longrightarrow> 0 < snd (size_align w G t)"
proof (induction w G t rule: size_align.induct)
  case (20 w G fs)
  then show ?case using fold_max_ge [of 1] by (auto simp: struct_layout_def Let_def Suc_le_eq)
qed (auto split: prod.splits option.splits)

lemma struct_size: "snd (place 0 sas) \<le> fst (struct_layout sas)"
proof -
  have a: "0 < fold max (map snd sas) 1" using fold_max_ge [of 1 "map snd sas"] by simp
  show ?thesis
    using align_up_ge [OF a, of "snd (place 0 sas)"] align_up_ge [OF a, of "Suc (snd (place 0 sas))"]
    by (auto simp: struct_layout_def Let_def)
qed

lemma size_under:
  assumes "solid_type G t"
  shows "size_align w G t = size_align w G (under G t)" "zero_value G t = zero_value G (under G t)"
  using assms solid_named(1) [of G] solid_named(2) [of G, where w = w]
  by (cases t; auto simp: under_def split: option.splits)+

lemma size_of_kind:
  assumes "solid_type G t"
  shows "kind G t \<in> {KBool, KInt8, KUint8} \<Longrightarrow> size_of w G t = 1"
    "kind G t \<in> {KInt16, KUint16} \<Longrightarrow> size_of w G t = 2"
    "kind G t \<in> {KInt32, KUint32, KFloat32} \<Longrightarrow> size_of w G t = 4"
    "kind G t \<in> {KInt64, KUint64, KFloat64, KComplex64} \<Longrightarrow> size_of w G t = 8"
    "kind G t = KComplex128 \<Longrightarrow> size_of w G t = 16"
    "kind G t \<in> {KString, KInterface} \<Longrightarrow> size_of w G t = 2 * w"
    "kind G t \<in> {KPtr, KMap} \<Longrightarrow> size_of w G t = w" "kind G t = KSlice \<Longrightarrow> size_of w G t = 3 * w"
  using size_under(1) [OF assms, of w]
  by (cases "under G t"; simp add: size_of_def kind_def)+

lemma array_size:
  assumes "solid_type G t" "array_len G t = Some n" "elem_type G t = Some e"
  shows "size_of w G t = n * size_of w G e"
  using size_under(1) [OF assms(1), of w] assms(2,3)
  by (cases "under G t") (auto simp: size_of_def array_len_def elem_type_def split: prod.splits)

lemma field_block:
  assumes "0 < w" "solid_type G t" "struct_fields G t = Some fs" "i < length fs"
  shows "field_offset w G t i + size_of w G (fld_type (fs ! i)) \<le> size_of w G t"
proof -
  let ?s = "map (\<lambda>f. size_align w G (fld_type f)) fs"
  have u: "under G t = GStruct fs" using assms(3) by (auto simp: struct_fields_def split: gtype.splits)
  have "\<forall>(s, a)\<in>set ?s. 0 < a" using align_pos [OF assms(1), of G] by (auto simp: prod_eq_iff)
  from place_bounds [OF this, of 0] assms(4) struct_size [of ?s] show ?thesis
    using size_under(1) [OF assms(2), of w] assms(3) u
    by (auto simp: field_offset_def size_of_def dest!: spec [of _ i])
qed

lemma field_apart:
  assumes "0 < w" "struct_fields G t = Some fs" "i < j" "j < length fs"
  shows "field_offset w G t i + size_of w G (fld_type (fs ! i)) \<le> field_offset w G t j"
proof -
  let ?s = "map (\<lambda>f. size_align w G (fld_type f)) fs"
  have "\<forall>(s, a)\<in>set ?s. 0 < a" using align_pos [OF assms(1), of G] by (auto simp: prod_eq_iff)
  from place_disjoint [OF this assms(3), of 0] assms(2-4) show ?thesis
    by (simp add: field_offset_def size_of_def)
qed

end
