(* ===== verification/GoStrings.thy ===== *)
theory GoStrings
  imports Prelude
begin

text \<open>
  The functions of Go's \<open>strings\<close> and \<open>strconv\<close> packages the tag parser calls:
  \<open>strings.TrimSpace\<close>, \<open>strings.Split\<close> with a one-byte separator, \<open>strings.HasPrefix\<close>,
  and \<open>strconv.ParseUint(s, 0, 32)\<close> with its base prefixes and underscores.
\<close>

section \<open>strings\<close>

text \<open>
  The UTF-8 encodings of the runes \<open>unicode.IsSpace\<close> accepts.
\<close>

definition space_seqs :: "string list" where
  "space_seqs = map (map char_of) ([[9], [10], [11], [12], [13], [32], [0xC2, 0x85], [0xC2, 0xA0],
     [0xE1, 0x9A, 0x80], [0xE2, 0x80, 0xA8], [0xE2, 0x80, 0xA9], [0xE2, 0x80, 0xAF],
     [0xE2, 0x81, 0x9F], [0xE3, 0x80, 0x80]] @ map (\<lambda>k. [0xE2, 0x80, 0x80 + k]) [0 ..< 11 :: nat])"

lemma space_seqs_not_Nil: "w \<in> set space_seqs \<Longrightarrow> w \<noteq> []"
  by (auto simp: space_seqs_def)

function trim_left :: "string \<Rightarrow> string" where
  "trim_left s = (case find (\<lambda>w. prefix w s) space_seqs of
     Some w \<Rightarrow> trim_left (drop (length w) s) | None \<Rightarrow> s)"
  by pat_completeness auto
termination
  by (relation "measure length")
     (auto simp: find_Some_iff prefix_def dest!: space_seqs_not_Nil [OF nth_mem])

function trim_right :: "string \<Rightarrow> string" where
  "trim_right s = (case find (\<lambda>w. suffix w s) space_seqs of
     Some w \<Rightarrow> trim_right (take (length s - length w) s) | None \<Rightarrow> s)"
  by pat_completeness auto
termination
  by (relation "measure length")
     (auto simp: find_Some_iff suffix_def dest!: space_seqs_not_Nil [OF nth_mem])

declare trim_left.simps [simp del] trim_right.simps [simp del]

definition TrimSpace :: "string \<Rightarrow> string" where
  "TrimSpace s = trim_right (trim_left s)"

fun split_on :: "char \<Rightarrow> string \<Rightarrow> string list" where
  "split_on c [] = [[]]"
| "split_on c (x # xs) = (if x = c then [] # split_on c xs
     else (case split_on c xs of [] \<Rightarrow> [[x]] | p # ps \<Rightarrow> (x # p) # ps))"

lemma split_on_not_Nil [simp]: "split_on c s \<noteq> []"
  by (induction s) (auto split: list.splits)

lemma length_split_on: "length (split_on c s) = Suc (count_list s c)"
proof (induction s)
  case (Cons x s)
  then show ?case by (cases "split_on c s") auto
qed simp

fun join_on :: "char \<Rightarrow> string list \<Rightarrow> string" where
  "join_on c [] = []"
| "join_on c [p] = p"
| "join_on c (p # ps) = p @ c # join_on c ps"

lemma join_split_on: "join_on c (split_on c s) = s"
proof (induction s)
  case (Cons x s)
  then show ?case
    by (cases "split_on c s"; cases "tl (split_on c s)") auto
qed simp

lemma length_hd_split_on: "length (hd (split_on c s)) \<le> length s"
proof (induction s)
  case (Cons x s)
  then show ?case by (cases "split_on c s") auto
qed simp

lemma length_trim_left: "length (trim_left s) \<le> length s"
proof (induction s rule: trim_left.induct)
  case (1 s)
  show ?case
  proof (cases "find (\<lambda>w. prefix w s) space_seqs")
    case (Some w)
    with 1 have "length (trim_left (drop (length w) s)) \<le> length (drop (length w) s)" by simp
    with Some show ?thesis by (simp add: trim_left.simps [of s])
  qed (simp add: trim_left.simps [of s])
qed

lemma length_trim_right: "length (trim_right s) \<le> length s"
proof (induction s rule: trim_right.induct)
  case (1 s)
  show ?case
  proof (cases "find (\<lambda>w. suffix w s) space_seqs")
    case (Some w)
    with 1 have "length (trim_right (take (length s - length w) s))
        \<le> length (take (length s - length w) s)" by simp
    with Some show ?thesis by (simp add: trim_right.simps [of s])
  qed (simp add: trim_right.simps [of s])
qed

lemma length_TrimSpace: "length (TrimSpace s) \<le> length s"
  unfolding TrimSpace_def by (rule order_trans [OF length_trim_right length_trim_left])

text \<open>A string whose first and last bytes do not occur in a space sequence is not trimmed.\<close>

definition space_bytes :: "char set" where
  "space_bytes = set (concat space_seqs)"

lemma trim_left_id: "hd s \<notin> space_bytes \<Longrightarrow> trim_left s = s"
proof -
  assume h: "hd s \<notin> space_bytes"
  have "\<not> prefix w s" if "w \<in> set space_seqs" for w
  proof
    assume "prefix w s"
    moreover have "w \<noteq> []" using that by (rule space_seqs_not_Nil)
    ultimately have "hd s \<in> set w" by (cases w) (auto simp: prefix_def)
    with that h show False by (auto simp: space_bytes_def)
  qed
  then have "find (\<lambda>w. prefix w s) space_seqs = None" by (auto simp: find_None_iff)
  then show ?thesis by (simp add: trim_left.simps [of s])
qed

lemma trim_right_id: "last s \<notin> space_bytes \<Longrightarrow> trim_right s = s"
proof -
  assume h: "last s \<notin> space_bytes"
  have "\<not> suffix w s" if "w \<in> set space_seqs" for w
  proof
    assume "suffix w s"
    moreover have "w \<noteq> []" using that by (rule space_seqs_not_Nil)
    ultimately have "last s \<in> set w" by (auto simp: suffix_def)
    with that h show False by (auto simp: space_bytes_def)
  qed
  then have "find (\<lambda>w. suffix w s) space_seqs = None" by (auto simp: find_None_iff)
  then show ?thesis by (simp add: trim_right.simps [of s])
qed

lemma TrimSpace_id: "hd s \<notin> space_bytes \<Longrightarrow> last s \<notin> space_bytes \<Longrightarrow> TrimSpace s = s"
  by (simp add: TrimSpace_def trim_left_id trim_right_id)

lemma space_bytes_range:
  "c \<in> space_bytes \<Longrightarrow> (of_char c :: nat) \<le> 32 \<or> 128 \<le> (of_char c :: nat)"
  by (auto simp: space_bytes_def space_seqs_def)

lemma ascii_not_space: "33 \<le> (of_char c :: nat) \<Longrightarrow> (of_char c :: nat) < 128 \<Longrightarrow> c \<notin> space_bytes"
  using space_bytes_range [of c] by auto

lemma split_on_append:
  "c \<notin> set xs \<Longrightarrow> split_on c (xs @ c # ys) = xs # split_on c ys"
  by (induction xs) auto

lemma split_on_no_sep: "c \<notin> set xs \<Longrightarrow> split_on c xs = [xs]"
  by (induction xs) auto

section \<open>strconv.ParseUint(s, 0, 32)\<close>

datatype num_error = ErrSyntax | ErrRange

definition lower :: "char \<Rightarrow> char" where
  "lower c = char_of (or (of_char c) (0x20 :: nat))"

definition digit_val :: "char \<Rightarrow> nat option" where
  "digit_val c = (let n = of_char c :: nat; l = of_char (lower c) :: nat in
     if 48 \<le> n \<and> n \<le> 57 then Some (n - 48)
     else if 97 \<le> l \<and> l \<le> 122 then Some (l - 97 + 10) else None)"

text \<open>
  The base and the digits after the prefix: \<open>0b\<close>, \<open>0o\<close>, \<open>0x\<close> need a third character, a
  lone leading zero means octal.
\<close>

definition base_of :: "string \<Rightarrow> nat \<times> string" where
  "base_of s = (if s \<noteq> [] \<and> hd s = CHR ''0'' then
       (if length s \<ge> 3 \<and> lower (s ! 1) = CHR ''b'' then (2, drop 2 s)
        else if length s \<ge> 3 \<and> lower (s ! 1) = CHR ''o'' then (8, drop 2 s)
        else if length s \<ge> 3 \<and> lower (s ! 1) = CHR ''x'' then (16, drop 2 s)
        else (8, drop 1 s))
     else (10, s))"

text \<open>
  The digit loop: \<open>n\<close> the value so far, \<open>us\<close> whether an underscore was seen. With a limit
  of 32 bits the 64-bit accumulator cannot overflow, so the only range check that fires
  is the one against \<open>2^32 - 1\<close>.
\<close>

fun digits_loop :: "nat \<Rightarrow> string \<Rightarrow> nat \<Rightarrow> bool \<Rightarrow> num_error + nat \<times> bool" where
  "digits_loop base [] n us = Inr (n, us)"
| "digits_loop base (c # cs) n us =
     (if c = CHR ''_'' then digits_loop base cs n True
      else (case digit_val c of None \<Rightarrow> Inl ErrSyntax
        | Some d \<Rightarrow> if d \<ge> base then Inl ErrSyntax
            else if n * base + d > 2 ^ 32 - 1 then Inl ErrRange
            else digits_loop base cs (n * base + d) us))"

text \<open>
  \<open>underscoreOK\<close>: underscores must separate digits; a base prefix counts as a digit.
  The character class of the previous character is \<open>0\<close> (digit), \<open>_\<close>, \<open>!\<close> (other), or
  \<open>^\<close> at the start.
\<close>

fun underscore_scan :: "bool \<Rightarrow> string \<Rightarrow> char \<Rightarrow> bool" where
  "underscore_scan hex [] saw = (saw \<noteq> CHR ''_'')"
| "underscore_scan hex (c # cs) saw =
     (let n = of_char c :: nat; l = of_char (lower c) :: nat in
      if (48 \<le> n \<and> n \<le> 57) \<or> (hex \<and> 97 \<le> l \<and> l \<le> 102) then underscore_scan hex cs (CHR ''0'')
      else if c = CHR ''_'' then (if saw \<noteq> CHR ''0'' then False else underscore_scan hex cs (CHR ''_''))
      else if saw = CHR ''_'' then False
      else underscore_scan hex cs (CHR ''!''))"

definition underscoreOK :: "string \<Rightarrow> bool" where
  "underscoreOK s0 = (let s = (if s0 \<noteq> [] \<and> hd s0 \<in> {CHR ''-'', CHR ''+''} then tl s0 else s0) in
     if length s \<ge> 2 \<and> s ! 0 = CHR ''0'' \<and> lower (s ! 1) \<in> {CHR ''b'', CHR ''o'', CHR ''x''}
     then underscore_scan (lower (s ! 1) = CHR ''x'') (drop 2 s) (CHR ''0'')
     else underscore_scan False s (CHR ''^''))"

definition ParseUint32 :: "string \<Rightarrow> num_error + nat" where
  "ParseUint32 s = (if s = [] then Inl ErrSyntax
     else (case base_of s of (base, ds) \<Rightarrow>
       (case digits_loop base ds 0 False of Inl e \<Rightarrow> Inl e
        | Inr (n, us) \<Rightarrow> if us \<and> \<not> underscoreOK s then Inl ErrSyntax else Inr n)))"

lemma digits_loop_bound:
  "digits_loop base ds n us = Inr (m, us') \<Longrightarrow> n < 2 ^ 32 \<Longrightarrow> m < 2 ^ 32"
  by (induction base ds n us rule: digits_loop.induct)
     (auto split: if_splits option.splits)

lemma ParseUint32_bound:
  assumes "ParseUint32 s = Inr n"
  shows "n < 2 ^ 32"
proof -
  obtain base ds where b: "base_of s = (base, ds)" by (cases "base_of s")
  show ?thesis
  proof (cases "digits_loop base ds 0 False")
    case (Inr r)
    obtain m us where r: "r = (m, us)" by (cases r)
    with Inr have "m < 2 ^ 32" using digits_loop_bound [of base ds 0 False m us] by simp
    with assms b Inr r show ?thesis by (simp add: ParseUint32_def split: if_splits)
  qed (use assms b in \<open>simp add: ParseUint32_def split: if_splits\<close>)
qed

text \<open>The decimal digits of a number are read back as that number.\<close>

lemma digit_val_digit_char: "d < 10 \<Longrightarrow> digit_val (digit_char d) = Some d"
  by (simp add: digit_val_def digit_char_def Let_def)

lemma digits_loop_append:
  "digits_loop b (xs @ ys) n us = (case digits_loop b xs n us of Inl e \<Rightarrow> Inl e
     | Inr (m, us') \<Rightarrow> digits_loop b ys m us')"
  by (induction b xs n us rule: digits_loop.induct) (auto split: option.splits)

lemma digit_char_simps:
  "d < 10 \<Longrightarrow> digit_char d \<noteq> CHR ''_''" "d < 10 \<Longrightarrow> digit_char d = CHR ''0'' \<longleftrightarrow> d = 0"
proof -
  assume "d < 10"
  then have n: "of_char (digit_char d) = 48 + d" by (simp add: digit_char_def)
  moreover have "of_char (CHR ''_'') = (95 :: nat)" "of_char (CHR ''0'') = (48 :: nat)"
    by simp_all
  ultimately show "digit_char d \<noteq> CHR ''_''" "digit_char d = CHR ''0'' \<longleftrightarrow> d = 0"
    using \<open>d < 10\<close> by (auto simp flip: of_char_eq_iff [where ?'a = nat])
qed

lemma digits_loop_show_dec:
  "n < 2 ^ 32 \<Longrightarrow> digits_loop 10 (show_base 10 n) 0 us = Inr (n, us)"
proof (induction n rule: less_induct)
  case (less n)
  show ?case
  proof (cases "n < 10")
    case True
    then show ?thesis
      by (simp add: show_base.simps [of 10 n] digit_val_digit_char digit_char_simps)
  next
    case False
    then have "digits_loop 10 (show_base 10 (n div 10)) 0 us = Inr (n div 10, us)"
      using less by simp
    with False less.prems show ?thesis
      by (simp add: show_base.simps [of 10 n] digits_loop_append digit_val_digit_char digit_char_simps)
  qed
qed

lemma hd_show_dec: "0 < n \<Longrightarrow> hd (show_base 10 n) \<noteq> CHR ''0'' \<and> show_base 10 n \<noteq> []"
proof (induction n rule: less_induct)
  case (less n)
  then show ?case
    by (cases "n < 10") (auto simp: show_base.simps [of 10 n] digit_char_simps)
qed

lemma ParseUint32_show_dec: "n < 2 ^ 32 \<Longrightarrow> ParseUint32 (show_dec n) = Inr n"
proof (cases "n = 0")
  case True
  moreover have "digit_char 0 = CHR ''0''" by (simp add: digit_char_simps)
  ultimately show ?thesis
    by (simp add: ParseUint32_def show_dec_def show_base.simps base_of_def)
next
  case False
  assume "n < 2 ^ 32"
  with False hd_show_dec [of n] digits_loop_show_dec [of n False] show ?thesis
    by (simp add: ParseUint32_def show_dec_def base_of_def)
qed

end
