(* ===== verification/Tags.thy ===== *)
theory Tags
  imports Prelude
begin

text \<open>
  The byte-encoded tag lists of \<open>internal/tags/tags.go\<close>: every method of \<open>XDRTag\<close>, as
  written, on byte lists (\<open>None\<close> is the run-time panic of an index out of range or of an
  explicit \<open>panic\<close>), an abstract view of a tag as a list of entries, and the interface
  locale through which the codec builders use tags.
\<close>

section \<open>Tag kinds\<close>

text \<open>
  The constants follow Go's \<open>iota\<close>, which counts every constant of the block: \<open>Len\<close> is
  the seventh, so its value is \<open>0x80 | 6\<close>.
\<close>

definition Noop :: u8 where "Noop = 0x00"
definition Skip :: u8 where "Skip = 0x01"
definition Opt :: u8 where "Opt = 0x02"
definition Opaque :: u8 where "Opaque = 0x03"
definition UnionSwitch :: u8 where "UnionSwitch = 0x04"
definition UnionDefault :: u8 where "UnionDefault = 0x05"
definition Len :: u8 where "Len = 0x80 OR 6"
definition MaxLen :: u8 where "MaxLen = 0x80 OR 7"
definition UnionCases :: u8 where "UnionCases = 0xC0 OR 8"

lemmas kind_defs = Noop_def Skip_def Opt_def Opaque_def UnionSwitch_def UnionDefault_def
  Len_def MaxLen_def UnionCases_def

type_synonym xdrtag = "u8 list"

section \<open>Methods of XDRTag\<close>

definition tag_Empty :: "xdrtag \<Rightarrow> bool" where
  "tag_Empty t = (length t = 0)"

definition tag_Kind :: "xdrtag \<Rightarrow> u8" where
  "tag_Kind t = (if length t > 0 then t ! 0 else Noop)"

definition valAt :: "xdrtag \<Rightarrow> nat \<Rightarrow> u32 option" where
  "valAt t offs = (if offs + 3 < length t
     then Some ((push_bit 24 (ucast (t ! offs)) OR push_bit 16 (ucast (t ! (offs + 1)))
                 OR push_bit 8 (ucast (t ! (offs + 2)))) + ucast (t ! (offs + 3)))
     else None)"

definition thisLen :: "xdrtag \<Rightarrow> nat option" where
  "thisLen t = (if length t = 0 then Some 0
     else if t ! 0 < 0x80 then Some 1
     else if t ! 0 < 0xC0 then Some 5
     else map_option (\<lambda>n. 5 + unat n * 4) (valAt t 1))"

definition tag_Next :: "xdrtag \<Rightarrow> xdrtag option" where
  "tag_Next t = (case thisLen t of None \<Rightarrow> None
     | Some l \<Rightarrow> if length t = l then Some []
               else if l \<le> length t then Some (drop l t) else None)"

definition OnlyValue :: "xdrtag \<Rightarrow> u32 option" where
  "OnlyValue t = valAt t 1"

definition ValueRange :: "xdrtag \<Rightarrow> (nat \<times> nat) option" where
  "ValueRange t = (if length t = 0 then None
     else if t ! 0 < 0x80 then Some (0, 0)
     else if t ! 0 < 0xC0 then (if 4 < length t then Some (0, 1) else None)
     else (case valAt t 1 of None \<Rightarrow> None
       | Some n \<Rightarrow> let max = 1 + unat n in if 4 * max < length t then Some (1, max) else None))"

definition tag_Value :: "xdrtag \<Rightarrow> nat \<Rightarrow> u32 option" where
  "tag_Value t n = valAt t (1 + 4 * n)"

definition u32_bytes :: "u32 \<Rightarrow> u8 list" where
  "u32_bytes v = [ucast (drop_bit 24 v), ucast (drop_bit 16 v), ucast (drop_bit 8 v), ucast v]"

definition tag_Append :: "xdrtag \<Rightarrow> u8 \<Rightarrow> u32 list \<Rightarrow> xdrtag option" where
  "tag_Append t k values =
     (if k < 0x80 then (if length values \<noteq> 0 then None else Some (t @ [k]))
      else if k < 0xC0 then
        (if length values \<noteq> 1 then None else Some (t @ k # u32_bytes (values ! 0)))
      else (let nv = word_of_nat (length values) in
        Some (foldl (\<lambda>tb v. tb @ u32_bytes v) (t @ k # u32_bytes nv) values)))"

definition tag_Prepend :: "xdrtag \<Rightarrow> u8 \<Rightarrow> u32 list \<Rightarrow> xdrtag option" where
  "tag_Prepend t k values = map_option (\<lambda>nt. nt @ t) (tag_Append [] k values)"

lemma tag_Next_shorter: "tag_Next t = Some t' \<Longrightarrow> t \<noteq> [] \<Longrightarrow> length t' < length t"
  by (auto simp: tag_Next_def thisLen_def split: option.splits if_splits)

text \<open>The loop of \<open>Trimmed\<close>: \<open>e\<close> and \<open>mark\<close> are the local variables of that name.\<close>

function trim_loop :: "xdrtag \<Rightarrow> nat \<Rightarrow> nat \<Rightarrow> nat option" where
  "trim_loop ct e mark = (if tag_Empty ct then Some mark
     else (case thisLen ct of None \<Rightarrow> None
       | Some l \<Rightarrow> (case tag_Next ct of None \<Rightarrow> None
           | Some ct' \<Rightarrow> trim_loop ct' (e + l) (if tag_Kind ct \<noteq> Noop then e + l else mark))))"
  by pat_completeness auto
termination
  by (relation "measure (\<lambda>(ct, e, mark). length ct)")
     (auto simp: tag_Empty_def dest: tag_Next_shorter)

declare trim_loop.simps [simp del]

definition tag_Trimmed :: "xdrtag \<Rightarrow> xdrtag option" where
  "tag_Trimmed t = (case trim_loop t 0 0 of None \<Rightarrow> None
     | Some mark \<Rightarrow> if mark \<le> length t then Some (take mark t) else None)"

text \<open>
  \<open>Bytes\<close> and \<open>ByteString\<close> are conversions of the same bytes; the string serves as the
  map key of codec resolution.
\<close>

definition ByteString :: "xdrtag \<Rightarrow> u8 list" where
  "ByteString t = t"

section \<open>The abstract view: a list of entries\<close>

datatype tentry = Flag u8 | Single u8 u32 | Multi u8 "u32 list"

fun entry_kind :: "tentry \<Rightarrow> u8" where
  "entry_kind (Flag k) = k" | "entry_kind (Single k v) = k" | "entry_kind (Multi k vs) = k"

fun entry_vals :: "tentry \<Rightarrow> u32 list" where
  "entry_vals (Flag k) = []" | "entry_vals (Single k v) = [v]" | "entry_vals (Multi k vs) = vs"

fun wf_entry :: "tentry \<Rightarrow> bool" where
  "wf_entry (Flag k) = (k < 0x80)"
| "wf_entry (Single k v) = (0x80 \<le> k \<and> k < 0xC0)"
| "wf_entry (Multi k vs) = (0xC0 \<le> k \<and> length vs < 2 ^ 32)"

text \<open>The entry that \<open>Append k values\<close> adds, when it does not panic.\<close>

definition mk_entry :: "u8 \<Rightarrow> u32 list \<Rightarrow> tentry option" where
  "mk_entry k vs = (if k < 0x80 then (if vs = [] then Some (Flag k) else None)
     else if k < 0xC0 then (case vs of [v] \<Rightarrow> Some (Single k v) | _ \<Rightarrow> None)
     else Some (Multi k vs))"

fun entry_bytes :: "tentry \<Rightarrow> u8 list" where
  "entry_bytes (Flag k) = [k]"
| "entry_bytes (Single k v) = k # be32 v"
| "entry_bytes (Multi k vs) = k # be32 (word_of_nat (length vs)) @ concat (map be32 vs)"

definition tag_bytes :: "tentry list \<Rightarrow> xdrtag" where
  "tag_bytes es = concat (map entry_bytes es)"

definition tag_rep :: "xdrtag \<Rightarrow> tentry list \<Rightarrow> bool" where
  "tag_rep t es \<longleftrightarrow> t = tag_bytes es \<and> list_all wf_entry es"

text \<open>\<open>Trimmed\<close> as a function on entries: drop the trailing \<open>Noop\<close>s.\<close>

definition trim_entries :: "tentry list \<Rightarrow> tentry list" where
  "trim_entries es = rev (dropWhile (\<lambda>e. entry_kind e = Noop) (rev es))"

lemma tag_bytes_simps [simp]:
  "tag_bytes [] = []" "tag_bytes (e # es) = entry_bytes e @ tag_bytes es"
  "tag_bytes (es @ fs) = tag_bytes es @ tag_bytes fs"
  by (simp_all add: tag_bytes_def)

lemma tag_rep_simps [simp]:
  "tag_rep t [] \<longleftrightarrow> t = []"
  "tag_rep (tag_bytes es) es \<longleftrightarrow> list_all wf_entry es"
  by (simp_all add: tag_rep_def)

lemma entry_bytes_hd: "entry_bytes e = entry_kind e # tl (entry_bytes e)"
  by (cases e) auto

lemma entry_bytes_not_Nil [simp]: "entry_bytes e \<noteq> []"
  by (cases e) auto

lemma u32_bytes_be32 [simp]: "u32_bytes v = be32 v"
  by (simp add: u32_bytes_def be32_def)

section \<open>The byte-level methods on well-formed tags\<close>

lemma valAt_mid: "valAt (xs @ be32 v @ ys) (length xs) = Some v"
proof -
  have "(push_bit 24 (ucast a) OR push_bit 16 (ucast b) OR push_bit 8 (ucast c)) + ucast d
      = word32_of a b c d" for a b c d :: u8
    unfolding word32_of_def
    by (subst disjunctive_add) (auto simp: bit_simps or.assoc dest: bit_imp_le_length)
  then show ?thesis
    by (simp add: valAt_def nth_append be32_def word32_of_be32)
qed

lemma valAt_1 [simp]: "valAt (k # be32 v @ ys) (Suc 0) = Some v"
  using valAt_mid [of "[k]" v ys] by simp

lemma length_be32s [simp]: "length (concat (map be32 vs)) = 4 * length vs"
  by (rule length_concat_const) simp

lemma valAt_Multi:
  assumes "i < length vs"
  shows "valAt (k # be32 n @ concat (map be32 vs) @ ys) (5 + 4 * i) = Some (vs ! i)"
proof -
  let ?xs = "k # be32 n @ concat (map be32 (take i vs))"
  let ?ys = "concat (map be32 (drop (Suc i) vs)) @ ys"
  have "concat (map be32 vs) = concat (map be32 (take i vs @ vs ! i # drop (Suc i) vs))"
    using assms by (simp add: id_take_nth_drop [symmetric])
  moreover have "length ?xs = 5 + 4 * i" using assms by simp
  ultimately show ?thesis using valAt_mid [of ?xs "vs ! i" ?ys] by simp
qed

lemma multi_kind: "0xC0 \<le> (k :: u8) \<Longrightarrow> \<not> k < 0xC0" "0xC0 \<le> (k :: u8) \<Longrightarrow> \<not> k < 0x80"
  by (auto simp: word_le_nat_alt word_less_nat_alt)

lemma thisLen_rep [tag_simps]:
  "wf_entry e \<Longrightarrow> thisLen (entry_bytes e @ ys) = Some (length (entry_bytes e))"
proof (cases e)
  case (Multi k vs)
  assume "wf_entry e"
  with Multi have k: "0xC0 \<le> k" and "length vs < 2 ^ 32" by auto
  then have "unat (word_of_nat (length vs) :: u32) = length vs"
    by (simp add: unat_of_nat)
  moreover from k have "\<not> k < 0xC0" "\<not> k < 0x80" by (rule multi_kind)+
  ultimately show ?thesis
    using valAt_1 [of k "word_of_nat (length vs)" "concat (map be32 vs) @ ys"]
    by (simp add: Multi thisLen_def)
qed (auto simp: thisLen_def not_less)

lemma Kind_rep [tag_simps]: "tag_Kind (entry_bytes e @ ys) = entry_kind e"
  by (subst entry_bytes_hd) (simp add: tag_Kind_def)

lemma Empty_rep [tag_simps]: "tag_Empty (entry_bytes e @ ys) = False" "tag_Empty []"
  by (simp_all add: tag_Empty_def)

lemma Next_rep [tag_simps]: "wf_entry e \<Longrightarrow> tag_Next (entry_bytes e @ ys) = Some ys"
  by (simp add: tag_Next_def thisLen_rep)

lemma Next_Nil [tag_simps, simp]: "tag_Next [] = Some []"
  by (simp add: tag_Next_def thisLen_def)

lemma Kind_Nil [tag_simps, simp]: "tag_Kind [] = Noop"
  by (simp add: tag_Kind_def)

lemma OnlyValue_rep [tag_simps]: "OnlyValue (entry_bytes (Single k v) @ ys) = Some v"
  by (simp add: OnlyValue_def)

lemma ValueRange_Multi [tag_simps]:
  assumes "wf_entry (Multi k vs)"
  shows "ValueRange (entry_bytes (Multi k vs) @ ys) = Some (1, 1 + length vs)"
proof -
  from assms have "unat (word_of_nat (length vs) :: u32) = length vs"
    by (simp add: unat_of_nat)
  moreover from assms have "\<not> k < 0xC0" "\<not> k < 0x80" by (auto simp del: not_less dest: multi_kind)
  ultimately show ?thesis by (simp add: ValueRange_def Let_def)
qed

lemma ValueRange_Single [tag_simps]:
  "wf_entry (Single k v) \<Longrightarrow> ValueRange (entry_bytes (Single k v) @ ys) = Some (0, 1)"
  by (auto simp: ValueRange_def not_less)

lemma ValueRange_Flag [tag_simps]:
  "wf_entry (Flag k) \<Longrightarrow> ValueRange (entry_bytes (Flag k) @ ys) = Some (0, 0)"
  by (simp add: ValueRange_def)

lemma Value_Multi [tag_simps]:
  "i < length vs \<Longrightarrow> tag_Value (entry_bytes (Multi k vs) @ ys) (Suc i) = Some (vs ! i)"
  using valAt_Multi [of i vs k "word_of_nat (length vs)" ys]
  by (simp add: tag_Value_def algebra_simps)

lemma Value_Single [tag_simps]: "tag_Value (entry_bytes (Single k v) @ ys) 0 = Some v"
  by (simp add: tag_Value_def)

text \<open>The values that a loop over \<open>ValueRange\<close> visits.\<close>

definition range_values :: "xdrtag \<Rightarrow> u32 list option" where
  "range_values t = (case ValueRange t of None \<Rightarrow> None
     | Some (i, n) \<Rightarrow> those (map (tag_Value t) [i ..< n]))"

lemma those_Some_map: "those (map Some xs) = Some xs"
  by (induction xs) auto

lemma range_values_rep [tag_simps]:
  assumes "wf_entry e"
  shows "range_values (entry_bytes e @ ys) = Some (entry_vals e)"
proof (cases e)
  case (Multi k vs)
  have "map (tag_Value (entry_bytes e @ ys)) (map Suc [0 ..< length vs]) = map Some vs"
    by (rule nth_equalityI) (auto simp: Multi Value_Multi simp del: entry_bytes.simps map_Suc_upt)
  with assms Multi show ?thesis
    by (simp add: range_values_def ValueRange_Multi those_Some_map map_Suc_upt
        del: entry_bytes.simps upt_Suc)
qed (use assms in \<open>auto simp: range_values_def ValueRange_Single ValueRange_Flag Value_Single
       simp del: entry_bytes.simps\<close>)

lemma foldl_be32: "foldl (\<lambda>tb v. tb @ be32 v) acc vs = acc @ concat (map be32 vs)"
  by (induction vs arbitrary: acc) auto

lemma Append_mk_entry:
  "tag_Append t k vs = map_option (\<lambda>e. t @ entry_bytes e) (mk_entry k vs)"
  by (auto simp: tag_Append_def mk_entry_def foldl_be32 Let_def split: list.splits)

lemma mk_entry_wf: "mk_entry k vs = Some e \<Longrightarrow> length vs < 2 ^ 32 \<Longrightarrow> wf_entry e"
  by (auto simp: mk_entry_def not_less split: if_splits list.splits)

lemma mk_entry_kind: "mk_entry k vs = Some e \<Longrightarrow> entry_kind e = k \<and> entry_vals e = vs"
  by (auto simp: mk_entry_def split: if_splits list.splits)

section \<open>Trimming\<close>

lemma trim_entries_simps [simp]:
  "trim_entries [] = []"
  "trim_entries (es @ [e]) = (if entry_kind e = Noop then trim_entries es else es @ [e])"
  by (simp_all add: trim_entries_def)

lemma trim_entries_Cons:
  "trim_entries (e # es) = (if entry_kind e = Noop \<and> trim_entries es = [] then []
                           else e # trim_entries es)"
  by (auto simp: trim_entries_def dropWhile_append dropWhile_eq_Nil_conv)

lemma trim_loop_rep:
  assumes "list_all wf_entry es"
  shows "trim_loop (tag_bytes es) e mark = Some
     (if trim_entries es = [] then mark else e + length (tag_bytes (trim_entries es)))"
  using assms
proof (induction es arbitrary: e mark)
  case Nil
  then show ?case by (simp add: trim_loop.simps Empty_rep)
next
  case (Cons x es)
  then show ?case
    by (subst trim_loop.simps)
       (simp add: tag_simps trim_entries_Cons)
qed

lemma trim_entries_prefix: "\<exists>rest. es = trim_entries es @ rest"
  by (metis rev_append rev_rev_ident takeWhile_dropWhile_id trim_entries_def)

lemma list_all_trim: "list_all P es \<Longrightarrow> list_all P (trim_entries es)"
  using trim_entries_prefix [of es] by (metis list_all_append)

lemma Trimmed_rep [tag_simps]:
  assumes "list_all wf_entry es"
  shows "tag_Trimmed (tag_bytes es) = Some (tag_bytes (trim_entries es))"
proof -
  obtain rest where es: "es = trim_entries es @ rest" using trim_entries_prefix by blast
  then have b: "tag_bytes es = tag_bytes (trim_entries es) @ tag_bytes rest"
    by (metis tag_bytes_simps(3))
  let ?n = "length (tag_bytes (trim_entries es))"
  have "trim_loop (tag_bytes es) 0 0 = Some ?n"
    using trim_loop_rep [OF assms, of 0 0] by auto
  moreover have "?n \<le> length (tag_bytes es)" "take ?n (tag_bytes es) = tag_bytes (trim_entries es)"
    by (simp_all add: b)
  ultimately show ?thesis by (simp add: tag_Trimmed_def)
qed

lemma trim_entries_idem [simp]: "trim_entries (trim_entries es) = trim_entries es"
  by (induction es) (auto simp: trim_entries_Cons)

lemma trim_entries_last: "trim_entries es \<noteq> [] \<Longrightarrow> entry_kind (last (trim_entries es)) \<noteq> Noop"
  by (induction es) (auto simp: trim_entries_Cons split: if_splits)

section \<open>The interface the codec builders use\<close>

text \<open>
  A tag list as its clients see it: a sequence of entries that can be read from the front,
  extended at either end and trimmed, none of which panics. The builders of
  \<open>codec_ptr.go\<close>, \<open>codec_array.go\<close>, \<open>codec_struct.go\<close> and the parser rely on exactly
  these laws.
\<close>

locale tag_list =
  fixes rep :: "'t \<Rightarrow> tentry list \<Rightarrow> bool"
    and empty :: "'t \<Rightarrow> bool"
    and kindOf :: "'t \<Rightarrow> u8"
    and nextOf :: "'t \<Rightarrow> 't option"
    and valsOf :: "'t \<Rightarrow> u32 list option"
    and append :: "'t \<Rightarrow> u8 \<Rightarrow> u32 list \<Rightarrow> 't option"
    and prepend :: "'t \<Rightarrow> u8 \<Rightarrow> u32 list \<Rightarrow> 't option"
    and trimmed :: "'t \<Rightarrow> 't option"
  assumes empty_law: "rep t es \<Longrightarrow> empty t = (es = [])"
    and kind_law: "rep t es \<Longrightarrow> kindOf t = (case es of [] \<Rightarrow> Noop | e # _ \<Rightarrow> entry_kind e)"
    and next_law: "rep t es \<Longrightarrow> \<exists>t'. nextOf t = Some t' \<and> rep t' (tl es)"
    and vals_law: "rep t (e # es) \<Longrightarrow> valsOf t = Some (entry_vals e)"
    and append_law: "rep t es \<Longrightarrow> mk_entry k vs = Some e \<Longrightarrow> length vs < 2 ^ 32 \<Longrightarrow>
           \<exists>t'. append t k vs = Some t' \<and> rep t' (es @ [e])"
    and prepend_law: "rep t es \<Longrightarrow> mk_entry k vs = Some e \<Longrightarrow> length vs < 2 ^ 32 \<Longrightarrow>
           \<exists>t'. prepend t k vs = Some t' \<and> rep t' (e # es)"
    and trim_law: "rep t es \<Longrightarrow> \<exists>t'. trimmed t = Some t' \<and> rep t' (trim_entries es)"
begin

lemma mk_Noop: "mk_entry Noop [] = Some (Flag Noop)"
  by (simp add: mk_entry_def Noop_def)

text \<open>\<open>tag.Next().Prepend(Noop).Trimmed()\<close>: the rewriting step of \<open>makeOptCodec\<close>.\<close>

lemma replace_front_by_noop:
  assumes "rep t es"
  shows "\<exists>t1 t2 t3. nextOf t = Some t1 \<and> prepend t1 Noop [] = Some t2 \<and> trimmed t2 = Some t3
           \<and> rep t3 (trim_entries (Flag Noop # tl es))"
proof -
  obtain t1 where t1: "nextOf t = Some t1" "rep t1 (tl es)" using next_law assms by blast
  then obtain t2 where t2: "prepend t1 Noop [] = Some t2" "rep t2 (Flag Noop # tl es)"
    using prepend_law [OF t1(2) mk_Noop] by auto
  then show ?thesis using t1 trim_law by blast
qed

text \<open>An opt tag never resolves to an opt tag again.\<close>

lemma replace_front_not_opt:
  assumes "rep t3 (trim_entries (Flag Noop # es))"
  shows "kindOf t3 \<noteq> Opt"
  using kind_law [OF assms] by (auto simp: trim_entries_Cons kind_defs split: if_splits)

text \<open>The tag of the \<open>n\<close>-th level below is reached without a panic.\<close>

lemma next_iter:
  assumes "rep t es"
  shows "\<exists>t'. ((\<lambda>x. Option.bind x nextOf) ^^ n) (Some t) = Some t' \<and> rep t' (drop n es)"
proof (induction n)
  case (Suc n)
  then obtain t' where "((\<lambda>x. Option.bind x nextOf) ^^ n) (Some t) = Some t'" "rep t' (drop n es)"
    by blast
  then show ?case using next_law [of t' "drop n es"] by (auto simp: drop_Suc tl_drop)
qed (use assms in simp)

end

interpretation tagl: tag_list tag_rep tag_Empty tag_Kind tag_Next range_values
  tag_Append tag_Prepend tag_Trimmed
proof unfold_locales
  fix t :: xdrtag and es
  assume "tag_rep t es"
  then show "tag_Empty t = (es = [])"
    by (cases es) (auto simp: tag_rep_def tag_simps)
next
  fix t :: xdrtag and es
  assume "tag_rep t es"
  then show "tag_Kind t = (case es of [] \<Rightarrow> Noop | e # _ \<Rightarrow> entry_kind e)"
    by (cases es) (auto simp: tag_rep_def tag_simps)
next
  fix t :: xdrtag and es
  assume "tag_rep t es"
  then show "\<exists>t'. tag_Next t = Some t' \<and> tag_rep t' (tl es)"
    by (cases es) (auto simp: tag_rep_def tag_simps)
next
  fix t :: xdrtag and e es
  assume "tag_rep t (e # es)"
  then show "range_values t = Some (entry_vals e)"
    by (auto simp: tag_rep_def tag_simps)
next
  fix t :: xdrtag and es k and vs :: "u32 list" and e
  assume "tag_rep t es" "mk_entry k vs = Some e" "length vs < 2 ^ 32"
  then show "\<exists>t'. tag_Append t k vs = Some t' \<and> tag_rep t' (es @ [e])"
    by (auto simp: tag_rep_def Append_mk_entry dest: mk_entry_wf)
next
  fix t :: xdrtag and es k and vs :: "u32 list" and e
  assume "tag_rep t es" "mk_entry k vs = Some e" "length vs < 2 ^ 32"
  then show "\<exists>t'. tag_Prepend t k vs = Some t' \<and> tag_rep t' (e # es)"
    by (auto simp: tag_rep_def tag_Prepend_def Append_mk_entry dest: mk_entry_wf)
next
  fix t :: xdrtag and es
  assume "tag_rep t es"
  then show "\<exists>t'. tag_Trimmed t = Some t' \<and> tag_rep t' (trim_entries es)"
    by (auto simp: tag_rep_def Trimmed_rep list_all_trim)
qed

section \<open>The debugging printer\<close>

definition show_values :: "u32 list \<Rightarrow> string" where
  "show_values vs = (if vs = [] then [] else
     ''('' @ concat (map (\<lambda>v. show_hex8 (unat v)) [hd vs])
       @ concat (map (\<lambda>v. '', '' @ show_hex8 (unat v)) (tl vs)) @ '')'')"

function tag_String :: "xdrtag \<Rightarrow> string option" where
  "tag_String t = (if tag_Empty t then Some ''Noop<empty>''
     else (case range_values t of None \<Rightarrow> None
       | Some vs \<Rightarrow> (case tag_Next t of None \<Rightarrow> None
         | Some nt \<Rightarrow> let s = ''['' @ show_hex (unat (tag_Kind t)) @ '']'' @ show_values vs in
             if \<not> tag_Empty nt then map_option (\<lambda>r. s @ '';'' @ r) (tag_String nt) else Some s)))"
  by pat_completeness auto
termination
  by (relation "measure length") (auto simp: tag_Empty_def dest: tag_Next_shorter)

declare tag_String.simps [simp del]

lemma tag_String_total:
  "list_all wf_entry es \<Longrightarrow> \<exists>s. tag_String (tag_bytes es) = Some s"
proof (induction es)
  case Nil
  then show ?case by (simp add: tag_String.simps Empty_rep)
next
  case (Cons e es)
  then show ?case by (subst tag_String.simps) (auto simp: tag_simps Let_def)
qed

section \<open>Properties\<close>

text \<open>
  C1. On the bytes of any list of entries, the empty one included, the methods of \<open>XDRTag\<close>
  compute the corresponding list operations: \<open>Empty\<close> tells whether there are entries,
  \<open>Kind\<close> reads the kind of the first (\<open>Noop\<close> without one), \<open>Next\<close> drops it (and keeps the
  empty tag), the \<open>ValueRange\<close>/\<open>Value\<close> loop reads its values and \<open>OnlyValue\<close> a single one, which
  both panic on the empty tag; \<open>Append\<close> and \<open>Prepend\<close> add an entry at either end, or panic
  exactly where kind and number of values do not fit together; \<open>Trimmed\<close> drops the trailing
  no-ops.
\<close>

theorem tag_methods_refine_entry_lists:
  assumes "tag_rep t es"
  shows "tag_Empty t = (es = [])
    \<and> tag_Kind t = (case es of [] \<Rightarrow> Noop | e # _ \<Rightarrow> entry_kind e)
    \<and> tag_Next t = Some (tag_bytes (tl es))
    \<and> range_values t = (case es of [] \<Rightarrow> None | e # _ \<Rightarrow> Some (entry_vals e))
    \<and> (case es of [] \<Rightarrow> OnlyValue t = None | Single k v # _ \<Rightarrow> OnlyValue t = Some v | _ \<Rightarrow> True)
    \<and> tag_Append t k vs = map_option (\<lambda>x. tag_bytes (es @ [x])) (mk_entry k vs)
    \<and> tag_Prepend t k vs = map_option (\<lambda>x. tag_bytes (x # es)) (mk_entry k vs)
    \<and> tag_Trimmed t = Some (tag_bytes (trim_entries es))"
proof -
  have t: "t = tag_bytes es" "list_all wf_entry es" using assms by (simp_all add: tag_rep_def)
  have pre: "tag_Prepend t k vs = map_option (\<lambda>x. tag_bytes (x # es)) (mk_entry k vs)"
    by (simp add: tag_Prepend_def Append_mk_entry t(1) option.map_comp comp_def)
  have app: "tag_Append t k vs = map_option (\<lambda>x. tag_bytes (es @ [x])) (mk_entry k vs)"
    by (simp add: Append_mk_entry t(1))
  show ?thesis
  proof (cases es)
    case Nil
    then show ?thesis using t pre app Trimmed_rep [OF t(2)]
      by (simp add: tag_simps range_values_def ValueRange_def OnlyValue_def valAt_def)
  next
    case (Cons e es')
    then have e: "t = entry_bytes e @ tag_bytes es'" "wf_entry e" using t by simp_all
    have only: "case es of [] \<Rightarrow> OnlyValue t = None | Single k v # _ \<Rightarrow> OnlyValue t = Some v | _ \<Rightarrow> True"
      using Cons e(1) OnlyValue_rep by (cases e) auto
    have "\<not> tag_Empty t" "tag_Kind t = entry_kind e" "tag_Next t = Some (tag_bytes es')"
      "range_values t = Some (entry_vals e)" unfolding e(1) using e(2) by (simp_all add: tag_simps)
    then show ?thesis unfolding pre app using only Trimmed_rep [OF t(2)] t(1) Cons by simp
  qed
qed

theorem tag_methods_refine_entry_lists_witness:
  "tag_Kind (tag_bytes [Single MaxLen 7, Flag Opaque]) = MaxLen
   \<and> OnlyValue (tag_bytes [Single MaxLen 7, Flag Opaque]) = Some 7
   \<and> tag_Trimmed (tag_bytes [Single MaxLen 7, Flag Opaque, Flag Noop])
     = Some (tag_bytes [Single MaxLen 7, Flag Opaque])
   \<and> tag_Empty [] \<and> tag_Next [] = Some [] \<and> tag_Append [] Opt [] = Some [Opt]"
proof -
  have r: "tag_rep (tag_bytes [Single MaxLen 7, Flag Opaque]) [Single MaxLen 7, Flag Opaque]"
    "tag_rep (tag_bytes [Single MaxLen 7, Flag Opaque, Flag Noop]) [Single MaxLen 7, Flag Opaque, Flag Noop]"
    "tag_rep [] []"
    by (simp_all add: tag_rep_def kind_defs)
  have m: "mk_entry Opt [] = Some (Flag Opt)" by (simp add: mk_entry_def Opt_def)
  show ?thesis
    using tag_methods_refine_entry_lists [OF r(1)] tag_methods_refine_entry_lists [OF r(2)]
      tag_methods_refine_entry_lists [OF r(3), of Opt "[]"]
    by (simp add: trim_entries_Cons kind_defs m [unfolded kind_defs])
qed

end
