(* ===== verification/ParseTag.thy ===== *)
theory ParseTag
  imports GoTypes GoStrings Tags
begin

text \<open>
  The struct tag parser of \<open>internal/tags/tags.go\<close>: \<open>ParseTag\<close> and its helpers. A parse
  returns the encoded tag or an error value (\<open>fmt.Errorf\<close> texts become constructors that
  carry what the text mentions), and updates the flag that says whether the struct under
  construction is a union.
\<close>

datatype tag_error =
    SwitchNotLegal | SwitchTypeNotLegal gtype | NotInsideUnion string | BadUnionValues num_error
  | MissingUnionTag | CannotBeOpt gtype | OpaqueNotByte gtype | BadLen num_error | LenOnArray
  | LenNotApplicable gtype | BadMaxLen num_error | MaxLenNotApplicable gtype
  | UnknownTag string | TrailingTags "string list" gtype

datatype is_in_union = MaybeInUnion | NotInUnion | InUnion

section \<open>Helpers\<close>

definition skipTag :: xdrtag where "skipTag = [Skip]"

definition validForUnionSwitch :: "tenv \<Rightarrow> gtype \<Rightarrow> bool" where
  "validForUnionSwitch G t \<longleftrightarrow> kind G t \<in> {KBool, KInt, KInt8, KInt16, KInt32, KInt64,
     KUint, KUint8, KUint16, KUint32}"

definition canBeOpt :: "tenv \<Rightarrow> gtype \<Rightarrow> bool" where
  "canBeOpt G t \<longleftrightarrow> kind G t \<in> {KInterface, KPtr}"

definition parseU32 :: "string \<Rightarrow> num_error + u32" where
  "parseU32 s = (case ParseUint32 s of Inl e \<Rightarrow> Inl e | Inr n \<Rightarrow> Inr (word_of_nat n))"

fun parseU32_list :: "string list \<Rightarrow> num_error + u32 list" where
  "parseU32_list [] = Inr []"
| "parseU32_list (v # vs) = (case parseU32 v of Inl e \<Rightarrow> Inl e
     | Inr u \<Rightarrow> (case parseU32_list vs of Inl e \<Rightarrow> Inl e | Inr us \<Rightarrow> Inr (u # us)))"

definition parseU32s :: "string \<Rightarrow> num_error + u32 list" where
  "parseU32s s = parseU32_list (split_on (CHR '','') s)"

definition append_panic :: string where
  "append_panic = ''Attempt to append tag with wrong number of values''"

abbreviation app :: "xdrtag \<Rightarrow> u8 \<Rightarrow> u32 list \<Rightarrow> xdrtag outcome" where
  "app xt k vs \<equiv> of_option append_panic (tag_Append xt k vs)"

section \<open>The parser\<close>

text \<open>
  The part that concerns unions. The result is the tag so far and the remaining parts, or
  an error; the second component is the updated \<open>*isUnion\<close>.
\<close>

definition parse_union ::
  "tenv \<Rightarrow> gtype \<Rightarrow> string list \<Rightarrow> is_in_union
     \<Rightarrow> ((tag_error + xdrtag \<times> string list) \<times> is_in_union) outcome" where
  "parse_union G t parts isUnion =
     (if prefix ''union:'' (hd parts) then
        (let p = hd parts; parts' = tl parts in
         if p = ''union:switch'' then
           (if isUnion \<noteq> MaybeInUnion then Ret (Inl SwitchNotLegal, isUnion)
            else if \<not> validForUnionSwitch G t then Ret (Inl (SwitchTypeNotLegal t), isUnion)
            else obind (app [] UnionSwitch []) (\<lambda>xt. Ret (Inr (xt, parts'), InUnion)))
         else if isUnion \<noteq> InUnion then Ret (Inl (NotInsideUnion p), isUnion)
         else if p = ''union:false'' then
           obind (app [] UnionCases [0]) (\<lambda>xt. Ret (Inr (xt, parts'), isUnion))
         else if p = ''union:true'' then
           obind (app [] UnionCases [1]) (\<lambda>xt. Ret (Inr (xt, parts'), isUnion))
         else if p = ''union:default'' then
           obind (app [] UnionDefault []) (\<lambda>xt. Ret (Inr (xt, parts'), isUnion))
         else (case parseU32s (drop 6 p) of
             Inl e \<Rightarrow> Ret (Inl (BadUnionValues e), isUnion)
           | Inr vals \<Rightarrow> obind (app [] UnionCases vals) (\<lambda>xt. Ret (Inr (xt, parts'), isUnion))))
      else if isUnion = InUnion then Ret (Inl MissingUnionTag, isUnion)
      else Ret (Inr ([], parts), NotInUnion))"

text \<open>One iteration of the loop over the levels: the new tag, and the type it applied to.\<close>

definition parse_level ::
  "tenv \<Rightarrow> gtype \<Rightarrow> xdrtag \<Rightarrow> string \<Rightarrow> (tag_error + xdrtag \<times> gtype) outcome" where
  "parse_level G t xt p =
     (if p = '''' then obind (app xt Noop []) (\<lambda>xt'. Ret (Inr (xt', t)))
      else if p = ''opt'' then
        (if \<not> canBeOpt G t then Ret (Inl (CannotBeOpt t))
         else obind (app xt Opt []) (\<lambda>xt'. Ret (Inr (xt', t))))
      else if p = ''opaque'' then
        obind (if kind G t \<in> {KArray, KSlice}
               then obind (app xt Noop []) (\<lambda>xt'.
                      obind (of_option ''reflect: Elem of invalid type'' (elem_type G t))
                        (\<lambda>e. Ret (xt', e)))
               else Ret (xt, t))
          (\<lambda>(xt', t'). if kind G t' \<in> {KInt8, KUint8}
             then obind (app xt' Opaque []) (\<lambda>xt''. Ret (Inr (xt'', t')))
             else Ret (Inl (OpaqueNotByte t')))
      else if prefix ''len:'' p then
        (case parseU32 (drop 4 p) of Inl e \<Rightarrow> Ret (Inl (BadLen e))
         | Inr n \<Rightarrow> if kind G t = KArray then Ret (Inl LenOnArray)
             else if kind G t \<in> {KString, KSlice}
             then obind (app xt Len [n]) (\<lambda>xt'. Ret (Inr (xt', t)))
             else Ret (Inl (LenNotApplicable t)))
      else if prefix ''maxlen:'' p then
        (case parseU32 (drop 7 p) of Inl e \<Rightarrow> Ret (Inl (BadMaxLen e))
         | Inr n \<Rightarrow> if kind G t \<in> {KString, KSlice}
             then obind (app xt MaxLen [n]) (\<lambda>xt'. Ret (Inr (xt', t)))
             else Ret (Inl (MaxLenNotApplicable t)))
      else Ret (Inl (UnknownTag p)))"

fun parse_levels ::
  "tenv \<Rightarrow> gtype \<Rightarrow> xdrtag \<Rightarrow> string list \<Rightarrow> (tag_error + xdrtag) outcome" where
  "parse_levels G t xt [] = Ret (Inr xt)"
| "parse_levels G t xt (p # ps) = obind (parse_level G t xt (TrimSpace p)) (\<lambda>r. case r of
     Inl e \<Rightarrow> Ret (Inl e)
   | Inr (xt', t') \<Rightarrow> if ps \<noteq> [] then
         (if kind G t' \<in> {KArray, KMap, KPtr, KSlice}
          then obind (of_option ''reflect: Elem of invalid type'' (elem_type G t'))
                 (\<lambda>e. parse_levels G e xt' ps)
          else Ret (Inl (TrailingTags (p # ps) t')))
       else Ret (Inr xt'))"

definition ParseTag ::
  "tenv \<Rightarrow> gtype \<Rightarrow> string \<Rightarrow> is_in_union \<Rightarrow> ((tag_error + xdrtag) \<times> is_in_union) outcome" where
  "ParseTag G t stags isUnion = (let s = TrimSpace stags in
     if s = ''-'' then Ret (Inr skipTag, isUnion)
     else obind (parse_union G t (split_on (CHR ''/'') s) isUnion) (\<lambda>(r, u). case r of
         Inl e \<Rightarrow> Ret (Inl e, u)
       | Inr (xt, parts) \<Rightarrow> obind (parse_levels G t xt parts) (\<lambda>r'. case r' of
             Inl e \<Rightarrow> Ret (Inl e, u)
           | Inr xt' \<Rightarrow> obind (of_option ''slice bounds out of range'' (tag_Trimmed xt'))
               (\<lambda>xt''. Ret (Inr xt'', u)))))"

text \<open>\<open>ParseStructTag\<close> reads the \<open>xdr\<close> key of the field's struct tag.\<close>

definition ParseStructTag ::
  "tenv \<Rightarrow> gtype \<Rightarrow> string \<Rightarrow> is_in_union \<Rightarrow> ((tag_error + xdrtag) \<times> is_in_union) outcome" where
  "ParseStructTag G t rtag isUnion = ParseTag G t rtag isUnion"

section \<open>Every parse yields a well-formed, trimmed tag\<close>

lemma app_rep:
  assumes "tag_rep xt es" "mk_entry k vs = Some e" "length vs < 2 ^ 32"
  shows "\<exists>xt'. tag_Append xt k vs = Some xt' \<and> tag_rep xt' (es @ [e])"
  using assms by (rule tagl.append_law)

lemma mk_entry_kinds:
  "mk_entry Noop [] = Some (Flag Noop)" "mk_entry Opt [] = Some (Flag Opt)"
  "mk_entry Opaque [] = Some (Flag Opaque)" "mk_entry UnionSwitch [] = Some (Flag UnionSwitch)"
  "mk_entry UnionDefault [] = Some (Flag UnionDefault)" "mk_entry Len [n] = Some (Single Len n)"
  "mk_entry MaxLen [n] = Some (Single MaxLen n)" "mk_entry UnionCases vs = Some (Multi UnionCases vs)"
  by (simp_all add: mk_entry_def kind_defs)

lemma tag_rep_Nil: "tag_rep [] []"
  by simp

text \<open>\<open>gives P r\<close>: the call returns, and a successful result satisfies \<open>P\<close>.\<close>

definition gives :: "('b \<Rightarrow> bool) \<Rightarrow> (tag_error + 'b) outcome \<Rightarrow> bool" where
  "gives P m \<longleftrightarrow> (\<exists>r. m = Ret r \<and> (\<forall>x. r = Inr x \<longrightarrow> P x))"

lemma gives_app:
  assumes "tag_rep xt es" "mk_entry k vs = Some e" "length vs < 2 ^ 32"
    and "\<And>xt'. tag_rep xt' (es @ [e]) \<Longrightarrow> gives P (f xt')"
  shows "gives P (obind (app xt k vs) f)"
  using app_rep [OF assms(1-3)] assms(4) by auto

lemma gives_simps [simp]:
  "gives P (Ret (Inl e))" "gives P (Ret (Inr x)) = P x"
  by (auto simp: gives_def)

lemma level_app:
  assumes "tag_rep xt es" "mk_entry k vs = Some e" "length vs < 2 ^ 32"
  shows "gives (\<lambda>(xt', t'). \<exists>es'. tag_rep xt' es') (obind (app xt k vs) (\<lambda>xt'. Ret (Inr (xt', t))))"
  by (rule gives_app [OF assms]) auto

lemma parse_level_gives:
  assumes rep: "tag_rep xt es"
  shows "gives (\<lambda>(xt', t'). \<exists>es'. tag_rep xt' es') (parse_level G t xt p)"
proof -
  have one: "length [n :: u32] < 2 ^ 32" "length ([] :: u32 list) < 2 ^ 32" for n by simp_all
  note apps = level_app [OF rep mk_entry_kinds(1) one(2)] level_app [OF rep mk_entry_kinds(2) one(2)]
    level_app [OF _ mk_entry_kinds(3) one(2)] level_app [OF rep mk_entry_kinds(6) one(1)]
    level_app [OF rep mk_entry_kinds(7) one(1)]
  obtain yt where yt: "tag_Append xt Noop [] = Some yt" "tag_rep yt (es @ [Flag Noop])"
    using app_rep [OF rep mk_entry_kinds(1)] by auto
  show ?thesis
  proof (cases "p = ''opaque''")
    case True
    show ?thesis
    proof (cases "kind G t \<in> {KArray, KSlice}")
      case T: True
      then obtain e where "elem_type G t = Some e" using elem_type_exists [of G t] by auto
      with True T yt show ?thesis
        by (simp add: parse_level_def apps(3) [OF yt(2)])
    qed (use True in \<open>simp add: parse_level_def apps(3) [OF rep]\<close>)
  qed (auto simp: parse_level_def apps split: sum.split)
qed

lemma gives_obind:
  "gives P m \<Longrightarrow> (\<And>x. P x \<Longrightarrow> gives Q (f (Inr x))) \<Longrightarrow> (\<And>e. gives Q (f (Inl e)))
     \<Longrightarrow> gives Q (obind m f)"
  unfolding gives_def by (metis obind.simps(1) sumE)

lemma parse_levels_gives:
  "tag_rep xt es \<Longrightarrow> gives (\<lambda>xt'. \<exists>es'. tag_rep xt' es') (parse_levels G t xt ps)"
proof (induction ps arbitrary: t xt es)
  case Nil
  then show ?case by auto
next
  case (Cons p ps)
  show ?case
    unfolding parse_levels.simps
  proof (rule gives_obind [OF parse_level_gives [OF Cons.prems]], goal_cases)
    case (1 x)
    obtain xt' t' where x: "x = (xt', t')" by (cases x)
    with 1 obtain es' where es': "tag_rep xt' es'" by auto
    show ?case
    proof (cases "ps \<noteq> [] \<and> kind G t' \<in> {KArray, KMap, KPtr, KSlice}")
      case True
      then obtain e where "elem_type G t' = Some e" using elem_type_exists [of G t'] by auto
      with True Cons.IH [OF es'] show ?thesis by (simp add: x)
    qed (use es' in \<open>auto simp: x\<close>)
  qed simp
qed

lemma parseU32_list_length: "parseU32_list vs = Inr us \<Longrightarrow> length us = length vs"
  by (induction vs arbitrary: us) (auto split: sum.splits)

lemma app_Nil:
  assumes "mk_entry k vs = Some e" "length vs < 2 ^ 32"
  obtains xt where "tag_Append [] k vs = Some xt" "tag_rep xt [e]"
  using app_rep [OF tag_rep_Nil assms] by auto

lemma parse_union_rep:
  assumes "length (hd parts) < 2 ^ 32"
  shows "\<exists>r u'. parse_union G t parts u = Ret (r, u') \<and>
     (\<forall>xt ps. r = Inr (xt, ps) \<longrightarrow> (\<exists>es. tag_rep xt es))"
proof -
  have len: "length us < 2 ^ 32" if "parseU32s (drop 6 (hd parts)) = Inr us" for us
  proof -
    have "length us \<le> Suc (length (drop 6 (hd parts)))"
      using parseU32_list_length [OF that [unfolded parseU32s_def]]
        count_le_length [of "drop 6 (hd parts)" "CHR '',''"]
      by (simp add: length_split_on)
    with assms show ?thesis by simp
  qed
  have short: "length ([] :: u32 list) < 2 ^ 32" "length [x :: u32] < 2 ^ 32" for x
    by simp_all
  obtain sw where sw: "tag_Append [] UnionSwitch [] = Some sw" "tag_rep sw [Flag UnionSwitch]"
    by (rule app_Nil [OF mk_entry_kinds(4) short(1)])
  obtain d where d: "tag_Append [] UnionDefault [] = Some d" "tag_rep d [Flag UnionDefault]"
    by (rule app_Nil [OF mk_entry_kinds(5) short(1)])
  obtain f where f: "tag_Append [] UnionCases [0] = Some f" "tag_rep f [Multi UnionCases [0]]"
    by (rule app_Nil [OF mk_entry_kinds(8) short(2)])
  obtain tr where tr: "tag_Append [] UnionCases [1] = Some tr" "tag_rep tr [Multi UnionCases [1]]"
    by (rule app_Nil [OF mk_entry_kinds(8) short(2)])
  note app = sw d f tr
  show ?thesis
  proof (cases "parseU32s (drop 6 (hd parts))")
    case (Inl e)
    with app show ?thesis by (auto simp: parse_union_def Let_def intro: exI [of _ "[]"])
  next
    case (Inr us)
    obtain xt where "tag_Append [] UnionCases us = Some xt" "tag_rep xt [Multi UnionCases us]"
      by (rule app_Nil [OF mk_entry_kinds(8) len [OF Inr]])
    with app Inr show ?thesis by (auto simp: parse_union_def Let_def intro: exI [of _ "[]"])
  qed
qed

text \<open>A parse either fails with an error value or yields a well-formed tag with no trailing
  no-op; on tag strings shorter than \<open>2^32\<close> bytes it never panics.\<close>

lemma ParseTag_rep:
  assumes "length stags < 2 ^ 32"
  shows "\<exists>r u'. ParseTag G t stags u = Ret (r, u') \<and>
     (\<forall>xt. r = Inr xt \<longrightarrow> (\<exists>es. tag_rep xt es \<and> trim_entries es = es))"
proof (cases "TrimSpace stags = ''-''")
  case True
  have "tag_rep skipTag [Flag Skip]" "trim_entries [Flag Skip] = [Flag Skip]"
    by (simp_all add: tag_rep_def skipTag_def kind_defs trim_entries_Cons)
  with True show ?thesis by (auto simp: ParseTag_def)
next
  case False
  let ?ps = "split_on (CHR ''/'') (TrimSpace stags)"
  have "length (hd ?ps) < 2 ^ 32"
    using length_hd_split_on [of "CHR ''/''" "TrimSpace stags"] length_TrimSpace [of stags] assms
    by linarith
  then obtain r u' where u: "parse_union G t ?ps u = Ret (r, u')"
    and rep: "\<And>xt ps. r = Inr (xt, ps) \<Longrightarrow> \<exists>es. tag_rep xt es"
    using parse_union_rep [of ?ps G t u] by blast
  show ?thesis
  proof (cases r)
    case (Inr xp)
    obtain xt ps where xp: "xp = (xt, ps)" by (cases xp)
    then obtain es where "tag_rep xt es" using rep Inr by blast
    then obtain r' where r': "parse_levels G t xt ps = Ret r'"
      and rep': "\<And>x. r' = Inr x \<Longrightarrow> \<exists>es. tag_rep x es"
      using parse_levels_gives [of xt es G t ps] by (auto simp: gives_def)
    show ?thesis
    proof (cases r')
      case I: (Inr x)
      then obtain fs where "tag_rep x fs" using rep' by blast
      then obtain x' where "tag_Trimmed x = Some x'" "tag_rep x' (trim_entries fs)"
        using tagl.trim_law by blast
      with False u Inr xp r' I show ?thesis
        by (auto simp: ParseTag_def Let_def intro!: exI [of _ "trim_entries fs"])
    qed (use False u Inr xp r' in \<open>simp add: ParseTag_def Let_def\<close>)
  qed (use False u in \<open>simp add: ParseTag_def Let_def\<close>)
qed

text \<open>The flag is bound at most once, and a successful parse of an unskipped field binds it.\<close>

lemma parse_union_flag:
  "parse_union G t parts u = Ret (r, u') \<Longrightarrow> (u \<noteq> MaybeInUnion \<longrightarrow> u' = u)
     \<and> (\<forall>x. r = Inr x \<longrightarrow> u' \<noteq> MaybeInUnion)"
  by (auto simp: parse_union_def Let_def split: if_splits sum.splits) (cases u; simp)+

lemma ParseTag_flag:
  assumes "ParseTag G t stags u = Ret (r, u')"
  shows "(u \<noteq> MaybeInUnion \<longrightarrow> u' = u)
     \<and> (\<forall>xt. r = Inr xt \<and> TrimSpace stags \<noteq> ''-'' \<longrightarrow> u' \<noteq> MaybeInUnion)"
proof (cases "TrimSpace stags = ''-''")
  case False
  let ?ps = "split_on (CHR ''/'') (TrimSpace stags)"
  obtain r0 u0 where p: "parse_union G t ?ps u = Ret (r0, u0)"
    using assms False by (cases "parse_union G t ?ps u") (auto simp: ParseTag_def Let_def)
  have "u0 = u' \<and> (\<forall>xt. r = Inr xt \<longrightarrow> (\<exists>x. r0 = Inr x))"
  proof (cases r0)
    case (Inr xp)
    obtain xt ps where xp: "xp = (xt, ps)" by (cases xp)
    from assms False p Inr xp obtain r' where "parse_levels G t xt ps = Ret r'"
      by (auto simp: ParseTag_def Let_def)
    with assms False p Inr xp show ?thesis
      by (cases r') (auto simp: ParseTag_def Let_def)
  qed (use assms False p in \<open>auto simp: ParseTag_def Let_def\<close>)
  with parse_union_flag [OF p] show ?thesis by blast
qed (use assms in \<open>auto simp: ParseTag_def\<close>)

section \<open>What the documented tags parse to\<close>

lemma parse_level_empty: "parse_level G t xt '''' = Ret (Inr (xt @ [Noop], t))"
  by (simp add: parse_level_def tag_Append_def Noop_def)

lemma parse_level_opaque_byte:
  "kind G t \<in> {KInt8, KUint8} \<Longrightarrow> parse_level G t xt ''opaque'' = Ret (Inr (xt @ [Opaque], t))"
  by (auto simp: parse_level_def tag_Append_def kind_defs)

lemma parse_level_maxlen:
  assumes "kind G t \<in> {KString, KSlice}" "n < 2 ^ 32"
  shows "parse_level G t xt (''maxlen:'' @ show_dec n)
    = Ret (Inr (xt @ entry_bytes (Single MaxLen (word_of_nat n)), t))"
  using assms by (auto simp: parse_level_def parseU32_def ParseUint32_show_dec Append_mk_entry mk_entry_kinds)

lemma show_base_digits:
  "c \<in> set (show_base 10 n) \<Longrightarrow> 48 \<le> (of_char c :: nat) \<and> (of_char c :: nat) \<le> 57"
proof (induction n rule: less_induct)
  case (less n)
  have d: "of_char (digit_char d) = 48 + d" if "d < 10" for d
    using that by (simp add: digit_char_def)
  show ?case
  proof (cases "n < 10")
    case True
    with less.prems d [of n] show ?thesis by (simp add: show_base.simps [of 10 n])
  next
    case False
    with less.prems have "c \<in> set (show_base 10 (n div 10)) \<or> c = digit_char (n mod 10)"
      by (auto simp: show_base.simps [of 10 n])
    with less.IH [of "n div 10"] False d [of "n mod 10"] show ?thesis by auto
  qed
qed

lemma show_dec_not_Nil: "show_dec n \<noteq> []"
  by (simp add: show_dec_def show_base.simps [of 10 n])

lemma show_dec_chars:
  "CHR ''/'' \<notin> set (show_dec n)" "last (show_dec n) \<notin> space_bytes"
  "hd (show_dec n) \<noteq> CHR ''-''"
proof -
  have r: "48 \<le> (of_char c :: nat) \<and> (of_char c :: nat) \<le> 57" if "c \<in> set (show_dec n)" for c
    using that show_base_digits by (simp add: show_dec_def)
  show "CHR ''/'' \<notin> set (show_dec n)" using r [of "CHR ''/''"] by auto
  show "last (show_dec n) \<notin> space_bytes"
    using r [of "last (show_dec n)"] show_dec_not_Nil [of n] by (intro ascii_not_space) auto
  show "hd (show_dec n) \<noteq> CHR ''-''"
    using r [of "hd (show_dec n)"] show_dec_not_Nil [of n] by auto
qed

lemma trim_first_last:
  assumes "s \<noteq> []" "33 \<le> (of_char (hd s) :: nat)" "(of_char (hd s) :: nat) < 128" "last s \<notin> space_bytes"
  shows "TrimSpace s = s"
  using assms by (auto intro: TrimSpace_id [OF ascii_not_space])

lemma TrimSpace_maxlen: "TrimSpace (''maxlen:'' @ show_dec n) = ''maxlen:'' @ show_dec n"
  using show_dec_chars(2) [of n] show_dec_not_Nil [of n] by (intro trim_first_last) auto

lemma ascii_e_not_space: "CHR ''e'' \<notin> space_bytes"
  by (rule ascii_not_space) simp_all

lemma TrimSpace_opaque [simp]: "TrimSpace ''opaque'' = ''opaque''" "TrimSpace ''/opaque'' = ''/opaque''"
  by (auto intro!: trim_first_last simp: ascii_e_not_space)

lemma TrimSpace_Nil [simp]: "TrimSpace [] = []"
  using length_TrimSpace [of "[]"] by simp

lemma TrimSpace_maxlen_opaque:
  "TrimSpace (''maxlen:'' @ show_dec n @ ''/opaque'') = ''maxlen:'' @ show_dec n @ ''/opaque''"
  by (rule trim_first_last) (simp_all add: ascii_e_not_space)

section \<open>Properties\<close>

text \<open>
  C2. \<open>ParseTag\<close> never panics: it returns an error value, or a tag whose bytes are a
  well-formed sequence of entries without a trailing no-op, so that none of the methods
  the codec builders call on it can index out of range.
\<close>

theorem ParseTag_well_formed:
  assumes "length stags < 2 ^ 32"
  shows "\<exists>r u'. ParseTag G t stags u = Ret (r, u')
    \<and> (\<forall>xt. r = Inr xt \<longrightarrow> (\<exists>es. tag_rep xt es \<and> trim_entries es = es))"
  using assms by (rule ParseTag_rep)

theorem ParseTag_well_formed_witness:
  "\<exists>r u'. ParseTag [] (GSlice GUint8) ''maxlen:4/opaque'' MaybeInUnion = Ret (r, u')"
  using ParseTag_well_formed [of "''maxlen:4/opaque''" "[]" "GSlice GUint8" MaybeInUnion] by auto

text \<open>
  C3. The documented form \<open>maxlen:N/opaque\<close> on a byte slice parses, for every 32-bit \<open>N\<close>
  printed in decimal, to exactly the two entries \<open>MaxLen N\<close> and \<open>Opaque\<close>, and settles
  that the struct is not a union.
\<close>

theorem ParseTag_maxlen_opaque:
  assumes "kind G t = KSlice" and "elem_type G t = Some e" and "kind G e = KUint8" and "n < 2 ^ 32"
  shows "ParseTag G t (''maxlen:'' @ show_dec n @ ''/opaque'') MaybeInUnion
    = Ret (Inr (tag_bytes [Single MaxLen (word_of_nat n), Flag Opaque]), NotInUnion)"
proof -
  define m where "m = ''maxlen:'' @ show_dec n"
  let ?es = "[Single MaxLen (word_of_nat n), Flag Opaque]"
  have sp: "split_on (CHR ''/'') (m @ ''/opaque'') = [m, ''opaque'']"
    using split_on_append [of "CHR ''/''" m "''opaque''"] show_dec_chars(1) [of n]
    by (simp add: m_def)
  have ts: "TrimSpace m = m" "TrimSpace (m @ ''/opaque'') = m @ ''/opaque''"
    using TrimSpace_maxlen [of n] TrimSpace_maxlen_opaque [of n] by (simp_all add: m_def)
  have "parse_level G t [] m = Ret (Inr (entry_bytes (Single MaxLen (word_of_nat n)), t))"
    using assms parse_level_maxlen [of G t n "[]"] by (simp add: m_def)
  then have "parse_levels G t [] [m, ''opaque''] = Ret (Inr (tag_bytes ?es))"
    using assms by (simp add: ts parse_level_opaque_byte)
  moreover have "tag_Trimmed (tag_bytes ?es) = Some (tag_bytes ?es)"
    using Trimmed_rep [of ?es] by (simp add: kind_defs trim_entries_Cons)
  moreover have "parse_union G t [m, ''opaque''] MaybeInUnion = Ret (Inr ([], [m, ''opaque'']), NotInUnion)"
    by (simp add: parse_union_def m_def)
  moreover have "m @ ''/opaque'' \<noteq> ''-''" by (simp add: m_def)
  ultimately have "ParseTag G t (m @ ''/opaque'') MaybeInUnion = Ret (Inr (tag_bytes ?es), NotInUnion)"
    by (simp add: ParseTag_def Let_def sp ts del: parse_levels.simps entry_bytes.simps tag_bytes_simps)
  then show ?thesis by (simp add: m_def)
qed

theorem ParseTag_maxlen_opaque_witness:
  "ParseTag [] (GSlice GUint8) (''maxlen:'' @ show_dec 4 @ ''/opaque'') MaybeInUnion
    = Ret (Inr (tag_bytes [Single MaxLen 4, Flag Opaque]), NotInUnion)"
  using ParseTag_maxlen_opaque [of "[]" "GSlice GUint8" GUint8 4]
  by (simp add: kind_def under_def elem_type_def)

text \<open>
  C4. The documented abbreviation: on a byte slice or byte array the tags \<open>opaque\<close> and
  \<open>/opaque\<close> mean the same.
\<close>

theorem opaque_abbreviation:
  assumes "kind G t \<in> {KArray, KSlice}" and "elem_type G t = Some e" and "kind G e = KUint8"
  shows "ParseTag G t ''opaque'' u = ParseTag G t ''/opaque'' u"
proof -
  have l: "parse_level G t [] ''opaque'' = Ret (Inr ([Noop, Opaque], e))"
    using assms by (auto simp: parse_level_def tag_Append_def kind_defs)
  have "parse_levels G t [] [''opaque''] = parse_levels G t [] [[], ''opaque'']"
    using assms by (auto simp: l parse_level_empty parse_level_opaque_byte)
  then show ?thesis
    by (cases "u = InUnion")
      (simp_all add: ParseTag_def Let_def parse_union_def del: parse_levels.simps)
qed

theorem opaque_abbreviation_witness:
  "ParseTag [] (GArray 4 GUint8) ''opaque'' MaybeInUnion
   = ParseTag [] (GArray 4 GUint8) ''/opaque'' MaybeInUnion"
  using opaque_abbreviation [of "[]" "GArray 4 GUint8" GUint8]
  by (simp add: kind_def under_def elem_type_def)

end
