(* ===== verification/Errors.thy ===== *)
theory Errors
  imports ParseTag
begin

text \<open>
  The error values of \<open>internal/errors/errors.go\<close>, together with the errors of the
  standard library the package passes on, those built with \<open>fmt.Errorf\<close> while codecs are
  constructed (as constructors that carry what the text mentions), and errors of foreign
  code (streams, marshalers). \<open>errors_is\<close> is the standard library's \<open>errors.Is\<close>.
\<close>

datatype gerror =
    ErrLengthExceedsMax | ErrLengthExceedsPlatformLimit | ErrLengthIncorrect
  | ErrUnionSwitchArmUndefined | ErrNotPointer | ErrInvalidValue | ErrNilPointer
  | InvalidTypeError gtype | InvalidTagForTypeError gtype xdrtag
  | LengthError u64 u64 | FieldError gerror string
  | EOF | ErrUnexpectedEOF | ErrShortWrite | ForeignError string
  | FieldTagError string gtype tag_error | UnionValueDuplicated u32 gtype
  | DefaultCaseDuplicated gtype | StringTagError xdrtag

section \<open>Wrapping with the path of a field\<close>

definition combine_parts :: "string list \<Rightarrow> string" where
  "combine_parts parts =
     (let p0 = (if hd parts = '''' then ''<anonymous>'' else hd parts); ps = p0 # tl parts in
      if length ps = 1 then p0
      else if length ps = 3 then p0 @ ''.'' @ ps ! 1 @ ''('' @ ps ! 2 @ '')''
      else join_on (CHR ''.'') ps)"

definition WithFieldError :: "gerror option \<Rightarrow> string list \<Rightarrow> gerror option" where
  "WithFieldError err parts = (case err of None \<Rightarrow> None
     | Some (FieldError u path) \<Rightarrow> Some (FieldError u (combine_parts parts @ '' '' @ path))
     | Some e \<Rightarrow> Some (FieldError e (combine_parts parts)))"

fun Unwrap :: "gerror \<Rightarrow> gerror option" where
  "Unwrap (FieldError u p) = Some u" | "Unwrap _ = None"

section \<open>Is\<close>

text \<open>\<open>maxInt\<close> is a parameter: it is \<open>2^31 - 1\<close> or \<open>2^63 - 1\<close> depending on the platform.\<close>

definition LengthError_Is :: "nat \<Rightarrow> u64 \<Rightarrow> u64 \<Rightarrow> gerror \<Rightarrow> bool" where
  "LengthError_Is maxInt actual mx target =
     (if target = ErrLengthExceedsMax then actual > mx
      else if target = ErrLengthExceedsPlatformLimit then unat actual > maxInt
      else False)"

text \<open>
  \<open>errors.Is\<close>, for targets that are compared by value, as the constants of this package are.
  (Go never takes two errors of an uncomparable type for the same, such as
  \<open>InvalidTagForTypeError\<close>, which holds a slice, and compares those made by package \<open>fmt\<close> by
  identity; no statement here has such a target.)
\<close>

fun errors_is :: "nat \<Rightarrow> gerror \<Rightarrow> gerror \<Rightarrow> bool" where
  "errors_is M (LengthError a m) target = (LengthError a m = target \<or> LengthError_Is M a m target)"
| "errors_is M (FieldError u p) target = (FieldError u p = target \<or> errors_is M u target)"
| "errors_is M e target = (e = target)"

section \<open>Error texts\<close>

text \<open>
  \<open>tystr\<close> is \<open>reflect.Type.String\<close>, \<open>other\<close> the text of errors from outside the package;
  \<open>fmt\<close> turns a panicking \<open>String\<close> method into a marker.
\<close>

definition strip_xdr :: "string \<Rightarrow> string" where
  "strip_xdr s = (if prefix ''xdr: '' s then drop 5 s else s)"

definition too_long_text :: string where
  "too_long_text = ''xdr: Variable length object too long''"

definition platform_text :: string where
  "platform_text = ''xdr: Variable length object too long for platform''"

fun error_text :: "(gtype \<Rightarrow> string) \<Rightarrow> (gerror \<Rightarrow> string) \<Rightarrow> nat \<Rightarrow> gerror \<Rightarrow> string" where
  "error_text ty other M ErrLengthExceedsMax = too_long_text"
| "error_text ty other M ErrLengthExceedsPlatformLimit = platform_text"
| "error_text ty other M ErrLengthIncorrect = ''xdr: Length incorrect''"
| "error_text ty other M ErrUnionSwitchArmUndefined = ''xdr: Union switch arm undefined''"
| "error_text ty other M ErrNotPointer = ''xdr: Expected pointer parameter''"
| "error_text ty other M ErrInvalidValue = ''xdr: Invalid value for type''"
| "error_text ty other M ErrNilPointer = ''xdr: Unexpected nil pointer''"
| "error_text ty other M (InvalidTypeError t) = ''xdr: Type '' @ [CHR 0x27] @ ty t @ [CHR 0x27] @ '' unsupported''"
| "error_text ty other M (InvalidTagForTypeError t tag) =
     ''xdr: Tag '' @ [CHR 0x27] @ (case tag_String tag of Some s \<Rightarrow> s | None \<Rightarrow> ''%!s(PANIC)'')
       @ [CHR 0x27] @ '' unsupported for type '' @ [CHR 0x27] @ ty t @ [CHR 0x27]"
| "error_text ty other M (LengthError a m) =
     (if a > m then too_long_text @ '' ('' @ show_dec (unat a) @ '' > ''
        @ show_dec (unat m) @ '')''
      else platform_text @ '' ('' @ show_dec (unat a) @ '' > ''
        @ show_dec M @ '')'')"
| "error_text ty other M (FieldError u p) =
     ''xdr: '' @ strip_xdr (error_text ty other M u) @ '' (at '' @ p @ '')''"
| "error_text ty other M e = other e"

section \<open>Lemmas\<close>

lemma WithFieldError_simps [simp]:
  "WithFieldError None parts = None"
  "WithFieldError e parts = None \<longleftrightarrow> e = None"
  by (auto simp: WithFieldError_def split: option.split gerror.split)

text \<open>Sentinels are the errors a caller can test for; none of them is a wrapper.\<close>

definition sentinel :: "gerror \<Rightarrow> bool" where
  "sentinel e \<longleftrightarrow> (\<forall>u p. e \<noteq> FieldError u p)"

lemma errors_is_WithFieldError:
  "sentinel target \<Longrightarrow> WithFieldError (Some e) parts = Some e' \<Longrightarrow>
     errors_is M e' target = errors_is M e target"
  by (cases e) (auto simp: WithFieldError_def sentinel_def)

text \<open>The error that struct and union codecs on the way up have wrapped around \<open>e\<close>.\<close>

fun wrap_path :: "gerror \<Rightarrow> string list list \<Rightarrow> gerror option" where
  "wrap_path e [] = Some e"
| "wrap_path e (ps # pss) = WithFieldError (wrap_path e pss) ps"

section \<open>Properties\<close>

text \<open>
  C5. However many struct levels an error passes on its way up, the result still tests
  as the same sentinel under \<open>errors.Is\<close>, and what is returned is one \<open>FieldError\<close> around
  the original error: wrapping never nests and never loses the cause.
\<close>

theorem wrapping_keeps_the_cause:
  assumes "sentinel e" and "sentinel target"
  shows "\<exists>e'. wrap_path e pss = Some e' \<and> errors_is M e' target = errors_is M e target
     \<and> (pss \<noteq> [] \<longrightarrow> Unwrap e' = Some e)"
proof (induction pss)
  case (Cons ps pss)
  then obtain e' where e': "wrap_path e pss = Some e'" "errors_is M e' target = errors_is M e target"
    "pss \<noteq> [] \<longrightarrow> Unwrap e' = Some e" by blast
  then obtain e'' where w: "WithFieldError (Some e') ps = Some e''"
    by (cases "WithFieldError (Some e') ps") auto
  then have "errors_is M e'' target = errors_is M e target"
    using errors_is_WithFieldError assms(2) e'(2) by simp
  moreover have "Unwrap e'' = Some e"
  proof (cases pss)
    case Nil
    with e'(1) w assms(1) show ?thesis
      by (auto simp: WithFieldError_def sentinel_def split: gerror.splits)
  next
    case (Cons p pss')
    with e'(3) w show ?thesis by (cases e') (auto simp: WithFieldError_def)
  qed
  ultimately show ?case using w e'(1) by simp
qed simp

theorem wrapping_keeps_the_cause_witness:
  "\<exists>e'. wrap_path ErrNilPointer [[''outer'', ''x''], [''inner'', ''y'']] = Some e'
     \<and> errors_is 100 e' ErrNilPointer \<and> Unwrap e' = Some ErrNilPointer"
  using wrapping_keeps_the_cause [of ErrNilPointer ErrNilPointer "[[''outer'', ''x''], [''inner'', ''y'']]" 100]
  by (auto simp: sentinel_def)

end
