(* ===== verification/GoIO.thy ===== *)
theory GoIO
  imports Errors
begin

text \<open>
  The streams of Go's \<open>io\<close> package as the coder uses them. Readers and writers are
  interfaces: a model function takes the \<open>Read\<close> or \<open>Write\<close> method of the stream as an
  argument, and the locales \<open>reader\<close> and \<open>writer\<close> state the documented contract of those
  methods, under which \<open>io.ReadFull\<close>, \<open>io.Copy\<close> to \<open>ioutil.Discard\<close> and
  \<open>io.LimitedReader\<close> are proved once. Interpretations: \<open>bytes.Reader\<close>, a reader that
  delivers its data in arbitrary pieces, \<open>bytes.Buffer\<close>, and a writer that fails once it
  is full.
\<close>

section \<open>Readers\<close>

text \<open>\<open>Read\<close> with a buffer of \<open>n\<close> bytes: the bytes read, the error, the new state.\<close>

type_synonym 'r read_fn = "'r \<Rightarrow> nat \<Rightarrow> u8 list \<times> gerror option \<times> 'r"

text \<open>
  \<open>io.ReadAtLeast\<close> with a buffer of exactly \<open>need\<close> bytes; \<open>None\<close> if the reader never
  delivers anything and never fails.
\<close>

definition read_verdict :: "nat \<Rightarrow> u8 list \<Rightarrow> gerror option \<Rightarrow> gerror option" where
  "read_verdict need buf err = (if length buf \<ge> need then None
     else if length buf > 0 \<and> err = Some EOF then Some ErrUnexpectedEOF else err)"

partial_function (option) read_at_least ::
  "'r read_fn \<Rightarrow> nat \<Rightarrow> u8 list \<Rightarrow> 'r \<Rightarrow> (u8 list \<times> gerror option \<times> 'r) option" where
  "read_at_least rd need buf s =
     (if length buf < need then
        (case rd s (need - length buf) of (bs, err, s') \<Rightarrow>
           (case err of None \<Rightarrow> read_at_least rd need (buf @ bs) s'
            | Some e \<Rightarrow> Some (buf @ bs, read_verdict need (buf @ bs) err, s')))
      else Some (buf, None, s))"

definition ReadFull :: "'r read_fn \<Rightarrow> nat \<Rightarrow> 'r \<Rightarrow> (u8 list \<times> gerror option \<times> 'r) outcome" where
  "ReadFull rd n s = (case read_at_least rd n [] s of None \<Rightarrow> Blocked | Some r \<Rightarrow> Ret r)"

text \<open>\<open>io.Copy(ioutil.Discard, r)\<close>: reads pieces of 8192 bytes until an error.\<close>

partial_function (option) discard_loop ::
  "'r read_fn \<Rightarrow> nat \<Rightarrow> 'r \<Rightarrow> (nat \<times> gerror option \<times> 'r) option" where
  "discard_loop rd got s = (case rd s 8192 of (bs, err, s') \<Rightarrow>
     (case err of None \<Rightarrow> discard_loop rd (got + length bs) s'
      | Some e \<Rightarrow> Some (got + length bs, if e = EOF then None else Some e, s')))"

definition copy_discard :: "'r read_fn \<Rightarrow> 'r \<Rightarrow> (nat \<times> gerror option \<times> 'r) outcome" where
  "copy_discard rd s = (case discard_loop rd 0 s of None \<Rightarrow> Blocked | Some r \<Rightarrow> Ret r)"

text \<open>\<open>io.LimitedReader\<close>: the underlying reader and the bytes left.\<close>

fun lim_read :: "'r read_fn \<Rightarrow> ('r \<times> nat) read_fn" where
  "lim_read rd (r, N) n = (if N = 0 then ([], Some EOF, (r, N))
     else (case rd r (min n N) of (bs, err, r') \<Rightarrow> (bs, err, (r', N - length bs))))"

text \<open>
  The contract of \<open>io.Reader\<close>: \<open>pending\<close> is the data still to come, \<open>finals\<close> the errors it
  may end with; a \<open>Read\<close> delivers at most \<open>n\<close> bytes, in order, reports an error only when
  nothing is left, and a \<open>Read\<close> into a non-empty buffer that reports no error makes
  progress (\<open>wt\<close> bounds how often it may return nothing).
\<close>

locale reader =
  fixes rd :: "'r read_fn"
    and pending :: "'r \<Rightarrow> u8 list"
    and finals :: "'r \<Rightarrow> gerror set"
    and wt :: "'r \<Rightarrow> nat"
  assumes rd_data: "rd s n = (bs, err, s') \<Longrightarrow> pending s = bs @ pending s' \<and> length bs \<le> n"
    and rd_finals: "rd s n = (bs, err, s') \<Longrightarrow> finals s' \<subseteq> finals s"
    and rd_error: "rd s n = (bs, Some e, s') \<Longrightarrow> pending s' = [] \<and> e \<in> finals s"
    and rd_progress: "rd s n = (bs, None, s') \<Longrightarrow> 0 < n \<Longrightarrow> wt s' < wt s"
begin

lemma read_at_least_ok:
  assumes "length buf \<le> n"
  shows "\<exists>s' err. read_at_least rd n buf s = Some (take n (buf @ pending s), err, s')
     \<and> pending s' = drop (n - length buf) (pending s) \<and> finals s' \<subseteq> finals s
     \<and> (n \<le> length buf + length (pending s) \<longrightarrow> err = None)
     \<and> (length buf + length (pending s) < n \<longrightarrow>
          (\<exists>e\<in>finals s. err = Some (if buf @ pending s \<noteq> [] \<and> e = EOF then ErrUnexpectedEOF else e)))"
  using assms
proof (induction "wt s" arbitrary: s buf rule: less_induct)
  case less
  show ?case
  proof (cases "length buf < n")
    case True
    obtain bs err s1 where r: "rd s (n - length buf) = (bs, err, s1)" by (cases "rd s (n - length buf)")
    note d = rd_data [OF r]
    show ?thesis
    proof (cases err)
      case None
      with r True have "wt s1 < wt s" using rd_progress by simp
      moreover have "length (buf @ bs) \<le> n" using d True by auto
      ultimately obtain s' err' where IH:
        "read_at_least rd n (buf @ bs) s1 = Some (take n ((buf @ bs) @ pending s1), err', s')"
        "pending s' = drop (n - length (buf @ bs)) (pending s1)" "finals s' \<subseteq> finals s1"
        "n \<le> length (buf @ bs) + length (pending s1) \<longrightarrow> err' = None"
        "length (buf @ bs) + length (pending s1) < n \<longrightarrow>
          (\<exists>e\<in>finals s1. err' = Some (if (buf @ bs) @ pending s1 \<noteq> [] \<and> e = EOF then ErrUnexpectedEOF else e))"
        using less.hyps [of s1 "buf @ bs"] by blast
      have "read_at_least rd n buf s = read_at_least rd n (buf @ bs) s1"
        using True r None by (simp add: read_at_least.simps [of rd n buf s])
      moreover have "drop (n - length buf) (pending s) = drop (n - length (buf @ bs)) (pending s1)"
        using d by (simp add: diff_diff_left)
      ultimately show ?thesis
        using IH d rd_finals [OF r] by (auto simp del: take_append)
    next
      case (Some e)
      with r have e: "pending s1 = []" "e \<in> finals s" using rd_error by auto
      then have "read_at_least rd n buf s = Some (buf @ bs, read_verdict n (buf @ bs) err, s1)"
        using True r Some by (simp add: read_at_least.simps [of rd n buf s])
      moreover have "pending s = bs" "take n (buf @ bs) = buf @ bs" using d e True by auto
      ultimately show ?thesis
        using d e True rd_finals [OF r] Some by (auto simp: read_verdict_def)
    qed
  next
    case False
    with less.prems show ?thesis
      by (auto simp: read_at_least.simps [of rd n buf s])
  qed
qed

lemma ReadFull_enough:
  assumes "n \<le> length (pending s)"
  shows "\<exists>s'. ReadFull rd n s = Ret (take n (pending s), None, s')
     \<and> pending s' = drop n (pending s) \<and> finals s' \<subseteq> finals s"
  using read_at_least_ok [of "[]" n s] assms by (auto simp: ReadFull_def)

lemma ReadFull_short:
  assumes "length (pending s) < n"
  shows "\<exists>s' e. ReadFull rd n s = Ret (pending s, Some e, s') \<and> pending s' = []
     \<and> finals s' \<subseteq> finals s \<and> (e \<in> finals s \<or> e = ErrUnexpectedEOF)"
  using read_at_least_ok [of "[]" n s] assms by (auto simp: ReadFull_def)

lemma ReadFull_returns:
  "\<exists>bs err s'. ReadFull rd n s = Ret (bs, err, s') \<and> pending s = bs @ pending s'
     \<and> length bs \<le> n \<and> (err = None \<longleftrightarrow> length bs = n)"
proof (cases "n \<le> length (pending s)")
  case True
  then show ?thesis using ReadFull_enough [OF True] by auto
next
  case False
  then show ?thesis using ReadFull_short [of s n] by auto
qed

lemma discard_loop_drains:
  "\<exists>s' err. discard_loop rd k s = Some (k + length (pending s), err, s') \<and> pending s' = []
     \<and> (\<exists>e\<in>finals s. err = (if e = EOF then None else Some e))"
proof (induction "wt s" arbitrary: s k rule: less_induct)
  case less
  obtain bs err s1 where r: "rd s 8192 = (bs, err, s1)" by (cases "rd s 8192")
  note d = rd_data [OF r]
  show ?case
  proof (cases err)
    case None
    with r have "wt s1 < wt s" using rd_progress [of s 8192 bs s1] by simp
    then obtain s' err' where "discard_loop rd (k + length bs) s1
        = Some (k + length bs + length (pending s1), err', s')" "pending s' = []"
      "\<exists>e\<in>finals s1. err' = (if e = EOF then None else Some e)"
      using less.hyps by blast
    moreover have "discard_loop rd k s = discard_loop rd (k + length bs) s1"
      using r None by (simp add: discard_loop.simps [of rd k s])
    ultimately show ?thesis using d rd_finals [OF r] by (auto split: if_splits)
  next
    case (Some e)
    with r have "pending s1 = []" "e \<in> finals s" using rd_error by auto
    with r d Some show ?thesis by (auto simp: discard_loop.simps [of rd k s])
  qed
qed

lemma copy_discard_drains:
  "\<exists>s' err. copy_discard rd s = Ret (length (pending s), err, s') \<and> pending s' = []
     \<and> (\<exists>e\<in>finals s. err = (if e = EOF then None else Some e))"
  using discard_loop_drains [of 0 s] by (auto simp: copy_discard_def)

text \<open>A limited reader over a lawful reader is again a lawful reader.\<close>

lemma limited:
  "reader (lim_read rd) (\<lambda>(r, N). take N (pending r)) (\<lambda>(r, N). insert EOF (finals r))
     (\<lambda>(r, N). wt r)"
proof (unfold_locales, goal_cases)
  case (1 s n bs err s')
  obtain r N where s: "s = (r, N)" by (cases s)
  show ?case
  proof (cases "N = 0")
    case False
    obtain bs' err' r' where r: "rd r (min n N) = (bs', err', r')" by (cases "rd r (min n N)")
    with 1 s False rd_data [OF r] show ?thesis by auto
  qed (use 1 s in auto)
next
  case (2 s n bs err s')
  then show ?case by (cases s) (auto split: if_splits prod.splits dest: rd_finals)
next
  case (3 s n bs e s')
  obtain r N where s: "s = (r, N)" by (cases s)
  show ?case
  proof (cases "N = 0")
    case False
    obtain bs' err' r' where r: "rd r (min n N) = (bs', err', r')" by (cases "rd r (min n N)")
    with 3 s False have "err' = Some e" "s' = (r', N - length bs')" by auto
    with r rd_error [of r "min n N" bs' e r'] s show ?thesis by auto
  qed (use 3 s in auto)
next
  case (4 s n bs s')
  then show ?case by (cases s) (auto split: if_splits prod.splits dest: rd_progress)
qed

end

text \<open>\<open>bytes.Reader\<close>: the unread bytes.\<close>

definition bytes_read :: "u8 list read_fn" where
  "bytes_read s n = (if s = [] then ([], Some EOF, []) else (take n s, None, drop n s))"

interpretation bytes_reader: reader bytes_read "\<lambda>s. s" "\<lambda>s. {EOF}" length
  by unfold_locales (auto simp: bytes_read_def split: if_splits)

text \<open>
  A reader that delivers its data in pieces: \<open>chunks\<close> bounds the successive \<open>Read\<close>s (a
  bound of 0 is a \<open>Read\<close> that returns nothing and no error), \<open>failure\<close> is the error at the
  end, reported together with the last bytes if \<open>eager\<close>. The single-byte reader of the
  tests is the case where every bound is 1.
\<close>

record piecewise =
  src_data :: "u8 list"
  src_chunks :: "nat list"
  src_failure :: gerror
  src_eager :: bool

definition piece_read :: "piecewise read_fn" where
  "piece_read s n = (if src_data s = [] then ([], Some (src_failure s), s)
     else (let k = (case src_chunks s of [] \<Rightarrow> n | c # _ \<Rightarrow> min n c);
               s' = s\<lparr>src_data := drop k (src_data s), src_chunks := tl (src_chunks s)\<rparr> in
           (take k (src_data s),
            if src_eager s \<and> src_data s' = [] then Some (src_failure s) else None, s')))"

interpretation piece_reader: reader piece_read src_data "\<lambda>s. {src_failure s}"
  "\<lambda>s. length (src_data s) + length (src_chunks s)"
proof (unfold_locales, goal_cases)
  case (4 s n bs s')
  then show ?case
    by (cases "src_data s"; cases "src_chunks s"; cases n)
       (auto simp: piece_read_def Let_def split: if_splits)
qed (auto simp: piece_read_def Let_def split: if_splits list.splits)

section \<open>Writers\<close>

text \<open>
  \<open>Write\<close> and, if the stream is also an \<open>io.StringWriter\<close>, \<open>WriteString\<close>: how many bytes
  were taken, the error, the new state.
\<close>

type_synonym 'w write_fn = "'w \<Rightarrow> u8 list \<Rightarrow> nat \<times> gerror option \<times> 'w"

record 'w writer_ops =
  op_Write :: "'w write_fn"
  op_WriteString :: "'w write_fn option"

definition lawful_write :: "('w \<Rightarrow> u8 list) \<Rightarrow> 'w write_fn \<Rightarrow> bool" where
  "lawful_write written f \<longleftrightarrow> (\<forall>s p n e s'. f s p = (n, e, s') \<longrightarrow>
     written s' = written s @ take n p \<and> n \<le> length p \<and> (e = None \<longrightarrow> n = length p))"

definition total_write :: "'w write_fn \<Rightarrow> bool" where
  "total_write f \<longleftrightarrow> (\<forall>s p. fst (snd (f s p)) = None)"

text \<open>
  The contract of \<open>io.Writer\<close>: \<open>written\<close> is the output so far; a \<open>Write\<close> appends a prefix
  of its argument, all of it unless it reports an error. \<open>total_writer\<close> never fails.
\<close>

locale writer =
  fixes W :: "'w writer_ops" and written :: "'w \<Rightarrow> u8 list"
  assumes write_law: "lawful_write written (op_Write W)"
    and string_law: "op_WriteString W = Some f \<Longrightarrow> lawful_write written f"
begin

lemma write_prefix:
  "op_Write W s p = (n, e, s') \<Longrightarrow> prefix (take n p) p \<and> written s' = written s @ take n p
     \<and> (e = None \<longrightarrow> take n p = p)"
  using write_law by (auto simp: lawful_write_def take_is_prefix)

lemma string_prefix:
  "op_WriteString W = Some f \<Longrightarrow> f s p = (n, e, s') \<Longrightarrow>
     prefix (take n p) p \<and> written s' = written s @ take n p \<and> (e = None \<longrightarrow> take n p = p)"
  using string_law by (auto simp: lawful_write_def take_is_prefix)

end

locale total_writer = writer +
  assumes write_total: "total_write (op_Write W)"
    and string_total: "op_WriteString W = Some f \<Longrightarrow> total_write f"
begin

lemma write_all:
  obtains s' where "op_Write W s p = (length p, None, s')" "written s' = written s @ p"
proof -
  obtain n e s' where r: "op_Write W s p = (n, e, s')" by (cases "op_Write W s p")
  have "fst (snd (op_Write W s p)) = None" using write_total by (simp add: total_write_def)
  with r have "e = None" by simp
  with r write_law have "n = length p" "written s' = written s @ p" by (auto simp: lawful_write_def)
  with r \<open>e = None\<close> show thesis using that by simp
qed

lemma string_all:
  assumes "op_WriteString W = Some f"
  obtains s' where "f s p = (length p, None, s')" "written s' = written s @ p"
proof -
  obtain n e s' where r: "f s p = (n, e, s')" by (cases "f s p")
  have "fst (snd (f s p)) = None" using string_total [OF assms] by (simp add: total_write_def)
  with r have "e = None" by simp
  with r string_law [OF assms] have "n = length p" "written s' = written s @ p"
    by (auto simp: lawful_write_def)
  with r \<open>e = None\<close> show thesis using that by simp
qed

end

text \<open>\<open>bytes.Buffer\<close>: it is both, and never fails.\<close>

definition buffer_ops :: "u8 list writer_ops" where
  "buffer_ops = \<lparr>op_Write = \<lambda>b p. (length p, None, b @ p),
     op_WriteString = Some (\<lambda>b p. (length p, None, b @ p))\<rparr>"

interpretation byte_buffer: total_writer buffer_ops "\<lambda>b. b"
  by unfold_locales (auto simp: buffer_ops_def lawful_write_def total_write_def)

text \<open>
  A writer that accepts \<open>room\<close> more bytes and then fails with a short write: the state is
  the output and the room left. It is not an \<open>io.StringWriter\<close>.
\<close>

definition bounded_ops :: "(u8 list \<times> nat) writer_ops" where
  "bounded_ops = \<lparr>op_Write = \<lambda>(out, room) p.
       (min (length p) room, if length p \<le> room then None else Some ErrShortWrite,
        (out @ take room p, room - length p)),
     op_WriteString = None\<rparr>"

interpretation bounded: writer bounded_ops fst
  by unfold_locales (auto simp: bounded_ops_def lawful_write_def min_def split: if_splits)

end
