(* ===== verification/Codecs.thy ===== *)
theory Codecs
  imports Errors Layout
begin

text \<open>
  The vocabulary shared by the encoder, the decoder and the codecs: the calls of the
  interfaces \<open>Encoder\<close> and \<open>Decoder\<close> (\<open>interfaces/interfaces.go\<close>) as data, foreign
  marshaling code as programs over those calls, the codec objects of \<open>internal/coder\<close>, and
  the wire format of RFC 4506 for each call, which is the specification the encoder and the
  decoder are proved against.
\<close>

section \<open>The Encoder and Decoder interfaces\<close>

datatype enc_call =
    EncBool bool | EncInt u32 | EncUnsignedInt u32 | EncHyper u64 | EncUnsignedHyper u64
  | EncFloat u32 | EncDouble u64 | EncOpaque "u8 list" | EncFixedOpaque "u8 list"
  | EncString "u8 list" | EncFixedString "u8 list"

datatype dec_call =
    DecBool | DecInt | DecUnsignedInt | DecHyper | DecUnsignedHyper | DecFloat | DecDouble
  | DecOpaque nat | DecFixedOpaque "u8 list" | DecString nat | DecFixedString nat

datatype dec_reply = RBool bool | R32 u32 | R64 u64 | RBytes "u8 list"

text \<open>An implementation of the interfaces: what each call does to the state.\<close>

type_synonym 'e encoder_fn = "enc_call \<Rightarrow> 'e \<Rightarrow> gerror option \<times> 'e"
type_synonym 'd decoder_fn = "dec_call \<Rightarrow> 'd \<Rightarrow> (dec_reply \<times> gerror option \<times> 'd) outcome"

text \<open>
  Foreign code (\<open>MarshalXDR\<close>, \<open>UnmarshalXDR\<close>, registered codecs) reaches the stream only
  through these calls: it is a tree of calls that reacts to their results. A decoding
  program ends with the error it returns and the value its receiver then has.
\<close>

datatype enc_prog = EDone "gerror option" | ECall enc_call "gerror option \<Rightarrow> enc_prog"
datatype 'a dec_prog = DDone "gerror option" 'a
  | DCall dec_call "dec_reply \<Rightarrow> gerror option \<Rightarrow> 'a dec_prog"

section \<open>Codec objects\<close>

text \<open>
  One constructor per codec type of the package, with its fields: a struct field is its
  index, its offset in memory (used by the unsafe build only), its codec and its name; an
  array knows its length and the size of an element (an opaque array its type, of which it
  makes buffers), a slice codec also the element type
  and its maximum; \<open>CDeferred\<close> is a pointer to a deferred codec object. \<open>CMarshaler\<close> and
  \<open>COpaqueSlice\<close> carry the type of the values they are used for, which a \<open>reflect.Value\<close>
  knows. \<open>CForeign\<close> is a codec registered by the user, and \<open>CWrapper\<close> is the
  \<open>unsafeCodecWrapper\<close> of the unsafe build.
\<close>

datatype 'c field = Field (f_index: nat) (f_offset: nat) (f_codec: 'c) (f_name: string)

datatype switch_kind = SwitchBool | SwitchInt | SwitchUint

datatype codec =
    CBool | CInt8 | CInt16 | CInt32 | CUint8 | CUint16 | CUint32 | CHyper | CUhyper
  | CFloat | CDouble | CComplex64 | CComplex128
  | CFixedString nat | CVarString nat u32
  | COpaqueArray gtype nat | CArray codec nat nat
  | COpaqueSlice gtype nat u32 | CSlice codec gtype nat nat u32
  | CPtr codec gtype | COpt codec gvalue
  | CMap codec codec gtype gtype nat u32
  | CStruct string "codec field list"
  | CUnion string "codec field" "codec field option list" "(u32 \<times> nat) list" int switch_kind
  | CError gerror | CDeferred nat | CMarshaler gtype | CForeign nat | CWrapper codec gtype

text \<open>
  What surrounds a codec at run time: the platform's largest int, the largest number of bytes
  that the run-time system allocates in one piece (\<open>maxAlloc\<close> of package \<open>runtime\<close>: \<open>2 ^ 48\<close> on
  amd64, \<open>2 ^ 32 - 1\<close> on most 32-bit platforms), the declared types, whether the program was built with the \<open>nounsafe\<close> tag, the
  real codec of each deferred codec object (\<open>None\<close> until it is resolved), and the foreign
  code.
\<close>

record genv =
  g_maxInt :: nat
  g_maxAlloc :: nat
  g_types :: tenv
  g_nounsafe :: bool
  g_real :: "nat \<Rightarrow> codec option"
  g_marshal :: "gtype \<Rightarrow> gvalue \<Rightarrow> enc_prog"
  g_unmarshal :: "gtype \<Rightarrow> gvalue \<Rightarrow> gvalue dec_prog"
  g_foreign_enc :: "nat \<Rightarrow> gvalue \<Rightarrow> enc_prog"
  g_foreign_dec :: "nat \<Rightarrow> gvalue \<Rightarrow> gvalue dec_prog"

abbreviation g_word :: "genv \<Rightarrow> nat" where "g_word G \<equiv> word_bytes (g_maxInt G)"

text \<open>
  The run-time system panics when an array of \<open>n\<close> elements of \<open>sz\<close> bytes is larger than it
  can address, before anything is allocated.
\<close>

definition alloc_panic :: string where
  "alloc_panic = ''runtime: allocation size out of range''"

definition newarray :: "genv \<Rightarrow> nat \<Rightarrow> nat \<Rightarrow> unit outcome" where
  "newarray G sz n = (if n * sz > g_maxAlloc G then Panic alloc_panic else Ret ())"

text \<open>\<open>reflect.MakeSlice\<close>: zero values of the element type \<open>et\<close>.\<close>

definition MakeSlice :: "genv \<Rightarrow> gtype \<Rightarrow> nat \<Rightarrow> gvalue list outcome" where
  "MakeSlice G et n = obind (newarray G (size_of (g_word G) (g_types G) et) n)
     (\<lambda>_. Ret (replicate n (zero_value (g_types G) et)))"

text \<open>
  Which codecs have the methods \<open>encodeUnsafe\<close> and \<open>decodeUnsafe\<close> (the unexported interface
  \<open>codecUnsafe\<close> of \<open>codec_unsafe.go\<close>): the error, map and marshaler codecs and all foreign
  codecs lack them. In the unsafe build every codec that another codec calls has them.
\<close>

fun codecUnsafe :: "codec \<Rightarrow> bool" where
  "codecUnsafe (CError e) = False" | "codecUnsafe (CMap kc vc kt vt m om) = False"
| "codecUnsafe (CMarshaler t) = False" | "codecUnsafe (CForeign k) = False" | "codecUnsafe _ = True"

definition callable :: "genv \<Rightarrow> codec \<Rightarrow> bool" where
  "callable G c \<longleftrightarrow> g_nounsafe G \<or> codecUnsafe c"

section \<open>The wire format of a call\<close>

definition opaque_bytes :: "u8 list \<Rightarrow> u8 list" where
  "opaque_bytes bs = bs @ replicate (xdr_pad (length bs)) 0"

definition counted_bytes :: "u8 list \<Rightarrow> u8 list" where
  "counted_bytes bs = be32 (word_of_nat (length bs)) @ opaque_bytes bs"

definition max_u32 :: nat where "max_u32 = 2 ^ 32 - 1"

text \<open>The error the call reports on a stream that never fails, and the bytes it emits.\<close>

definition sized_spec :: "u8 list \<Rightarrow> gerror option \<times> u8 list" where
  "sized_spec bs = (if length bs > max_u32
     then (Some (LengthError (word_of_nat (length bs)) (word_of_nat max_u32)), [])
     else (None, counted_bytes bs))"

fun call_spec :: "enc_call \<Rightarrow> gerror option \<times> u8 list" where
  "call_spec (EncBool b) = (None, be32 (if b then 1 else 0))"
| "call_spec (EncInt i) = (None, be32 i)"
| "call_spec (EncUnsignedInt i) = (None, be32 i)"
| "call_spec (EncHyper h) = (None, be64 h)"
| "call_spec (EncUnsignedHyper h) = (None, be64 h)"
| "call_spec (EncFloat f) = (None, be32 f)"
| "call_spec (EncDouble d) = (None, be64 d)"
| "call_spec (EncOpaque bs) = sized_spec bs"
| "call_spec (EncFixedOpaque bs) = (None, opaque_bytes bs)"
| "call_spec (EncString bs) = sized_spec bs"
| "call_spec (EncFixedString bs) = (None, opaque_bytes bs)"

lemma call_spec_aligned: "4 dvd length (snd (call_spec c))"
proof -
  have "4 dvd length (opaque_bytes bs)" for bs
    using xdr_pad_aligned [of "length bs"] by (simp add: opaque_bytes_def)
  then show ?thesis
    by (cases c) (auto simp: sized_spec_def counted_bytes_def split: if_splits)
qed

text \<open>
  The bytes that answer a decoder call with a reply, and which replies a call can have:
  the padding of opaque data is arbitrary, and a bounded call admits replies up to its
  bound. \<open>DecFixedOpaque\<close> carries the buffer it fills.
\<close>

inductive answers :: "nat \<Rightarrow> dec_call \<Rightarrow> u8 list \<Rightarrow> dec_reply \<Rightarrow> bool" for M :: nat where
  "answers M DecBool (be32 (if b then 1 else 0)) (RBool b)"
| "answers M DecInt (be32 i) (R32 i)"
| "answers M DecUnsignedInt (be32 i) (R32 i)"
| "answers M DecHyper (be64 h) (R64 h)"
| "answers M DecUnsignedHyper (be64 h) (R64 h)"
| "answers M DecFloat (be32 f) (R32 f)"
| "answers M DecDouble (be64 d) (R64 d)"
| "length bs \<le> n \<Longrightarrow> length bs \<le> max_u32 \<Longrightarrow> length bs + 3 \<le> M \<Longrightarrow> length ps = xdr_pad (length bs) \<Longrightarrow>
     answers M (DecOpaque n) (be32 (word_of_nat (length bs)) @ bs @ ps) (RBytes bs)"
| "length bs = length buf \<Longrightarrow> length ps = xdr_pad (length buf) \<Longrightarrow>
     answers M (DecFixedOpaque buf) (bs @ ps) (RBytes bs)"
| "length bs \<le> n \<Longrightarrow> length bs \<le> max_u32 \<Longrightarrow> length bs + 3 \<le> M \<Longrightarrow> length ps = xdr_pad (length bs) \<Longrightarrow>
     answers M (DecString n) (be32 (word_of_nat (length bs)) @ bs @ ps) (RBytes bs)"
| "length bs = n \<Longrightarrow> length ps = xdr_pad n \<Longrightarrow> answers M (DecFixedString n) (bs @ ps) (RBytes bs)"

section \<open>The contracts of the interfaces\<close>

text \<open>
  An encoder: each call appends a prefix of the bytes the wire format prescribes; it
  reports the prescribed error and appends all of them, unless it reports a failure of
  the stream. \<open>total_encoder\<close>: the stream never fails.
\<close>

locale encoder_iface =
  fixes E :: "'e encoder_fn" and out :: "'e \<Rightarrow> u8 list"
  assumes call_law: "E c e = (err, e') \<Longrightarrow>
     \<exists>q. out e' = out e @ q \<and> prefix q (snd (call_spec c))
       \<and> ((err = fst (call_spec c) \<and> q = snd (call_spec c)) \<or> err \<noteq> None)"

locale total_encoder = encoder_iface +
  assumes call_total: "E c e = (err, e') \<Longrightarrow>
     err = fst (call_spec c) \<and> out e' = out e @ snd (call_spec c)"
begin

lemma call_obtain:
  obtains e' where "E c e = (fst (call_spec c), e')" "out e' = out e @ snd (call_spec c)"
  using call_total [of c e] by (cases "E c e") auto

end

text \<open>
  A decoder: a call whose answer stands at the front of the pending input returns it and
  consumes exactly that; in every case it returns, having consumed a prefix of the input.
\<close>

locale decoder_iface =
  fixes M :: nat and D :: "'d decoder_fn" and pend :: "'d \<Rightarrow> u8 list"
  assumes answer_law: "answers M k bs r \<Longrightarrow> pend d = bs @ rest \<Longrightarrow>
     \<exists>d'. D k d = Ret (r, None, d') \<and> pend d' = rest"
    and consume_law: "D k d = Ret (r, err, d') \<Longrightarrow> suffix (pend d') (pend d)"
    and never_hangs: "D k d \<noteq> Blocked \<and> D k d \<noteq> Spent"

end
