(* ===== verification/Encoder.thy ===== *)
theory Encoder
  imports Codecs GoIO
begin

text \<open>
  The encoder of \<open>internal/coder/encoder.go\<close>: its state with the scratch buffer, the
  writer and the codec cache, and its primitive methods over any writer; they satisfy the
  contract \<open>encoder_iface\<close> on every lawful writer and \<open>total_encoder\<close> on writers that
  never fail.
\<close>

section \<open>State\<close>

text \<open>
  \<open>enc_ws\<close> records that the writer is also an \<open>io.StringWriter\<close>; \<open>enc_cr\<close> identifies the
  coder; the cache has four slots of a type and its codec.
\<close>

record 'w encoder =
  enc_w :: 'w
  enc_ws :: bool
  enc_cr :: nat
  enc_cache :: "(gtype \<times> codec) option list"
  enc_slot :: nat
  enc_scratch :: "u8 list"

definition pad :: "u8 list" where "pad = [0, 0, 0, 0]"

text \<open>
  \<open>reset\<close>: a new writer, possibly of another type, and an empty cache if the coder changes
  (the cached codecs belong to the coder).
\<close>

definition encoder_reset :: "'w writer_ops \<Rightarrow> nat \<Rightarrow> 'w \<Rightarrow> 'v encoder \<Rightarrow> 'w encoder" where
  "encoder_reset W cr w e =
     \<lparr>enc_w = w, enc_ws = (op_WriteString W \<noteq> None), enc_cr = cr,
      enc_cache = (if enc_cr e \<noteq> cr then map (\<lambda>_. None) (enc_cache e) else enc_cache e),
      enc_slot = enc_slot e, enc_scratch = enc_scratch e\<rparr>"

section \<open>Primitive methods\<close>

text \<open>Signed integers are given by their two's complement bits; \<open>>>\<close> on them is arithmetic.\<close>

definition write_to :: "'w writer_ops \<Rightarrow> u8 list \<Rightarrow> 'w encoder \<Rightarrow> gerror option \<times> 'w encoder" where
  "write_to W p e = (case op_Write W (enc_w e) p of (_, err, w') \<Rightarrow> (err, e\<lparr>enc_w := w'\<rparr>))"

definition EncodeInt :: "'w writer_ops \<Rightarrow> u32 \<Rightarrow> 'w encoder \<Rightarrow> gerror option \<times> 'w encoder" where
  "EncodeInt W i e =
     (let scratch = [ucast (signed_drop_bit 24 i), ucast (signed_drop_bit 16 i),
                     ucast (signed_drop_bit 8 i), ucast i] @ drop 4 (enc_scratch e)
      in write_to W (take 4 scratch) (e\<lparr>enc_scratch := scratch\<rparr>))"

definition EncodeUnsignedInt :: "'w writer_ops \<Rightarrow> u32 \<Rightarrow> 'w encoder \<Rightarrow> gerror option \<times> 'w encoder" where
  "EncodeUnsignedInt W i e = EncodeInt W i e"

definition EncodeBool :: "'w writer_ops \<Rightarrow> bool \<Rightarrow> 'w encoder \<Rightarrow> gerror option \<times> 'w encoder" where
  "EncodeBool W b e = (let i = (if b then 1 else 0) in EncodeInt W i e)"

definition EncodeHyper :: "'w writer_ops \<Rightarrow> u64 \<Rightarrow> 'w encoder \<Rightarrow> gerror option \<times> 'w encoder" where
  "EncodeHyper W i e =
     (let scratch = [ucast (signed_drop_bit 56 i), ucast (signed_drop_bit 48 i),
                     ucast (signed_drop_bit 40 i), ucast (signed_drop_bit 32 i),
                     ucast (signed_drop_bit 24 i), ucast (signed_drop_bit 16 i),
                     ucast (signed_drop_bit 8 i), ucast i] @ drop 8 (enc_scratch e)
      in write_to W (take 8 scratch) (e\<lparr>enc_scratch := scratch\<rparr>))"

definition EncodeUnsignedHyper :: "'w writer_ops \<Rightarrow> u64 \<Rightarrow> 'w encoder \<Rightarrow> gerror option \<times> 'w encoder" where
  "EncodeUnsignedHyper W u e = EncodeHyper W u e"

text \<open>\<open>(4 - (len & 3)) & 3\<close>\<close>

definition padding :: "nat \<Rightarrow> nat" where
  "padding len = nat ((4 - (int len AND 3)) AND 3)"

definition EncodeFixedOpaque :: "'w writer_ops \<Rightarrow> u8 list \<Rightarrow> 'w encoder \<Rightarrow> gerror option \<times> 'w encoder" where
  "EncodeFixedOpaque W buf e =
     (case write_to W buf e of (err, e') \<Rightarrow>
        if err \<noteq> None then (err, e') else write_to W (take (padding (length buf)) pad) e')"

definition EncodeOpaque :: "'w writer_ops \<Rightarrow> u8 list \<Rightarrow> 'w encoder \<Rightarrow> gerror option \<times> 'w encoder" where
  "EncodeOpaque W buf e =
     (if length buf > max_u32
      then (Some (LengthError (word_of_nat (length buf)) (word_of_nat max_u32)), e)
      else (case EncodeUnsignedInt W (word_of_nat (length buf)) e of (err, e') \<Rightarrow>
        if err \<noteq> None then (err, e') else EncodeFixedOpaque W buf e'))"

definition EncodeFixedString :: "'w writer_ops \<Rightarrow> u8 list \<Rightarrow> 'w encoder \<Rightarrow> gerror option \<times> 'w encoder" where
  "EncodeFixedString W s e =
     (case (case (enc_ws e, op_WriteString W) of
              (True, Some ws) \<Rightarrow> (case ws (enc_w e) s of (_, err, w') \<Rightarrow> (err, e\<lparr>enc_w := w'\<rparr>))
            | _ \<Rightarrow> write_to W s e) of (err, e') \<Rightarrow>
        if err \<noteq> None then (err, e') else write_to W (take (padding (length s)) pad) e')"

definition EncodeString :: "'w writer_ops \<Rightarrow> u8 list \<Rightarrow> 'w encoder \<Rightarrow> gerror option \<times> 'w encoder" where
  "EncodeString W s e =
     (if length s > max_u32
      then (Some (LengthError (word_of_nat (length s)) (word_of_nat max_u32)), e)
      else (case EncodeUnsignedInt W (word_of_nat (length s)) e of (err, e') \<Rightarrow>
        if err \<noteq> None then (err, e') else EncodeFixedString W s e'))"

text \<open>A float is given by its bits, so \<open>math.Float32bits\<close> is the identity.\<close>

definition EncodeFloat :: "'w writer_ops \<Rightarrow> u32 \<Rightarrow> 'w encoder \<Rightarrow> gerror option \<times> 'w encoder" where
  "EncodeFloat W f e = EncodeUnsignedInt W f e"

definition EncodeDouble :: "'w writer_ops \<Rightarrow> u64 \<Rightarrow> 'w encoder \<Rightarrow> gerror option \<times> 'w encoder" where
  "EncodeDouble W f e = EncodeUnsignedHyper W f e"

text \<open>The method table of the encoder as an implementation of the \<open>Encoder\<close> interface.\<close>

fun encoder_call :: "'w writer_ops \<Rightarrow> 'w encoder encoder_fn" where
  "encoder_call W (EncBool b) e = EncodeBool W b e"
| "encoder_call W (EncInt i) e = EncodeInt W i e"
| "encoder_call W (EncUnsignedInt i) e = EncodeUnsignedInt W i e"
| "encoder_call W (EncHyper h) e = EncodeHyper W h e"
| "encoder_call W (EncUnsignedHyper h) e = EncodeUnsignedHyper W h e"
| "encoder_call W (EncFloat f) e = EncodeFloat W f e"
| "encoder_call W (EncDouble d) e = EncodeDouble W d e"
| "encoder_call W (EncOpaque bs) e = EncodeOpaque W bs e"
| "encoder_call W (EncFixedOpaque bs) e = EncodeFixedOpaque W bs e"
| "encoder_call W (EncString s) e = EncodeString W s e"
| "encoder_call W (EncFixedString s) e = EncodeFixedString W s e"

section \<open>Bytes and padding\<close>

lemma bit_signed_drop: "bit (signed_drop_bit n (w :: 'a::len word)) i
    \<longleftrightarrow> i < LENGTH('a) \<and> bit w (if n + i < LENGTH('a) then n + i else LENGTH('a) - 1)"
  by (auto simp: bit_simps min_def dest: bit_imp_le_length)

text \<open>The arithmetic shift of the source yields the same bytes as a logical one.\<close>

lemma signed_bytes32:
  "(ucast (signed_drop_bit 24 (i :: u32)) :: u8) = ucast (drop_bit 24 i)"
  "(ucast (signed_drop_bit 16 (i :: u32)) :: u8) = ucast (drop_bit 16 i)"
  "(ucast (signed_drop_bit 8 (i :: u32)) :: u8) = ucast (drop_bit 8 i)"
  by (rule bit_word_eqI, simp add: bit_simps bit_signed_drop add.commute)+

lemma signed_bytes64:
  "(ucast (signed_drop_bit 56 (i :: u64)) :: u8) = ucast (drop_bit 56 i)"
  "(ucast (signed_drop_bit 48 (i :: u64)) :: u8) = ucast (drop_bit 48 i)"
  "(ucast (signed_drop_bit 40 (i :: u64)) :: u8) = ucast (drop_bit 40 i)"
  "(ucast (signed_drop_bit 32 (i :: u64)) :: u8) = ucast (drop_bit 32 i)"
  "(ucast (signed_drop_bit 24 (i :: u64)) :: u8) = ucast (drop_bit 24 i)"
  "(ucast (signed_drop_bit 16 (i :: u64)) :: u8) = ucast (drop_bit 16 i)"
  "(ucast (signed_drop_bit 8 (i :: u64)) :: u8) = ucast (drop_bit 8 i)"
  by (rule bit_word_eqI, simp add: bit_simps bit_signed_drop add.commute)+

lemma EncodeInt_be32:
  "EncodeInt W i e = write_to W (be32 i) (e\<lparr>enc_scratch := be32 i @ drop 4 (enc_scratch e)\<rparr>)"
  by (simp add: EncodeInt_def signed_bytes32 be32_def)

lemma EncodeHyper_be64:
  "EncodeHyper W i e = write_to W (be64 i) (e\<lparr>enc_scratch := be64 i @ drop 8 (enc_scratch e)\<rparr>)"
  by (simp add: EncodeHyper_def signed_bytes64 be64_def)

lemma padding_xdr_pad: "padding n = xdr_pad n"
proof -
  have "nat ((4 - int n mod 4) mod 4) = (4 - n mod 4) mod 4"
  proof -
    have "n mod 4 < 4" by simp
    then have "(4 - int n mod 4) mod 4 = int ((4 - n mod 4) mod 4)"
      by (simp add: zmod_int of_nat_diff)
    then show ?thesis by simp
  qed
  then show ?thesis by (simp add: padding_def xdr_pad_def int_and_3)
qed

lemma take_pad: "take (padding n) pad = replicate (xdr_pad n) 0"
proof -
  have "xdr_pad n = 0 \<or> xdr_pad n = 1 \<or> xdr_pad n = 2 \<or> xdr_pad n = 3"
    using xdr_pad_less [of n] by linarith
  then show ?thesis by (auto simp: padding_xdr_pad pad_def numeral_eq_Suc)
qed

section \<open>The encoder satisfies the contract of its interface\<close>

text \<open>
  \<open>emitted out p e r\<close>: from state \<open>e\<close> the outcome \<open>r\<close> has appended a prefix of \<open>p\<close>, all
  of it if no error is reported.
\<close>

definition emitted :: "('e \<Rightarrow> u8 list) \<Rightarrow> u8 list \<Rightarrow> 'e \<Rightarrow> gerror option \<times> 'e \<Rightarrow> bool" where
  "emitted out p e r \<longleftrightarrow> (\<exists>q. out (snd r) = out e @ q \<and> prefix q p \<and> (fst r = None \<longrightarrow> q = p))"

lemma emitted_seq:
  assumes "emitted out p e (err, e')" and "err = None \<Longrightarrow> emitted out p' e' r"
  shows "emitted out (p @ p') e (if err \<noteq> None then (err, e') else r)"
  using assms by (auto simp: emitted_def intro: prefix_order.trans)

lemma emitted_frame: "out e1 = out e2 \<Longrightarrow> emitted out p e1 r = emitted out p e2 r"
  by (simp add: emitted_def)

context writer
begin

abbreviation out :: "'w encoder \<Rightarrow> u8 list" where "out e \<equiv> written (enc_w e)"

lemma write_to_emitted: "emitted out p e (write_to W p e)"
proof -
  obtain n err w' where w: "op_Write W (enc_w e) p = (n, err, w')" by (cases "op_Write W (enc_w e) p")
  with write_prefix [OF w] show ?thesis
    by (auto simp: write_to_def emitted_def intro!: exI [of _ "take n p"])
qed

lemma emitted_scratch: "emitted out p (e\<lparr>enc_scratch := s\<rparr>) r = emitted out p e r"
  by (simp add: emitted_def)

lemma EncodeInt_emitted: "emitted out (be32 i) e (EncodeInt W i e)"
  unfolding EncodeInt_be32
  using write_to_emitted [of "be32 i" "e\<lparr>enc_scratch := be32 i @ drop 4 (enc_scratch e)\<rparr>"]
  by (simp only: emitted_scratch)

lemma EncodeHyper_emitted: "emitted out (be64 i) e (EncodeHyper W i e)"
  unfolding EncodeHyper_be64
  using write_to_emitted [of "be64 i" "e\<lparr>enc_scratch := be64 i @ drop 8 (enc_scratch e)\<rparr>"]
  by (simp only: emitted_scratch)

lemma EncodeFixedOpaque_emitted: "emitted out (opaque_bytes buf) e (EncodeFixedOpaque W buf e)"
proof -
  obtain err e' where r: "write_to W buf e = (err, e')" by (cases "write_to W buf e")
  show ?thesis
    unfolding EncodeFixedOpaque_def r opaque_bytes_def take_pad
    using emitted_seq [OF write_to_emitted [of buf e, unfolded r] write_to_emitted] by simp
qed

lemma EncodeFixedString_emitted: "emitted out (opaque_bytes s) e (EncodeFixedString W s e)"
proof -
  define r where "r = (case (enc_ws e, op_WriteString W) of
      (True, Some ws) \<Rightarrow> (case ws (enc_w e) s of (_, err, w') \<Rightarrow> (err, e\<lparr>enc_w := w'\<rparr>))
    | _ \<Rightarrow> write_to W s e)"
  have "emitted out s e r"
  proof (cases "\<exists>ws. enc_ws e \<and> op_WriteString W = Some ws")
    case True
    then obtain ws where ws: "enc_ws e" "op_WriteString W = Some ws" by blast
    obtain n err w' where w: "ws (enc_w e) s = (n, err, w')" by (cases "ws (enc_w e) s")
    with string_prefix [OF ws(2) w] ws show ?thesis
      by (auto simp: r_def emitted_def intro!: exI [of _ "take n s"])
  next
    case False
    then have "r = write_to W s e" by (auto simp: r_def split: bool.splits option.splits)
    then show ?thesis using write_to_emitted by simp
  qed
  then show ?thesis
    unfolding EncodeFixedString_def r_def [symmetric] opaque_bytes_def take_pad
    using emitted_seq [OF _ write_to_emitted] by (cases r) simp
qed

lemma sized_emitted:
  assumes "\<And>e. emitted out (opaque_bytes s) e (f e)"
  shows "emitted out (counted_bytes s) e
    (case EncodeUnsignedInt W (word_of_nat (length s)) e of (err, e') \<Rightarrow> if err \<noteq> None then (err, e') else f e')"
proof -
  obtain err e' where r: "EncodeUnsignedInt W (word_of_nat (length s)) e = (err, e')"
    by (cases "EncodeUnsignedInt W (word_of_nat (length s)) e")
  show ?thesis
    unfolding r counted_bytes_def
    using emitted_seq [OF EncodeInt_emitted [of "word_of_nat (length s)" e,
        folded EncodeUnsignedInt_def, unfolded r] assms] by simp
qed

lemma encoder_call_emitted:
  "(fst (call_spec c) = None \<longrightarrow> emitted out (snd (call_spec c)) e (encoder_call W c e))
   \<and> (fst (call_spec c) \<noteq> None \<longrightarrow> encoder_call W c e = (fst (call_spec c), e) \<and> snd (call_spec c) = [])"
proof (cases c)
  case (EncBool b)
  then show ?thesis using EncodeInt_emitted by (simp add: EncodeBool_def)
next
  case (EncUnsignedInt i)
  then show ?thesis using EncodeInt_emitted by (simp add: EncodeUnsignedInt_def)
next
  case (EncUnsignedHyper i)
  then show ?thesis using EncodeHyper_emitted by (simp add: EncodeUnsignedHyper_def)
next
  case (EncFloat f)
  then show ?thesis using EncodeInt_emitted by (simp add: EncodeFloat_def EncodeUnsignedInt_def)
next
  case (EncDouble d)
  then show ?thesis using EncodeHyper_emitted by (simp add: EncodeDouble_def EncodeUnsignedHyper_def)
next
  case (EncOpaque bs)
  then show ?thesis
    using sized_emitted [OF EncodeFixedOpaque_emitted, of bs] by (simp add: sized_spec_def EncodeOpaque_def)
next
  case (EncString bs)
  then show ?thesis
    using sized_emitted [OF EncodeFixedString_emitted, of bs] by (simp add: sized_spec_def EncodeString_def)
qed (simp_all add: EncodeInt_emitted EncodeHyper_emitted EncodeFixedOpaque_emitted EncodeFixedString_emitted)

end

text \<open>Every method is an instance of the interface contract, on any lawful writer.\<close>

context writer
begin

lemma encoder_is_iface: "encoder_iface (encoder_call W) (\<lambda>e. written (enc_w e))"
proof
  fix c and e e' :: "'w encoder" and err
  assume r: "encoder_call W c e = (err, e')"
  show "\<exists>q. written (enc_w e') = written (enc_w e) @ q \<and> prefix q (snd (call_spec c))
     \<and> (err = fst (call_spec c) \<and> q = snd (call_spec c) \<or> err \<noteq> None)"
    using encoder_call_emitted [of c e] r by (cases "fst (call_spec c)") (auto simp: emitted_def)
qed

end

lemma fst_None_neq: "fst r = None \<Longrightarrow> r \<noteq> (Some y, z)"
  by auto

context total_writer
begin

lemma write_to_total: "fst (write_to W p e) = None"
  by (rule write_all [of "enc_w e" p]) (simp add: write_to_def)

lemma EncodeInt_total: "fst (EncodeInt W i e) = None"
  by (simp add: EncodeInt_be32 write_to_total)

lemma EncodeHyper_total: "fst (EncodeHyper W i e) = None"
  by (simp add: EncodeHyper_be64 write_to_total)

lemma EncodeFixedOpaque_total: "fst (EncodeFixedOpaque W s e) = None"
  using write_to_total fst_None_neq [OF write_to_total]
  by (auto simp: EncodeFixedOpaque_def split: prod.split)

lemma EncodeFixedString_total: "fst (EncodeFixedString W s e) = None"
proof (cases "\<exists>ws. enc_ws e \<and> op_WriteString W = Some ws")
  case True
  then obtain ws where ws: "enc_ws e" "op_WriteString W = Some ws" by blast
  obtain w' where "ws (enc_w e) s = (length s, None, w')" by (rule string_all [OF ws(2)])
  with ws show ?thesis by (simp add: EncodeFixedString_def write_to_total)
next
  case False
  then show ?thesis
    using write_to_total fst_None_neq [OF write_to_total]
    by (auto simp: EncodeFixedString_def split: prod.split bool.splits option.splits)
qed

lemmas part_totals = EncodeInt_total EncodeHyper_total EncodeFixedOpaque_total EncodeFixedString_total

lemma encoder_call_total: "fst (encoder_call W c e) = fst (call_spec c)"
  using part_totals fst_None_neq [OF EncodeInt_total]
  by (cases c) (auto simp: EncodeBool_def EncodeUnsignedInt_def EncodeUnsignedHyper_def EncodeFloat_def
      EncodeDouble_def EncodeOpaque_def EncodeString_def sized_spec_def Let_def split: prod.split)

lemma encoder_is_total: "total_encoder (encoder_call W) (\<lambda>e. written (enc_w e))"
proof (intro total_encoder.intro encoder_is_iface total_encoder_axioms.intro)
  fix c and e e' :: "'a encoder" and err
  assume r: "encoder_call W c e = (err, e')"
  show "err = fst (call_spec c) \<and> written (enc_w e') = written (enc_w e) @ snd (call_spec c)"
    using encoder_call_emitted [of c e] encoder_call_total [of c e] r
    by (cases "fst (call_spec c)") (auto simp: emitted_def)
qed

end

interpretation buffer_encoder: total_encoder "encoder_call buffer_ops" "\<lambda>e. enc_w e"
  by (rule byte_buffer.encoder_is_total)

interpretation bounded_encoder: encoder_iface "encoder_call bounded_ops" "\<lambda>e. fst (enc_w e)"
  by (rule bounded.encoder_is_iface)

section \<open>Properties\<close>

text \<open>
  C7. Every primitive method of the encoder writes exactly the bytes RFC 4506 prescribes
  for its call: on a \<open>bytes.Buffer\<close> it appends them and reports the prescribed error
  (none, or a \<open>LengthError\<close> for opaque data and strings of more than \<open>2^32 - 1\<close> bytes, of
  which nothing is written), and what it appends is a multiple of four bytes long.
\<close>

theorem encoder_writes_wire_format:
  "\<exists>e'. encoder_call buffer_ops c e = (fst (call_spec c), e')
     \<and> enc_w e' = enc_w e @ snd (call_spec c) \<and> 4 dvd length (snd (call_spec c))"
  using buffer_encoder.call_obtain [of c e] call_spec_aligned [of c] by metis

text \<open>
  C8. On any writer that obeys the contract of \<open>io.Writer\<close>, however it fails, a primitive
  method never writes anything but a prefix of the prescribed bytes, and reports success
  only if it wrote all of them.
\<close>

theorem encoder_writes_prefix_on_failure:
  assumes "writer W written"
  shows "\<exists>q. written (enc_w (snd (encoder_call W c e))) = written (enc_w e) @ q
     \<and> prefix q (snd (call_spec c))
     \<and> (fst (encoder_call W c e) = None \<longrightarrow> fst (call_spec c) = None \<and> q = snd (call_spec c))"
proof -
  obtain err e' where "encoder_call W c e = (err, e')" by (cases "encoder_call W c e")
  with encoder_iface.call_law [OF writer.encoder_is_iface [OF assms] this] show ?thesis by auto
qed

theorem encoder_writes_prefix_on_failure_witness:
  "\<exists>q. fst (enc_w (snd (encoder_call bounded_ops (EncInt 7)
       \<lparr>enc_w = ([], 2), enc_ws = False, enc_cr = 0, enc_cache = [], enc_slot = 3, enc_scratch = []\<rparr>)))
     = q \<and> prefix q (be32 7)"
  using encoder_writes_prefix_on_failure [OF bounded.writer_axioms, of "EncInt 7"
    "\<lparr>enc_w = ([], 2), enc_ws = False, enc_cr = 0, enc_cache = [], enc_slot = 3, enc_scratch = []\<rparr>"]
  by auto

end
