(* ===== verification/Decoder.thy ===== *)
theory Decoder
  imports Codecs GoIO
begin

text \<open>
  The decoder of \<open>internal/coder/decoder.go\<close>: its primitive methods over any reader, and
  the proof that on a lawful reader they satisfy the contract \<open>decoder_iface\<close>, whatever
  the pieces in which the reader delivers its data.
\<close>

section \<open>Primitive methods\<close>

record 'r decoder =
  dec_r :: 'r
  dec_cr :: nat

text \<open>A zeroed array of \<open>n\<close> bytes after a read of \<open>bs\<close> into it, and one with old contents.\<close>

definition fill :: "nat \<Rightarrow> u8 list \<Rightarrow> u8 list" where
  "fill n bs = bs @ replicate (n - length bs) 0"

definition overwrite :: "u8 list \<Rightarrow> u8 list \<Rightarrow> u8 list" where
  "overwrite buf bs = bs @ drop (length bs) buf"

text \<open>\<open>(n + 3) & ^3\<close>\<close>

definition round4 :: "nat \<Rightarrow> nat" where
  "round4 n = nat ((int n + 3) AND NOT 3)"

definition DecodeUnsignedInt :: "'r read_fn \<Rightarrow> 'r decoder \<Rightarrow> (u32 \<times> gerror option \<times> 'r decoder) outcome" where
  "DecodeUnsignedInt rd d = obind (ReadFull rd 4 (dec_r d)) (\<lambda>(bs, err, r').
     let b = fill 4 bs in
     Ret (push_bit 24 (ucast (b ! 0)) OR push_bit 16 (ucast (b ! 1)) OR push_bit 8 (ucast (b ! 2))
          OR ucast (b ! 3), err, d\<lparr>dec_r := r'\<rparr>))"

definition DecodeInt :: "'r read_fn \<Rightarrow> 'r decoder \<Rightarrow> (u32 \<times> gerror option \<times> 'r decoder) outcome" where
  "DecodeInt rd d = obind (DecodeUnsignedInt rd d) (\<lambda>(u, err, d'). Ret (u, err, d'))"

definition DecodeBool :: "'r read_fn \<Rightarrow> 'r decoder \<Rightarrow> (bool \<times> gerror option \<times> 'r decoder) outcome" where
  "DecodeBool rd d = obind (DecodeUnsignedInt rd d) (\<lambda>(i, err, d').
     if i = 0 then Ret (False, err, d')
     else if i = 1 then Ret (True, err, d')
     else if err \<noteq> None then Ret (False, err, d')
     else Ret (False, Some ErrInvalidValue, d'))"

definition DecodeUnsignedHyper :: "'r read_fn \<Rightarrow> 'r decoder \<Rightarrow> (u64 \<times> gerror option \<times> 'r decoder) outcome" where
  "DecodeUnsignedHyper rd d = obind (ReadFull rd 8 (dec_r d)) (\<lambda>(bs, err, r').
     let b = fill 8 bs in
     Ret (push_bit 56 (ucast (b ! 0)) OR push_bit 48 (ucast (b ! 1)) OR push_bit 40 (ucast (b ! 2))
          OR push_bit 32 (ucast (b ! 3)) OR push_bit 24 (ucast (b ! 4)) OR push_bit 16 (ucast (b ! 5))
          OR push_bit 8 (ucast (b ! 6)) OR ucast (b ! 7), err, d\<lparr>dec_r := r'\<rparr>))"

definition DecodeHyper :: "'r read_fn \<Rightarrow> 'r decoder \<Rightarrow> (u64 \<times> gerror option \<times> 'r decoder) outcome" where
  "DecodeHyper rd d = obind (DecodeUnsignedHyper rd d) (\<lambda>(u, err, d'). Ret (u, err, d'))"

definition DecodeFloat :: "'r read_fn \<Rightarrow> 'r decoder \<Rightarrow> (u32 \<times> gerror option \<times> 'r decoder) outcome" where
  "DecodeFloat rd d = obind (DecodeUnsignedInt rd d) (\<lambda>(i, err, d'). Ret (i, err, d'))"

definition DecodeDouble :: "'r read_fn \<Rightarrow> 'r decoder \<Rightarrow> (u64 \<times> gerror option \<times> 'r decoder) outcome" where
  "DecodeDouble rd d = obind (DecodeUnsignedHyper rd d) (\<lambda>(i, err, d'). Ret (i, err, d'))"

text \<open>
  \<open>DecodeOpaque\<close>: on a platform whose ints end at \<open>M\<close>, rounding the length up overflows
  for lengths beyond \<open>M - 3\<close> and \<open>make\<close> panics on the negative length. The error of the
  second read is dropped, as in the source. The maximum is a natural number, as all codecs
  pass one: \<open>uint64(maxLen)\<close> would make a negative argument no bound at all.
\<close>

definition DecodeOpaque ::
  "nat \<Rightarrow> 'r read_fn \<Rightarrow> nat \<Rightarrow> 'r decoder \<Rightarrow> (u8 list \<times> gerror option \<times> 'r decoder) outcome" where
  "DecodeOpaque M rd maxLen d = obind (DecodeUnsignedInt rd d) (\<lambda>(l, err, d').
     if err \<noteq> None then Ret ([], err, d')
     else if l = 0 then Ret ([], None, d')
     else if unat l > maxLen
       then Ret ([], Some (LengthError (ucast l) (word_of_nat maxLen)), d')
     else if unat l + 3 > M then Panic ''makeslice: len out of range''
     else let lPad = round4 (unat l) in
       obind (ReadFull rd lPad (dec_r d')) (\<lambda>(bs, err', r').
         Ret (take (unat l) (fill lPad bs), None, d'\<lparr>dec_r := r'\<rparr>)))"

definition DecodeFixedOpaque ::
  "'r read_fn \<Rightarrow> u8 list \<Rightarrow> 'r decoder \<Rightarrow> (u8 list \<times> gerror option \<times> 'r decoder) outcome" where
  "DecodeFixedOpaque rd buf d = obind (ReadFull rd (length buf) (dec_r d)) (\<lambda>(bs, err, r').
     if err \<noteq> None then Ret (overwrite buf bs, err, d\<lparr>dec_r := r'\<rparr>)
     else let n = round4 (length bs) - length bs in
       if n \<noteq> 0
       then obind (ReadFull rd n r') (\<lambda>(discard, err', r'').
              Ret (overwrite buf bs, err', d\<lparr>dec_r := r''\<rparr>))
       else Ret (overwrite buf bs, err, d\<lparr>dec_r := r'\<rparr>))"

definition DecodeString ::
  "nat \<Rightarrow> 'r read_fn \<Rightarrow> nat \<Rightarrow> 'r decoder \<Rightarrow> (u8 list \<times> gerror option \<times> 'r decoder) outcome" where
  "DecodeString M rd maxLen d = obind (DecodeOpaque M rd maxLen d) (\<lambda>(b, err, d').
     if err \<noteq> None then Ret ([], err, d') else Ret (b, err, d'))"

definition DecodeFixedString ::
  "'r read_fn \<Rightarrow> nat \<Rightarrow> 'r decoder \<Rightarrow> (u8 list \<times> gerror option \<times> 'r decoder) outcome" where
  "DecodeFixedString rd len d = DecodeFixedOpaque rd (replicate len 0) d"

text \<open>The method table as an implementation of the \<open>Decoder\<close> interface.\<close>

definition reply :: "('a \<Rightarrow> dec_reply) \<Rightarrow> ('a \<times> gerror option \<times> 'd) outcome
    \<Rightarrow> (dec_reply \<times> gerror option \<times> 'd) outcome" where
  "reply f m = obind m (\<lambda>(x, err, d). Ret (f x, err, d))"

fun decoder_call :: "nat \<Rightarrow> 'r read_fn \<Rightarrow> 'r decoder decoder_fn" where
  "decoder_call M rd DecBool d = reply RBool (DecodeBool rd d)"
| "decoder_call M rd DecInt d = reply R32 (DecodeInt rd d)"
| "decoder_call M rd DecUnsignedInt d = reply R32 (DecodeUnsignedInt rd d)"
| "decoder_call M rd DecHyper d = reply R64 (DecodeHyper rd d)"
| "decoder_call M rd DecUnsignedHyper d = reply R64 (DecodeUnsignedHyper rd d)"
| "decoder_call M rd DecFloat d = reply R32 (DecodeFloat rd d)"
| "decoder_call M rd DecDouble d = reply R64 (DecodeDouble rd d)"
| "decoder_call M rd (DecOpaque n) d = reply RBytes (DecodeOpaque M rd n d)"
| "decoder_call M rd (DecFixedOpaque buf) d = reply RBytes (DecodeFixedOpaque rd buf d)"
| "decoder_call M rd (DecString n) d = reply RBytes (DecodeString M rd n d)"
| "decoder_call M rd (DecFixedString n) d = reply RBytes (DecodeFixedString rd n d)"

section \<open>Bytes and rounding\<close>

lemma fill_be [simp]: "fill 4 (be32 w) = be32 w" "fill 8 (be64 v) = be64 v"
  "length bs = n \<Longrightarrow> fill n bs = bs"
  by (simp_all add: fill_def)

lemma be32_join:
  "push_bit 24 (ucast (be32 w ! 0)) OR push_bit 16 (ucast (be32 w ! 1)) OR push_bit 8 (ucast (be32 w ! 2))
     OR ucast (be32 w ! 3) = w"
  using word32_of_be32 [of w] by (simp add: be32_def word32_of_def or.assoc)

lemma be64_join:
  "push_bit 56 (ucast (be64 w ! 0)) OR push_bit 48 (ucast (be64 w ! 1)) OR push_bit 40 (ucast (be64 w ! 2))
     OR push_bit 32 (ucast (be64 w ! 3)) OR push_bit 24 (ucast (be64 w ! 4)) OR push_bit 16 (ucast (be64 w ! 5))
     OR push_bit 8 (ucast (be64 w ! 6)) OR ucast (be64 w ! 7) = w" (is "?l = w")
proof (rule bit_word_eqI)
  fix n assume "n < LENGTH(64)"
  then consider "n < 8" | "8 \<le> n" "n < 16" | "16 \<le> n" "n < 24" | "24 \<le> n" "n < 32"
    | "32 \<le> n" "n < 40" | "40 \<le> n" "n < 48" | "48 \<le> n" "n < 56" | "56 \<le> n" "n < 64"
    by fastforce
  then show "bit ?l n = bit w n"
    by cases (auto simp: be64_def bit_simps)
qed

lemma int_and_not_3: "(k :: int) AND NOT 3 = k - k mod 4"
proof -
  have "(k AND NOT m) + (k AND m) = (k AND NOT m) OR (k AND m)" for m
    by (rule disjunctive_add_eq_or) (rule bit_eqI, auto simp: bit_simps)
  moreover have "(k AND NOT m) OR (k AND m) = k" for m
    by (rule bit_eqI) (auto simp: bit_simps)
  ultimately have "(k AND NOT 3) + (k AND 3) = k" by metis
  then show ?thesis unfolding int_and_3 by linarith
qed

lemma round_up: "round4 n = n + xdr_pad n"
proof -
  have "(int n + 3) AND NOT 3 = int (n + xdr_pad n)"
    unfolding int_and_not_3 xdr_pad_add by (simp add: minus_mod_eq_div_mult zdiv_int)
  then show ?thesis unfolding round4_def by simp
qed

section \<open>The decoder satisfies the contract of its interface\<close>

context reader
begin

abbreviation pend :: "'r decoder \<Rightarrow> u8 list" where "pend d \<equiv> pending (dec_r d)"

text \<open>\<open>consumes r d\<close>: the call returns and leaves a suffix of the input.\<close>

definition consumes :: "('a \<times> gerror option \<times> 'r decoder) outcome \<Rightarrow> 'r decoder \<Rightarrow> bool" where
  "consumes m d \<longleftrightarrow> (\<exists>x err d'. m = Ret (x, err, d') \<and> suffix (pend d') (pend d))"

lemma ReadFull_obtain:
  obtains bs err s' where "ReadFull rd n s = Ret (bs, err, s')" "pending s = bs @ pending s'"
    "err = None \<longleftrightarrow> length bs = n"
  using ReadFull_returns [of n s] by blast

lemma ReadFull_exact:
  assumes "pending s = bs @ rest" "length bs = n"
  obtains s' where "ReadFull rd n s = Ret (bs, None, s')" "pending s' = rest"
  using ReadFull_enough [of n s] assms by auto

lemma DecodeUnsignedInt_consumes: "consumes (DecodeUnsignedInt rd d) d"
  by (rule ReadFull_obtain [of 4 "dec_r d"])
    (auto simp: consumes_def DecodeUnsignedInt_def Let_def suffix_def)

lemma DecodeUnsignedInt_ok:
  assumes "pend d = be32 i @ rest"
  obtains d' where "DecodeUnsignedInt rd d = Ret (i, None, d')" "pend d' = rest"
proof -
  obtain s' where "ReadFull rd 4 (dec_r d) = Ret (be32 i, None, s')" "pending s' = rest"
    by (rule ReadFull_exact [OF assms]) simp
  then show thesis
    using that [of "d\<lparr>dec_r := s'\<rparr>"] be32_join [of i] by (simp add: DecodeUnsignedInt_def Let_def)
qed

lemma DecodeUnsignedHyper_consumes: "consumes (DecodeUnsignedHyper rd d) d"
  by (rule ReadFull_obtain [of 8 "dec_r d"])
    (auto simp: consumes_def DecodeUnsignedHyper_def Let_def suffix_def)

lemma DecodeUnsignedHyper_ok:
  assumes "pend d = be64 i @ rest"
  obtains d' where "DecodeUnsignedHyper rd d = Ret (i, None, d')" "pend d' = rest"
proof -
  obtain s' where "ReadFull rd 8 (dec_r d) = Ret (be64 i, None, s')" "pending s' = rest"
    by (rule ReadFull_exact [OF assms]) simp
  then show thesis
    using that [of "d\<lparr>dec_r := s'\<rparr>"] be64_join [of i] by (simp add: DecodeUnsignedHyper_def Let_def)
qed

lemma consumes_map:
  "consumes m d \<Longrightarrow> (\<And>x err d'. \<exists>y err'. f (x, err, d') = Ret (y, err', d')) \<Longrightarrow> consumes (obind m f) d"
  unfolding consumes_def by force

lemma DecodeBool_consumes: "consumes (DecodeBool rd d) d"
  unfolding DecodeBool_def by (rule consumes_map [OF DecodeUnsignedInt_consumes]) auto

lemma DecodeOpaque_consumes:
  "consumes (DecodeOpaque M rd n d) d \<or> (\<exists>msg. DecodeOpaque M rd n d = Panic msg)"
proof -
  obtain l err d' where l: "DecodeUnsignedInt rd d = Ret (l, err, d')" "suffix (pend d') (pend d)"
    using DecodeUnsignedInt_consumes [of d] by (auto simp: consumes_def)
  obtain bs err' s' where "ReadFull rd (round4 (unat l)) (dec_r d') = Ret (bs, err', s')"
    "pending (dec_r d') = bs @ pending s'" by (rule ReadFull_obtain)
  moreover from this l(2) have "suffix (pending s') (pend d)"
    by (auto simp: suffix_def)
  ultimately show ?thesis
    using l by (auto simp: DecodeOpaque_def consumes_def Let_def)
qed

lemma DecodeFixedOpaque_consumes: "consumes (DecodeFixedOpaque rd buf d) d"
proof -
  obtain bs err s1 where 1: "ReadFull rd (length buf) (dec_r d) = Ret (bs, err, s1)"
    "pend d = bs @ pending s1" by (rule ReadFull_obtain)
  obtain bs' err' s2 where 2: "ReadFull rd (xdr_pad (length bs)) s1 = Ret (bs', err', s2)"
    "pending s1 = bs' @ pending s2" by (rule ReadFull_obtain)
  from 1 2 show ?thesis
    by (auto simp: DecodeFixedOpaque_def consumes_def Let_def round_up suffix_def)
qed

lemma DecodeFixedOpaque_ok:
  assumes "pend d = bs @ ps @ rest" "length bs = length buf" "length ps = xdr_pad (length buf)"
  obtains d' where "DecodeFixedOpaque rd buf d = Ret (bs, None, d')" "pend d' = rest"
proof -
  obtain s1 where 1: "ReadFull rd (length buf) (dec_r d) = Ret (bs, None, s1)" "pending s1 = ps @ rest"
    using ReadFull_exact [OF assms(1,2)] by blast
  obtain s2 where 2: "ReadFull rd (xdr_pad (length buf)) s1 = Ret (ps, None, s2)" "pending s2 = rest"
    using ReadFull_exact [OF 1(2) assms(3)] by blast
  show thesis
  proof (cases "xdr_pad (length buf) = 0")
    case True
    with 1 assms show thesis
      using that [of "d\<lparr>dec_r := s1\<rparr>"] by (simp add: DecodeFixedOpaque_def round_up overwrite_def Let_def)
  next
    case False
    with 1 2 assms show thesis
      using that [of "d\<lparr>dec_r := s2\<rparr>"] by (simp add: DecodeFixedOpaque_def round_up overwrite_def Let_def)
  qed
qed

lemma DecodeOpaque_ok:
  assumes "pend d = be32 (word_of_nat (length bs)) @ bs @ ps @ rest"
    and "length bs \<le> n" "length bs \<le> max_u32" "length bs + 3 \<le> M" "length ps = xdr_pad (length bs)"
  obtains d' where "DecodeOpaque M rd n d = Ret (bs, None, d')" "pend d' = rest"
proof -
  let ?l = "word_of_nat (length bs) :: u32"
  have l: "unat ?l = length bs" using assms(3) by (simp add: unat_of_nat max_u32_def)
  obtain d1 where 1: "DecodeUnsignedInt rd d = Ret (?l, None, d1)" "pend d1 = bs @ ps @ rest"
    by (rule DecodeUnsignedInt_ok [OF assms(1)])
  show thesis
  proof (cases "?l = 0")
    case True
    then have "bs = []" "ps = []" using l assms(5) by (auto simp: xdr_pad_def)
    with True 1 show thesis using that [of d1] by (simp add: DecodeOpaque_def)
  next
    case False
    obtain s2 where 2: "ReadFull rd (length bs + xdr_pad (length bs)) (dec_r d1) = Ret (bs @ ps, None, s2)"
      "pending s2 = rest"
      by (rule ReadFull_exact [of "dec_r d1" "bs @ ps" rest]) (use 1 assms(5) in auto)
    have "DecodeOpaque M rd n d = Ret (bs, None, d1\<lparr>dec_r := s2\<rparr>)"
      using 1 2 False l assms by (simp add: DecodeOpaque_def Let_def round_up)
    then show thesis using that 2 by simp
  qed
qed

lemma be32_bool: "be32 (if b then 1 else 0) = be32 (if b then 1 else (0 :: u32))"
  by simp

lemma decoder_answers:
  assumes "answers M k bs r" "pend d = bs @ rest"
  shows "\<exists>d'. decoder_call M rd k d = Ret (r, None, d') \<and> pend d' = rest"
  using assms
proof (cases rule: answers.cases)
  case (1 b)
  obtain d' where "DecodeUnsignedInt rd d = Ret (if b then 1 else 0, None, d')" "pend d' = rest"
    by (rule DecodeUnsignedInt_ok [of d "if b then 1 else 0"]) (use assms 1 in auto)
  with 1 show ?thesis by (cases b) (auto simp: reply_def DecodeBool_def)
next
  case (4 h)
  show ?thesis
    by (rule DecodeUnsignedHyper_ok [of d h rest]) (use assms 4 in \<open>auto simp: reply_def DecodeHyper_def\<close>)
next
  case (5 h)
  show ?thesis
    by (rule DecodeUnsignedHyper_ok [of d h rest]) (use assms 5 in \<open>auto simp: reply_def\<close>)
next
  case (7 f)
  show ?thesis
    by (rule DecodeUnsignedHyper_ok [of d f rest]) (use assms 7 in \<open>auto simp: reply_def DecodeDouble_def\<close>)
next
  case (8 bs n ps)
  show ?thesis
    by (rule DecodeOpaque_ok [of d bs ps rest n M]) (use assms 8 in \<open>auto simp: reply_def\<close>)
next
  case (9 bs buf ps)
  show ?thesis
    by (rule DecodeFixedOpaque_ok [of d bs ps rest buf]) (use assms 9 in \<open>auto simp: reply_def\<close>)
next
  case (10 bs n ps)
  show ?thesis
    by (rule DecodeOpaque_ok [of d bs ps rest n M]) (use assms 10 in \<open>auto simp: reply_def DecodeString_def\<close>)
next
  case (11 bs n ps)
  show ?thesis
    by (rule DecodeFixedOpaque_ok [of d bs ps rest "replicate n 0"])
      (use assms 11 in \<open>auto simp: reply_def DecodeFixedString_def\<close>)
qed (rule DecodeUnsignedInt_ok [of d _ rest], use assms(2) in force,
    force simp: reply_def DecodeInt_def DecodeFloat_def)+

lemma reply_consumes: "consumes m d \<Longrightarrow> consumes (reply f m) d"
  unfolding reply_def by (rule consumes_map) auto

lemma renamed_consumes:
  "consumes (DecodeInt rd d) d" "consumes (DecodeFloat rd d) d"
  "consumes (DecodeHyper rd d) d" "consumes (DecodeDouble rd d) d"
  unfolding DecodeInt_def DecodeFloat_def DecodeHyper_def DecodeDouble_def
  by (rule consumes_map [OF DecodeUnsignedInt_consumes] consumes_map [OF DecodeUnsignedHyper_consumes],
      simp)+

lemma DecodeString_consumes:
  "consumes (DecodeString M rd n d) d \<or> (\<exists>msg. DecodeString M rd n d = Panic msg)"
  using DecodeOpaque_consumes [of M n d]
proof
  assume "consumes (DecodeOpaque M rd n d) d"
  then have "consumes (DecodeString M rd n d) d"
    unfolding DecodeString_def by (rule consumes_map) auto
  then show ?thesis ..
qed (auto simp: DecodeString_def)

lemma decoder_consumes:
  "consumes (decoder_call M rd k d) d \<or> (\<exists>msg. decoder_call M rd k d = Panic msg)"
proof (cases k)
  case (DecOpaque n)
  show ?thesis
    using DecodeOpaque_consumes [of M n d] reply_consumes [of "DecodeOpaque M rd n d" d RBytes]
    by (auto simp: DecOpaque reply_def)
next
  case (DecString n)
  show ?thesis
    using DecodeString_consumes [of M n d] reply_consumes [of "DecodeString M rd n d" d RBytes]
    by (auto simp: DecString reply_def)
qed (simp_all add: DecodeFixedString_def reply_consumes DecodeUnsignedInt_consumes DecodeBool_consumes
      DecodeUnsignedHyper_consumes DecodeFixedOpaque_consumes renamed_consumes)

lemma decoder_is_iface: "decoder_iface M (decoder_call M rd) pend"
proof (unfold_locales, goal_cases)
  case 1
  then show ?case by (rule decoder_answers)
next
  case (2 k d r err d')
  then show ?case using decoder_consumes [of M k d] by (auto simp: consumes_def)
next
  case (3 k d)
  show ?case using decoder_consumes [of M k d] by (auto simp: consumes_def)
qed

end

interpretation bytes_decoder: decoder_iface M "decoder_call M bytes_read" "\<lambda>d. dec_r d" for M
  by (rule bytes_reader.decoder_is_iface)

interpretation piece_decoder: decoder_iface M "decoder_call M piece_read" "\<lambda>d. src_data (dec_r d)" for M
  by (rule piece_reader.decoder_is_iface)

section \<open>Truncated input\<close>

context reader
begin

text \<open>
  What \<open>DecodeOpaque\<close> makes of a body that ends early: the missing bytes read as zero and
  no error is reported, since the error of the second read is dropped.
\<close>

lemma DecodeOpaque_truncated:
  assumes "pend d = be32 (word_of_nat k) @ body" and "0 < k" "k \<le> n" "k \<le> max_u32" "k + 3 \<le> M"
    and "length body < k"
  obtains d' where "DecodeOpaque M rd n d = Ret (fill k body, None, d')" "pend d' = []"
proof -
  let ?l = "word_of_nat k :: u32"
  have l: "unat ?l = k" using assms(4) by (simp add: unat_of_nat max_u32_def)
  with assms(2) have nz: "?l \<noteq> 0" by auto
  obtain d1 where 1: "DecodeUnsignedInt rd d = Ret (?l, None, d1)" "pend d1 = body"
    by (rule DecodeUnsignedInt_ok [OF assms(1)])
  obtain s2 e where 2: "ReadFull rd (k + xdr_pad k) (dec_r d1) = Ret (body, Some e, s2)" "pending s2 = []"
    using ReadFull_short [of "dec_r d1" "k + xdr_pad k"] 1 assms by auto
  have "take k (fill (k + xdr_pad k) body) = fill k body"
    using assms(6) by (simp add: fill_def min_def)
  then have "DecodeOpaque M rd n d = Ret (fill k body, None, d1\<lparr>dec_r := s2\<rparr>)"
    using 1 2 nz l assms by (simp add: DecodeOpaque_def Let_def round_up)
  then show thesis using that 2 by simp
qed

end

section \<open>Properties\<close>

text \<open>
  C9. On every lawful reader, in whatever pieces it delivers its data, a primitive decoding
  method that finds the answer to its call at the front of the input returns it without
  error and consumes exactly those bytes, padding included; and it never blocks.
\<close>

theorem decoder_reads_wire_format:
  assumes "reader rd pending finals wt" and "answers M k bs r" and "pending (dec_r d) = bs @ rest"
  shows "(\<exists>d'. decoder_call M rd k d = Ret (r, None, d') \<and> pending (dec_r d') = rest)
     \<and> decoder_call M rd k' d \<noteq> Blocked"
  using decoder_iface.answer_law [OF reader.decoder_is_iface [OF assms(1)] assms(2,3)]
    decoder_iface.never_hangs [OF reader.decoder_is_iface [OF assms(1)]] by blast

theorem decoder_reads_wire_format_witness:
  "\<exists>d'. decoder_call 100 piece_read (DecString 8)
     \<lparr>dec_r = \<lparr>src_data = be32 2 @ [72, 105] @ [0, 0] @ [9], src_chunks = [1, 0, 3], src_failure = EOF,
        src_eager = True\<rparr>, dec_cr = 0\<rparr>
     = Ret (RBytes [72, 105], None, d') \<and> src_data (dec_r d') = [9]"
  using decoder_reads_wire_format [OF piece_reader.reader_axioms, of 100 "DecString 8"
      "be32 2 @ [72, 105] @ [0, 0]" "RBytes [72, 105]"
      "\<lparr>dec_r = \<lparr>src_data = be32 2 @ [72, 105] @ [0, 0] @ [9], src_chunks = [1, 0, 3], src_failure = EOF,
        src_eager = True\<rparr>, dec_cr = 0\<rparr>" "[9]"]
    answers.intros(10) [of "[72, 105]" 8 100 "[0, 0]"]
  by (simp add: max_u32_def xdr_pad_def)

text \<open>
  C10. \<open>DecodeOpaque\<close> (and with it every variable-length opaque and string) does not notice
  that the input ends inside the body: on any lawful reader it reports success and fills
  the missing bytes with zeros.
\<close>

theorem truncated_opaque_is_accepted:
  assumes "reader rd pending finals wt"
    and "pending (dec_r d) = be32 (word_of_nat k) @ body"
    and "length body < k" and "k \<le> n" and "k \<le> max_u32" and "k + 3 \<le> M"
  shows "\<exists>d'. DecodeOpaque M rd n d = Ret (body @ replicate (k - length body) 0, None, d')
     \<and> pending (dec_r d') = []"
proof -
  have "0 < k" using assms(3) by simp
  from reader.DecodeOpaque_truncated [OF assms(1,2) this assms(4-6,3)]
  obtain d' where "DecodeOpaque M rd n d = Ret (fill k body, None, d')" "pending (dec_r d') = []" .
  then show ?thesis using assms(3) by (simp add: fill_def)
qed

theorem truncated_opaque_is_accepted_witness:
  "\<exists>d'. DecodeOpaque 1000 bytes_read 64 \<lparr>dec_r = be32 6 @ [1, 2], dec_cr = 0\<rparr>
     = Ret ([1, 2, 0, 0, 0, 0], None, d')"
proof -
  have "replicate (6 - length [1, 2 :: u8]) 0 = [0, 0, 0, 0 :: u8]"
    by (simp add: numeral_eq_Suc)
  then show ?thesis
    using truncated_opaque_is_accepted [OF bytes_reader.reader_axioms,
      of "\<lparr>dec_r = be32 6 @ [1, 2], dec_cr = 0\<rparr>" 6 "[1, 2]" 64 1000]
    by (auto simp: max_u32_def)
qed

text \<open>
  C39. What \<open>DecodeOpaque\<close> does with a length, on any lawful reader: it refuses lengths beyond
  the maximum before it allocates or reads anything of the body, and returns exactly as many
  bytes as the length says otherwise. It panics in one case: the length is not above the
  maximum but the largest int is below the length plus 3 (possible only where int has 32
  bits).
\<close>

theorem opaque_length_limits:
  assumes "reader rd pending finals wt" and "pending (dec_r d) = be32 l @ rest"
  shows "case DecodeOpaque M rd n d of
      Ret (bs, err, d') \<Rightarrow>
        if l = 0 then bs = [] \<and> err = None \<and> pending (dec_r d') = rest
        else if n < unat l then bs = [] \<and> err = Some (LengthError (ucast l) (word_of_nat n)) \<and> pending (dec_r d') = rest
        else unat l + 3 \<le> M \<and> length bs = unat l \<and> err = None
    | Panic msg \<Rightarrow> 0 < unat l \<and> unat l \<le> n \<and> M < unat l + 3
    | _ \<Rightarrow> False"
proof -
  obtain d1 where 1: "DecodeUnsignedInt rd d = Ret (l, None, d1)" "pending (dec_r d1) = rest"
    by (rule reader.DecodeUnsignedInt_ok [OF assms])
  obtain bs err s' where 2: "ReadFull rd (round4 (unat l)) (dec_r d1) = Ret (bs, err, s')"
    "pending (dec_r d1) = bs @ pending s'"
    by (rule reader.ReadFull_obtain [OF assms(1)])
  have "length (fill (round4 (unat l)) bs) = round4 (unat l)" if "length bs \<le> round4 (unat l)" for bs
    using that by (simp add: fill_def)
  then show ?thesis
    using 1 2 by (auto simp: DecodeOpaque_def Let_def round_up unat_gt_0 fill_def)
qed

theorem opaque_length_limits_witness:
  "\<exists>msg. DecodeOpaque (2 ^ 31 - 1) bytes_read (2 ^ 31 - 1) \<lparr>dec_r = be32 0x7FFFFFFE, dec_cr = 0\<rparr> = Panic msg"
proof (cases "DecodeOpaque (2 ^ 31 - 1) bytes_read (2 ^ 31 - 1) \<lparr>dec_r = be32 0x7FFFFFFE, dec_cr = 0\<rparr>")
  case (Ret x)
  then show ?thesis
    using opaque_length_limits [OF bytes_reader.reader_axioms, of "\<lparr>dec_r = be32 0x7FFFFFFE, dec_cr = 0\<rparr>" "0x7FFFFFFE" "[]"
        "2 ^ 31 - 1" "2 ^ 31 - 1"] by (cases x) auto
qed (use opaque_length_limits [OF bytes_reader.reader_axioms, of "\<lparr>dec_r = be32 0x7FFFFFFE, dec_cr = 0\<rparr>" "0x7FFFFFFE" "[]"
        "2 ^ 31 - 1" "2 ^ 31 - 1"] in auto)

end
