(* ===== verification/CodecEnc.thy ===== *)
theory CodecEnc
  imports Codecs
begin

text \<open>
  The \<open>Encode\<close> methods of the codecs (\<open>codec_primitive.go\<close>, \<open>codec_string.go\<close>,
  \<open>codec_array.go\<close>, \<open>codec_map.go\<close>, \<open>codec_ptr.go\<close>, \<open>codec_struct.go\<close>,
  \<open>codec_special.go\<close>; those of pointers and structs as in the \<open>nounsafe\<close> build), one
  definition per method over any implementation \<open>E\<close> of the \<open>Encoder\<close> interface, and their
  dispatch \<open>enc\<close>. A method that calls the methods of inner codecs takes them as an
  argument.
\<close>

section \<open>Results\<close>

type_synonym 'e enc_result = "(gerror option \<times> 'e) outcome"
type_synonym 'e encode_fn = "gvalue \<Rightarrow> 'e \<Rightarrow> 'e enc_result"

text \<open>\<open>if err := m; err != nil { return err }\<close> and then \<open>k\<close>.\<close>

definition enc_then :: "'e enc_result \<Rightarrow> ('e \<Rightarrow> 'e enc_result) \<Rightarrow> 'e enc_result" where
  "enc_then m k = obind m (\<lambda>(err, e). if err \<noteq> None then Ret (err, e) else k e)"

definition reflected :: "'a option \<Rightarrow> 'a outcome" where
  "reflected x = of_option ''reflect: call on a value of the wrong kind'' x"

text \<open>Running foreign code on an encoder.\<close>

primrec run_enc :: "'e encoder_fn \<Rightarrow> enc_prog \<Rightarrow> 'e \<Rightarrow> gerror option \<times> 'e" where
  "run_enc E (EDone err) e = (err, e)"
| "run_enc E (ECall c k) e = (case E c e of (err, e') \<Rightarrow> run_enc E (k err) e')"

section \<open>Primitive codecs\<close>

definition boolCodec_Encode :: "'e encoder_fn \<Rightarrow> 'e encode_fn" where
  "boolCodec_Encode E v e = obind (reflected (v_Bool v)) (\<lambda>b. Ret (E (EncBool b) e))"

text \<open>\<open>int32(v.Int())\<close> and \<open>uint32(v.Uint())\<close> truncate to 32 bits.\<close>

definition intCodec_Encode :: "'e encoder_fn \<Rightarrow> 'e encode_fn" where
  "intCodec_Encode E v e = obind (reflected (v_Int v)) (\<lambda>i. Ret (E (EncInt (ucast i)) e))"

definition uintCodec_Encode :: "'e encoder_fn \<Rightarrow> 'e encode_fn" where
  "uintCodec_Encode E v e = obind (reflected (v_Uint v)) (\<lambda>i. Ret (E (EncUnsignedInt (ucast i)) e))"

definition hyperCodec_Encode :: "'e encoder_fn \<Rightarrow> 'e encode_fn" where
  "hyperCodec_Encode E v e = obind (reflected (v_Int v)) (\<lambda>i. Ret (E (EncHyper i) e))"

definition uhyperCodec_Encode :: "'e encoder_fn \<Rightarrow> 'e encode_fn" where
  "uhyperCodec_Encode E v e = obind (reflected (v_Uint v)) (\<lambda>i. Ret (E (EncUnsignedHyper i) e))"

definition floatCodec_Encode :: "'e encoder_fn \<Rightarrow> 'e encode_fn" where
  "floatCodec_Encode E v e = obind (reflected (v_Float32 v)) (\<lambda>f. Ret (E (EncFloat f) e))"

definition doubleCodec_Encode :: "'e encoder_fn \<Rightarrow> 'e encode_fn" where
  "doubleCodec_Encode E v e = obind (reflected (v_Float64 v)) (\<lambda>f. Ret (E (EncDouble f) e))"

definition complex64Codec_Encode :: "'e encoder_fn \<Rightarrow> 'e encode_fn" where
  "complex64Codec_Encode E v e = obind (reflected (v_Complex64 v)) (\<lambda>(re, im).
     enc_then (Ret (E (EncFloat re) e)) (\<lambda>e'. Ret (E (EncFloat im) e')))"

definition complex128Codec_Encode :: "'e encoder_fn \<Rightarrow> 'e encode_fn" where
  "complex128Codec_Encode E v e = obind (reflected (v_Complex128 v)) (\<lambda>(re, im).
     enc_then (Ret (E (EncDouble re) e)) (\<lambda>e'. Ret (E (EncDouble im) e')))"

section \<open>Strings\<close>

definition fixedString_encode :: "nat \<Rightarrow> 'e encoder_fn \<Rightarrow> u8 list \<Rightarrow> 'e \<Rightarrow> 'e enc_result" where
  "fixedString_encode len E s e =
     (if length s = len then Ret (E (EncFixedString s) e) else Ret (Some ErrLengthIncorrect, e))"

definition fixedStringCodec_Encode :: "nat \<Rightarrow> 'e encoder_fn \<Rightarrow> 'e encode_fn" where
  "fixedStringCodec_Encode len E v e =
     obind (reflected (v_String v)) (\<lambda>s. fixedString_encode len E s e)"

definition varString_encode ::
  "nat \<Rightarrow> u32 \<Rightarrow> 'e encoder_fn \<Rightarrow> u8 list \<Rightarrow> 'e \<Rightarrow> 'e enc_result" where
  "varString_encode maxlen origMax E s e =
     (if length s \<le> maxlen then Ret (E (EncString s) e)
      else Ret (Some (LengthError (word_of_nat (length s)) (ucast origMax)), e))"

definition varStringCodec_Encode :: "nat \<Rightarrow> u32 \<Rightarrow> 'e encoder_fn \<Rightarrow> 'e encode_fn" where
  "varStringCodec_Encode maxlen origMax E v e =
     obind (reflected (v_String v)) (\<lambda>s. varString_encode maxlen origMax E s e)"

section \<open>Arrays and slices\<close>

text \<open>
  The copy of an array that is not addressable has the same bytes as the array. \<open>Bytes\<close> needs
  elements of kind Uint8.
\<close>

definition opaqueArrayCodec_Encode :: "genv \<Rightarrow> gtype \<Rightarrow> 'e encoder_fn \<Rightarrow> 'e encode_fn" where
  "opaqueArrayCodec_Encode G t E v e = obind (reflected (array_elems v)) (\<lambda>vs.
     obind (reflected (if byte_kind (g_types G) t then bytes_of vs else None)) (\<lambda>s. Ret (E (EncFixedOpaque s) e)))"

fun enc_elems :: "'e encode_fn \<Rightarrow> gvalue list \<Rightarrow> 'e \<Rightarrow> 'e enc_result" where
  "enc_elems f [] e = Ret (None, e)"
| "enc_elems f (v # vs) e = enc_then (f v e) (\<lambda>e'. enc_elems f vs e')"

definition arrayCodec_Encode :: "'e encode_fn \<Rightarrow> 'e encode_fn" where
  "arrayCodec_Encode elem v e = obind (reflected (array_elems v)) (\<lambda>vs. enc_elems elem vs e)"

definition opaqueSliceCodec_Encode :: "genv \<Rightarrow> gtype \<Rightarrow> nat \<Rightarrow> u32 \<Rightarrow> 'e encoder_fn \<Rightarrow> 'e encode_fn" where
  "opaqueSliceCodec_Encode G t maxlen origMax E v e = obind (reflected (slice_elems v)) (\<lambda>vs.
     obind (reflected (if byte_kind (g_types G) t then bytes_of vs else None)) (\<lambda>s.
       if length s > maxlen
       then Ret (Some (LengthError (word_of_nat (length s)) (ucast origMax)), e)
       else Ret (E (EncOpaque s) e)))"

definition sliceCodec_Encode :: "nat \<Rightarrow> u32 \<Rightarrow> 'e encoder_fn \<Rightarrow> 'e encode_fn \<Rightarrow> 'e encode_fn" where
  "sliceCodec_Encode maxlen origMax E elem v e = obind (reflected (slice_elems v)) (\<lambda>vs.
     let l = length vs in
     if l > maxlen then Ret (Some (LengthError (word_of_nat l) (ucast origMax)), e)
     else enc_then (Ret (E (EncUnsignedInt (word_of_nat l)) e)) (\<lambda>e'. enc_elems elem vs e'))"

section \<open>Maps\<close>

fun map_entries :: "gvalue \<Rightarrow> (gvalue \<times> gvalue) list option" where
  "map_entries (VMap None) = Some []" | "map_entries (VMap (Some kvs)) = Some kvs"
| "map_entries _ = None"

fun enc_entries :: "'e encode_fn \<Rightarrow> 'e encode_fn \<Rightarrow> (gvalue \<times> gvalue) list \<Rightarrow> 'e \<Rightarrow> 'e enc_result" where
  "enc_entries kc vc [] e = Ret (None, e)"
| "enc_entries kc vc ((k, v) # kvs) e =
     enc_then (kc k e) (\<lambda>e'. enc_then (vc v e') (\<lambda>e''. enc_entries kc vc kvs e''))"

definition mapCodec_Encode ::
  "nat \<Rightarrow> u32 \<Rightarrow> 'e encoder_fn \<Rightarrow> 'e encode_fn \<Rightarrow> 'e encode_fn \<Rightarrow> 'e encode_fn" where
  "mapCodec_Encode maxlen origMax E kc vc v e = obind (reflected (map_entries v)) (\<lambda>kvs.
     let l = length kvs in
     if l > maxlen then Ret (Some (LengthError (word_of_nat l) (ucast origMax)), e)
     else enc_then (Ret (E (EncUnsignedInt (word_of_nat l)) e)) (\<lambda>e'. enc_entries kc vc kvs e'))"

section \<open>Pointers and optional values\<close>

text \<open>\<open>v.Elem()\<close> on a non-nil pointer or interface.\<close>

fun v_Elem :: "gvalue \<Rightarrow> gvalue option" where
  "v_Elem (VPtr (Some x)) = Some x" | "v_Elem (VIface (Some (t, x))) = Some x" | "v_Elem _ = None"

definition ptrCodec_Encode :: "'e encode_fn \<Rightarrow> 'e encode_fn" where
  "ptrCodec_Encode elem v e = obind (reflected (v_IsNil v)) (\<lambda>isNil.
     if isNil then Ret (Some ErrNilPointer, e) else obind (reflected (v_Elem v)) (\<lambda>x. elem x e))"

definition optCodec_Encode :: "'e encoder_fn \<Rightarrow> 'e encode_fn \<Rightarrow> 'e encode_fn" where
  "optCodec_Encode E elem v e = obind (reflected (v_IsNil v)) (\<lambda>isNil.
     enc_then (Ret (E (EncBool (\<not> isNil)) e)) (\<lambda>e'. if isNil then Ret (None, e') else elem v e'))"

section \<open>Structs and unions\<close>

text \<open>\<open>field.encode\<close> also returns the field's value; \<open>rc\<close> runs an inner codec.\<close>

definition field_encode ::
  "('c \<Rightarrow> 'e encode_fn) \<Rightarrow> 'c field \<Rightarrow> gvalue \<Rightarrow> 'e \<Rightarrow> (gvalue \<times> gerror option \<times> 'e) outcome" where
  "field_encode rc f p e = obind (reflected (v_Field p (f_index f))) (\<lambda>v.
     obind (rc (f_codec f) v e) (\<lambda>(err, e'). Ret (v, err, e')))"

fun struct_encodeReflect ::
  "('c \<Rightarrow> 'e encode_fn) \<Rightarrow> string \<Rightarrow> 'c field list \<Rightarrow> 'e encode_fn" where
  "struct_encodeReflect rc name [] v e = Ret (None, e)"
| "struct_encodeReflect rc name (f # fs) v e =
     obind (field_encode rc f v e) (\<lambda>(_, err, e').
       if err \<noteq> None then Ret (WithFieldError err [name, f_name f], e')
       else struct_encodeReflect rc name fs v e')"

definition union_swVal :: "switch_kind \<Rightarrow> gvalue \<Rightarrow> u32 outcome" where
  "union_swVal switchKind swv = (case switchKind of
      SwitchBool \<Rightarrow> obind (reflected (v_Bool swv)) (\<lambda>b. Ret (if b then 1 else 0))
    | SwitchUint \<Rightarrow> obind (reflected (v_Uint swv)) (\<lambda>i. Ret (ucast i))
    | SwitchInt \<Rightarrow> obind (reflected (v_Int swv)) (\<lambda>i. Ret (ucast i)))"

definition union_case :: "(u32 \<times> nat) list \<Rightarrow> int \<Rightarrow> u32 \<Rightarrow> int" where
  "union_case cases dflt swVal = (case map_of cases swVal of Some i \<Rightarrow> int i | None \<Rightarrow> dflt)"

definition undefined_arm :: "string \<Rightarrow> int \<Rightarrow> gerror option" where
  "undefined_arm name caseField =
     WithFieldError (Some ErrUnionSwitchArmUndefined) [name, ''?'', ''union:0x'' @ show_hex_int caseField]"

definition arm_error :: "string \<Rightarrow> string \<Rightarrow> u32 \<Rightarrow> gerror option \<Rightarrow> gerror option" where
  "arm_error name fname swVal err =
     (if err \<noteq> None then WithFieldError err [name, fname, ''union:0x'' @ show_hex (unat swVal)] else err)"

text \<open>
  \<open>bodyFields[caseField]\<close>: an entry that no case filled is a zero \<open>field\<close>, whose nil codec
  panics when called.
\<close>

definition body_field :: "'c field option list \<Rightarrow> int \<Rightarrow> 'c field outcome" where
  "body_field body i = (if 0 \<le> i \<and> nat i < length body
     then of_option ''nil pointer dereference'' (body ! nat i) else Panic ''index out of range'')"

definition union_encodeReflect ::
  "('c \<Rightarrow> 'e encode_fn) \<Rightarrow> string \<Rightarrow> 'c field \<Rightarrow> 'c field option list \<Rightarrow> (u32 \<times> nat) list
     \<Rightarrow> int \<Rightarrow> switch_kind \<Rightarrow> 'e encode_fn" where
  "union_encodeReflect rc name switchField bodyFields cases defaultCase switchKind v e =
     obind (field_encode rc switchField v e) (\<lambda>(swv, err, e1).
       if err \<noteq> None then Ret (WithFieldError err [name, f_name switchField, ''union:switch''], e1)
       else obind (union_swVal switchKind swv) (\<lambda>swVal.
         let caseField = union_case cases defaultCase swVal in
         if caseField = -1 then Ret (undefined_arm name caseField, e1)
         else obind (body_field bodyFields caseField) (\<lambda>f.
           obind (field_encode rc f v e1) (\<lambda>(_, err2, e2).
             Ret (arm_error name (f_name f) swVal err2, e2)))))"

text \<open>\<open>Encode\<close> of the \<open>nounsafe\<close> build.\<close>

definition structCodec_Encode :: "('c \<Rightarrow> 'e encode_fn) \<Rightarrow> string \<Rightarrow> 'c field list \<Rightarrow> 'e encode_fn" where
  [simp]: "structCodec_Encode rc name fs = struct_encodeReflect rc name fs"

definition unionCodec_Encode ::
  "('c \<Rightarrow> 'e encode_fn) \<Rightarrow> string \<Rightarrow> 'c field \<Rightarrow> 'c field option list \<Rightarrow> (u32 \<times> nat) list
     \<Rightarrow> int \<Rightarrow> switch_kind \<Rightarrow> 'e encode_fn" where
  [simp]: "unionCodec_Encode rc name sw body cases dflt sk = union_encodeReflect rc name sw body cases dflt sk"

section \<open>Special codecs\<close>

definition errorCodec_Encode :: "gerror \<Rightarrow> 'e encode_fn" where
  [simp]: "errorCodec_Encode err v e = Ret (Some err, e)"

text \<open>
  \<open>v.Interface().(Marshaler).MarshalXDR(e)\<close>: the value in an interface variable, or the
  value itself.
\<close>

definition marshalerCodec_Encode :: "genv \<Rightarrow> gtype \<Rightarrow> 'e encoder_fn \<Rightarrow> 'e encode_fn" where
  "marshalerCodec_Encode G t E v e = (case v of
      VIface None \<Rightarrow> Panic ''interface conversion: interface is nil''
    | VIface (Some (t', x)) \<Rightarrow> Ret (run_enc E (g_marshal G t' x) e)
    | _ \<Rightarrow> Ret (run_enc E (g_marshal G t v) e))"

definition deferredCodec_Encode ::
  "genv \<Rightarrow> nat \<Rightarrow> (codec \<Rightarrow> 'e encode_fn) \<Rightarrow> 'e encode_fn" where
  "deferredCodec_Encode G k rc v e = (case g_real G k of None \<Rightarrow> Blocked | Some c \<Rightarrow> rc c v e)"

section \<open>Dispatch\<close>

text \<open>
  \<open>c.Encode(e, v)\<close> with a bound on the depth of nested calls; a value is a finite tree,
  but the codecs of recursive types are cyclic through \<open>CDeferred\<close>.
\<close>

primrec enc :: "nat \<Rightarrow> genv \<Rightarrow> 'e encoder_fn \<Rightarrow> codec \<Rightarrow> 'e encode_fn" where
  "enc 0 G E c v e = Spent"
| "enc (Suc n) G E c v e = (case c of
      CBool \<Rightarrow> boolCodec_Encode E v e
    | CInt8 \<Rightarrow> intCodec_Encode E v e | CInt16 \<Rightarrow> intCodec_Encode E v e | CInt32 \<Rightarrow> intCodec_Encode E v e
    | CUint8 \<Rightarrow> uintCodec_Encode E v e | CUint16 \<Rightarrow> uintCodec_Encode E v e
    | CUint32 \<Rightarrow> uintCodec_Encode E v e
    | CHyper \<Rightarrow> hyperCodec_Encode E v e | CUhyper \<Rightarrow> uhyperCodec_Encode E v e
    | CFloat \<Rightarrow> floatCodec_Encode E v e | CDouble \<Rightarrow> doubleCodec_Encode E v e
    | CComplex64 \<Rightarrow> complex64Codec_Encode E v e | CComplex128 \<Rightarrow> complex128Codec_Encode E v e
    | CFixedString len \<Rightarrow> fixedStringCodec_Encode len E v e
    | CVarString maxlen origMax \<Rightarrow> varStringCodec_Encode maxlen origMax E v e
    | COpaqueArray t len \<Rightarrow> opaqueArrayCodec_Encode G t E v e
    | CArray ec len sz \<Rightarrow> arrayCodec_Encode (enc n G E ec) v e
    | COpaqueSlice t maxlen origMax \<Rightarrow> opaqueSliceCodec_Encode G t maxlen origMax E v e
    | CSlice ec et maxlen sz origMax \<Rightarrow> sliceCodec_Encode maxlen origMax E (enc n G E ec) v e
    | CPtr ec et \<Rightarrow> ptrCodec_Encode (enc n G E ec) v e
    | COpt ec nilp \<Rightarrow> optCodec_Encode E (enc n G E ec) v e
    | CMap kc vc kt vt maxlen origMax \<Rightarrow>
        mapCodec_Encode maxlen origMax E (enc n G E kc) (enc n G E vc) v e
    | CStruct name fs \<Rightarrow> structCodec_Encode (enc n G E) name fs v e
    | CUnion name sw body cases dflt sk \<Rightarrow>
        unionCodec_Encode (enc n G E) name sw body cases dflt sk v e
    | CError err \<Rightarrow> errorCodec_Encode err v e
    | CDeferred k \<Rightarrow> deferredCodec_Encode G k (enc n G E) v e
    | CMarshaler t \<Rightarrow> marshalerCodec_Encode G t E v e
    | CForeign k \<Rightarrow> Ret (run_enc E (g_foreign_enc G k v) e)
    | CWrapper wc t \<Rightarrow> enc n G E wc v e)"

text \<open>The method of each codec as a function.\<close>

lemma enc_unfold:
  "enc (Suc n) G E CBool = boolCodec_Encode E"
  "enc (Suc n) G E CInt8 = intCodec_Encode E"
  "enc (Suc n) G E CInt16 = intCodec_Encode E"
  "enc (Suc n) G E CInt32 = intCodec_Encode E"
  "enc (Suc n) G E CUint8 = uintCodec_Encode E"
  "enc (Suc n) G E CUint16 = uintCodec_Encode E"
  "enc (Suc n) G E CUint32 = uintCodec_Encode E"
  "enc (Suc n) G E CHyper = hyperCodec_Encode E"
  "enc (Suc n) G E CUhyper = uhyperCodec_Encode E"
  "enc (Suc n) G E CFloat = floatCodec_Encode E"
  "enc (Suc n) G E CDouble = doubleCodec_Encode E"
  "enc (Suc n) G E CComplex64 = complex64Codec_Encode E"
  "enc (Suc n) G E CComplex128 = complex128Codec_Encode E"
  "enc (Suc n) G E (CFixedString k) = fixedStringCodec_Encode k E"
  "enc (Suc n) G E (CVarString m om) = varStringCodec_Encode m om E"
  "enc (Suc n) G E (COpaqueArray t k) = opaqueArrayCodec_Encode G t E"
  "enc (Suc n) G E (CArray c k sz) = arrayCodec_Encode (enc n G E c)"
  "enc (Suc n) G E (COpaqueSlice t m om) = opaqueSliceCodec_Encode G t m om E"
  "enc (Suc n) G E (CSlice c t m sz om) = sliceCodec_Encode m om E (enc n G E c)"
  "enc (Suc n) G E (CPtr c t) = ptrCodec_Encode (enc n G E c)"
  "enc (Suc n) G E (COpt c nilp) = optCodec_Encode E (enc n G E c)"
  "enc (Suc n) G E (CMap kc vc kt vt m om) = mapCodec_Encode m om E (enc n G E kc) (enc n G E vc)"
  "enc (Suc n) G E (CStruct name fs) = struct_encodeReflect (enc n G E) name fs"
  "enc (Suc n) G E (CUnion name sw body cases dflt sk) = union_encodeReflect (enc n G E) name sw body cases dflt sk"
  "enc (Suc n) G E (CDeferred k) = deferredCodec_Encode G k (enc n G E)"
  "enc (Suc n) G E (CMarshaler t) = marshalerCodec_Encode G t E"
  "enc (Suc n) G E (CWrapper c t) = enc n G E c"
  by (intro ext, simp)+

end
