(* ===== verification/CodecDec.thy ===== *)
theory CodecDec
  imports CodecEnc
begin

text \<open>
  The \<open>Decode\<close> methods of the codecs (those of pointers and structs as in the \<open>nounsafe\<close>
  build) over any implementation \<open>D\<close> of the \<open>Decoder\<close> interface, and their dispatch \<open>dec\<close>.
  A method takes the current value of the addressable \<open>reflect.Value\<close> it decodes into and
  returns the value that is left there, also when it fails.
\<close>

section \<open>Results\<close>

type_synonym 'd dec_result = "(gerror option \<times> gvalue \<times> 'd) outcome"
type_synonym 'd decode_fn = "gvalue \<Rightarrow> 'd \<Rightarrow> 'd dec_result"

text \<open>What a call of the \<open>Decoder\<close> interface returned, at the type of its method.\<close>

fun rep_bool :: "dec_reply \<Rightarrow> bool" where "rep_bool (RBool b) = b" | "rep_bool _ = False"
fun rep32 :: "dec_reply \<Rightarrow> u32" where "rep32 (R32 w) = w" | "rep32 _ = 0"
fun rep64 :: "dec_reply \<Rightarrow> u64" where "rep64 (R64 w) = w" | "rep64 _ = 0"
fun rep_bytes :: "dec_reply \<Rightarrow> u8 list" where "rep_bytes (RBytes bs) = bs" | "rep_bytes _ = []"

text \<open>\<open>x, err := call(); v.SetX(x); return err\<close>: the value is set even if the call failed.\<close>

definition dec_set :: "'d decoder_fn \<Rightarrow> dec_call \<Rightarrow> (dec_reply \<Rightarrow> gvalue option) \<Rightarrow> 'd \<Rightarrow> 'd dec_result" where
  "dec_set D k put d = obind (D k d) (\<lambda>(r, err, d').
     obind (reflected (put r)) (\<lambda>v'. Ret (err, v', d')))"

text \<open>\<open>m\<close>, and if it reported an error, return with the value \<open>v\<close>; else \<open>k\<close>.\<close>

definition dec_then ::
  "('a \<times> gerror option \<times> 'd) outcome \<Rightarrow> gvalue \<Rightarrow> ('a \<Rightarrow> 'd \<Rightarrow> 'd dec_result) \<Rightarrow> 'd dec_result" where
  "dec_then m v k = obind m (\<lambda>(r, err, d'). if err \<noteq> None then Ret (err, v, d') else k r d')"

primrec run_dec :: "'d decoder_fn \<Rightarrow> 'a dec_prog \<Rightarrow> 'd \<Rightarrow> (gerror option \<times> 'a \<times> 'd) outcome" where
  "run_dec D (DDone err v) d = Ret (err, v, d)"
| "run_dec D (DCall c k) d = obind (D c d) (\<lambda>(r, err, d'). run_dec D (k r err) d')"

section \<open>Primitive codecs\<close>

definition boolCodec_Decode :: "'d decoder_fn \<Rightarrow> 'd decode_fn" where
  "boolCodec_Decode D v d = dec_set D DecBool (\<lambda>r. v_SetBool v (rep_bool r)) d"

text \<open>\<open>int64(i)\<close> extends the sign and \<open>SetInt\<close> truncates to the width of \<open>v\<close>.\<close>

definition intCodec_Decode :: "'d decoder_fn \<Rightarrow> 'd decode_fn" where
  "intCodec_Decode D v d = dec_set D DecInt (\<lambda>r. v_SetInt v (scast (rep32 r))) d"

definition uintCodec_Decode :: "'d decoder_fn \<Rightarrow> 'd decode_fn" where
  "uintCodec_Decode D v d = dec_set D DecUnsignedInt (\<lambda>r. v_SetUint v (ucast (rep32 r))) d"

definition hyperCodec_Decode :: "'d decoder_fn \<Rightarrow> 'd decode_fn" where
  "hyperCodec_Decode D v d = dec_set D DecHyper (\<lambda>r. v_SetInt v (rep64 r)) d"

definition uhyperCodec_Decode :: "'d decoder_fn \<Rightarrow> 'd decode_fn" where
  "uhyperCodec_Decode D v d = dec_set D DecUnsignedHyper (\<lambda>r. v_SetUint v (rep64 r)) d"

definition floatCodec_Decode :: "'d decoder_fn \<Rightarrow> 'd decode_fn" where
  "floatCodec_Decode D v d = dec_set D DecFloat (\<lambda>r. v_SetFloat32 v (rep32 r)) d"

definition doubleCodec_Decode :: "'d decoder_fn \<Rightarrow> 'd decode_fn" where
  "doubleCodec_Decode D v d = dec_set D DecDouble (\<lambda>r. v_SetFloat64 v (rep64 r)) d"

definition complex64Codec_Decode :: "'d decoder_fn \<Rightarrow> 'd decode_fn" where
  "complex64Codec_Decode D v d = dec_then (D DecFloat d) v (\<lambda>re d1.
     dec_then (D DecFloat d1) v (\<lambda>im d2.
       obind (reflected (v_SetComplex64 v (rep32 re) (rep32 im))) (\<lambda>v'. Ret (None, v', d2))))"

definition complex128Codec_Decode :: "'d decoder_fn \<Rightarrow> 'd decode_fn" where
  "complex128Codec_Decode D v d = dec_then (D DecDouble d) v (\<lambda>re d1.
     dec_then (D DecDouble d1) v (\<lambda>im d2.
       obind (reflected (v_SetComplex128 v (rep64 re) (rep64 im))) (\<lambda>v'. Ret (None, v', d2))))"

section \<open>Strings\<close>

definition fixedStringCodec_Decode :: "nat \<Rightarrow> 'd decoder_fn \<Rightarrow> 'd decode_fn" where
  "fixedStringCodec_Decode len D v d = dec_set D (DecFixedString len) (\<lambda>r. v_SetString v (rep_bytes r)) d"

text \<open>A length error reports the maximum of the schema, not the platform's.\<close>

fun restore_max :: "u32 \<Rightarrow> gerror option \<Rightarrow> gerror option" where
  "restore_max origMax (Some (LengthError a m)) = Some (LengthError a (ucast origMax))"
| "restore_max origMax err = err"

definition varString_decode ::
  "nat \<Rightarrow> u32 \<Rightarrow> 'd decoder_fn \<Rightarrow> 'd \<Rightarrow> (u8 list \<times> gerror option \<times> 'd) outcome" where
  "varString_decode maxlen origMax D d = obind (D (DecString maxlen) d) (\<lambda>(r, err, d').
     Ret (rep_bytes r, restore_max origMax err, d'))"

definition varStringCodec_Decode :: "nat \<Rightarrow> u32 \<Rightarrow> 'd decoder_fn \<Rightarrow> 'd decode_fn" where
  "varStringCodec_Decode maxlen origMax D v d =
     obind (varString_decode maxlen origMax D d) (\<lambda>(s, err, d').
       obind (reflected (v_SetString v s)) (\<lambda>v'. Ret (err, v', d')))"

section \<open>Arrays and slices\<close>

text \<open>The bytes are read into the array itself.\<close>

definition opaqueArrayCodec_Decode :: "genv \<Rightarrow> gtype \<Rightarrow> 'd decoder_fn \<Rightarrow> 'd decode_fn" where
  "opaqueArrayCodec_Decode G t D v d = obind (reflected (array_elems v)) (\<lambda>vs.
     obind (reflected (if byte_kind (g_types G) t then bytes_of vs else None)) (\<lambda>s.
       obind (D (DecFixedOpaque s) d) (\<lambda>(r, err, d').
         Ret (err, VArray (map VUint8 (rep_bytes r)), d'))))"

fun dec_elems :: "'d decode_fn \<Rightarrow> gvalue list \<Rightarrow> 'd \<Rightarrow> (gerror option \<times> gvalue list \<times> 'd) outcome" where
  "dec_elems f [] d = Ret (None, [], d)"
| "dec_elems f (v # vs) d = obind (f v d) (\<lambda>(err, v', d').
     if err \<noteq> None then Ret (err, v' # vs, d')
     else obind (dec_elems f vs d') (\<lambda>(err', vs', d''). Ret (err', v' # vs', d'')))"

definition arrayCodec_Decode :: "'d decode_fn \<Rightarrow> 'd decode_fn" where
  "arrayCodec_Decode elem v d = obind (reflected (array_elems v)) (\<lambda>vs.
     obind (dec_elems elem vs d) (\<lambda>(err, vs', d'). Ret (err, VArray vs', d')))"

text \<open>
  \<open>DecodeOpaque\<close> returns a nil slice for an empty opaque, and with every error; \<open>v.Set\<close> of a
  \<open>[]byte\<close> panics unless the elements of \<open>v\<close> are of type byte itself.
\<close>

definition opaqueSliceCodec_Decode :: "genv \<Rightarrow> gtype \<Rightarrow> nat \<Rightarrow> 'd decoder_fn \<Rightarrow> 'd decode_fn" where
  "opaqueSliceCodec_Decode G t maxlen D v d = obind (D (DecOpaque maxlen) d) (\<lambda>(r, err, d').
     if elem_type (g_types G) t \<noteq> Some GUint8 then Panic ''reflect.Set: value of type []uint8 is not assignable''
     else Ret (err, VSlice (if rep_bytes r = [] then None else Some (map VUint8 (rep_bytes r))), d'))"

text \<open>
  The length comes from the input, and \<open>MakeSlice\<close> panics if so many elements are more than the
  platform can address. (\<open>int(l)\<close> is not negative: \<open>maxlen\<close> is an int.)
\<close>

definition sliceCodec_Decode ::
  "genv \<Rightarrow> gtype \<Rightarrow> nat \<Rightarrow> u32 \<Rightarrow> 'd decoder_fn \<Rightarrow> 'd decode_fn \<Rightarrow> 'd decode_fn" where
  "sliceCodec_Decode G et maxlen origMax D elem v d = dec_then (D DecUnsignedInt d) v (\<lambda>r d1.
     let l = rep32 r in
     if l = 0 then Ret (None, VSlice None, d1)
     else if l > word_of_nat maxlen then Ret (Some (LengthError (ucast l) (ucast origMax)), v, d1)
     else obind (MakeSlice G et (unat l)) (\<lambda>vs0. obind (dec_elems elem vs0 d1)
       (\<lambda>(err, vs, d2). Ret (err, VSlice (Some vs), d2))))"

section \<open>Maps\<close>

fun dec_entries ::
  "'d decode_fn \<Rightarrow> 'd decode_fn \<Rightarrow> gvalue \<Rightarrow> gvalue \<Rightarrow> nat \<Rightarrow> (gvalue \<times> gvalue) list \<Rightarrow> 'd \<Rightarrow> 'd dec_result" where
  "dec_entries kc vc k0 v0 0 m d = Ret (None, VMap (Some m), d)"
| "dec_entries kc vc k0 v0 (Suc i) m d = obind (kc k0 d) (\<lambda>(err, k, d1).
     if err \<noteq> None then Ret (err, VMap (Some m), d1)
     else obind (vc v0 d1) (\<lambda>(err', v, d2).
       if err' \<noteq> None then Ret (err', VMap (Some m), d2)
       else dec_entries kc vc k0 v0 i (map_set m k v) d2))"

definition mapCodec_Decode ::
  "genv \<Rightarrow> gtype \<Rightarrow> gtype \<Rightarrow> nat \<Rightarrow> u32 \<Rightarrow> 'd decoder_fn \<Rightarrow> 'd decode_fn \<Rightarrow> 'd decode_fn \<Rightarrow> 'd decode_fn" where
  "mapCodec_Decode G kt vt maxlen origMax D kc vc v d = dec_then (D DecUnsignedInt d) v (\<lambda>r d1.
     let l = rep32 r in
     if l > word_of_nat maxlen then Ret (Some (LengthError (ucast l) (ucast origMax)), v, d1)
     else dec_entries kc vc (zero_value (g_types G) kt) (zero_value (g_types G) vt) (unat l) [] d1)"

section \<open>Pointers and optional values\<close>

definition ptrCodec_Decode :: "genv \<Rightarrow> gtype \<Rightarrow> 'd decode_fn \<Rightarrow> 'd decode_fn" where
  "ptrCodec_Decode G et elem v d = obind (elem (zero_value (g_types G) et) d) (\<lambda>(err, x, d').
     Ret (err, VPtr (Some x), d'))"

definition optCodec_Decode :: "gvalue \<Rightarrow> 'd decoder_fn \<Rightarrow> 'd decode_fn \<Rightarrow> 'd decode_fn" where
  "optCodec_Decode nilp D elem v d = dec_then (D DecBool d) nilp (\<lambda>isNonNil d1.
     if rep_bool isNonNil then elem nilp d1 else Ret (None, nilp, d1))"

section \<open>Structs and unions\<close>

text \<open>\<open>field.decode\<close>: the error, the struct after the field was decoded, and the field.\<close>

definition field_decode ::
  "('c \<Rightarrow> 'd decode_fn) \<Rightarrow> 'c field \<Rightarrow> gvalue \<Rightarrow> 'd \<Rightarrow> (gvalue \<times> gerror option \<times> gvalue \<times> 'd) outcome" where
  "field_decode rc f p d = obind (reflected (v_Field p (f_index f))) (\<lambda>v.
     obind (rc (f_codec f) v d) (\<lambda>(err, v', d'). Ret (v', err, v_SetField p (f_index f) v', d')))"

fun structCodec_Decode ::
  "('c \<Rightarrow> 'd decode_fn) \<Rightarrow> string \<Rightarrow> 'c field list \<Rightarrow> 'd decode_fn" where
  "structCodec_Decode rc name [] v d = Ret (None, v, d)"
| "structCodec_Decode rc name (f # fs) v d =
     obind (field_decode rc f v d) (\<lambda>(_, err, v', d').
       if err \<noteq> None then Ret (WithFieldError err [name, f_name f], v', d')
       else structCodec_Decode rc name fs v' d')"

definition unionCodec_Decode ::
  "('c \<Rightarrow> 'd decode_fn) \<Rightarrow> string \<Rightarrow> 'c field \<Rightarrow> 'c field option list \<Rightarrow> (u32 \<times> nat) list
     \<Rightarrow> int \<Rightarrow> switch_kind \<Rightarrow> 'd decode_fn" where
  "unionCodec_Decode rc name switchField bodyFields cases defaultCase switchKind v d =
     obind (field_decode rc switchField v d) (\<lambda>(swv, err, v1, d1).
       if err \<noteq> None then Ret (WithFieldError err [name, f_name switchField, ''union:switch''], v1, d1)
       else obind (union_swVal switchKind swv) (\<lambda>swVal.
         let caseField = union_case cases defaultCase swVal in
         if caseField = -1 then Ret (undefined_arm name caseField, v1, d1)
         else obind (body_field bodyFields caseField) (\<lambda>f.
           obind (field_decode rc f v1 d1) (\<lambda>(_, err2, v2, d2).
             Ret (arm_error name (f_name f) swVal err2, v2, d2)))))"

section \<open>Special codecs\<close>

text \<open>
  \<open>v.Interface().(Marshaler).UnmarshalXDR(d)\<close>: the method runs on a copy, so what it
  does to its receiver is lost, unless the receiver is a pointer held by an interface.
\<close>

definition marshalerCodec_Decode :: "genv \<Rightarrow> gtype \<Rightarrow> 'd decoder_fn \<Rightarrow> 'd decode_fn" where
  "marshalerCodec_Decode G t D v d = (case v of
      VIface None \<Rightarrow> Panic ''interface conversion: interface is nil''
    | VIface (Some (t', x)) \<Rightarrow> obind (run_dec D (g_unmarshal G t' x) d) (\<lambda>(err, x', d').
        Ret (err, (case x of VPtr (Some _) \<Rightarrow> VIface (Some (t', x')) | _ \<Rightarrow> v), d'))
    | _ \<Rightarrow> obind (run_dec D (g_unmarshal G t v) d) (\<lambda>(err, x', d'). Ret (err, v, d')))"

definition errorCodec_Decode :: "gerror \<Rightarrow> 'd decode_fn" where
  [simp]: "errorCodec_Decode err v d = Ret (Some err, v, d)"

definition deferredCodec_Decode ::
  "genv \<Rightarrow> nat \<Rightarrow> (codec \<Rightarrow> 'd decode_fn) \<Rightarrow> 'd decode_fn" where
  "deferredCodec_Decode G k rc v d = (case g_real G k of None \<Rightarrow> Blocked | Some c \<Rightarrow> rc c v d)"

section \<open>Dispatch\<close>

primrec dec :: "nat \<Rightarrow> genv \<Rightarrow> 'd decoder_fn \<Rightarrow> codec \<Rightarrow> 'd decode_fn" where
  "dec 0 G D c v d = Spent"
| "dec (Suc n) G D c v d = (case c of
      CBool \<Rightarrow> boolCodec_Decode D v d
    | CInt8 \<Rightarrow> intCodec_Decode D v d | CInt16 \<Rightarrow> intCodec_Decode D v d | CInt32 \<Rightarrow> intCodec_Decode D v d
    | CUint8 \<Rightarrow> uintCodec_Decode D v d | CUint16 \<Rightarrow> uintCodec_Decode D v d
    | CUint32 \<Rightarrow> uintCodec_Decode D v d
    | CHyper \<Rightarrow> hyperCodec_Decode D v d | CUhyper \<Rightarrow> uhyperCodec_Decode D v d
    | CFloat \<Rightarrow> floatCodec_Decode D v d | CDouble \<Rightarrow> doubleCodec_Decode D v d
    | CComplex64 \<Rightarrow> complex64Codec_Decode D v d | CComplex128 \<Rightarrow> complex128Codec_Decode D v d
    | CFixedString len \<Rightarrow> fixedStringCodec_Decode len D v d
    | CVarString maxlen origMax \<Rightarrow> varStringCodec_Decode maxlen origMax D v d
    | COpaqueArray t len \<Rightarrow> opaqueArrayCodec_Decode G t D v d
    | CArray ec len sz \<Rightarrow> arrayCodec_Decode (dec n G D ec) v d
    | COpaqueSlice t maxlen origMax \<Rightarrow> opaqueSliceCodec_Decode G t maxlen D v d
    | CSlice ec et maxlen sz origMax \<Rightarrow> sliceCodec_Decode G et maxlen origMax D (dec n G D ec) v d
    | CPtr ec et \<Rightarrow> ptrCodec_Decode G et (dec n G D ec) v d
    | COpt ec nilp \<Rightarrow> optCodec_Decode nilp D (dec n G D ec) v d
    | CMap kc vc kt vt maxlen origMax \<Rightarrow>
        mapCodec_Decode G kt vt maxlen origMax D (dec n G D kc) (dec n G D vc) v d
    | CStruct name fs \<Rightarrow> structCodec_Decode (dec n G D) name fs v d
    | CUnion name sw body cases dflt sk \<Rightarrow>
        unionCodec_Decode (dec n G D) name sw body cases dflt sk v d
    | CError err \<Rightarrow> errorCodec_Decode err v d
    | CDeferred k \<Rightarrow> deferredCodec_Decode G k (dec n G D) v d
    | CMarshaler t \<Rightarrow> marshalerCodec_Decode G t D v d
    | CForeign k \<Rightarrow> run_dec D (g_foreign_dec G k v) d
    | CWrapper wc t \<Rightarrow> dec n G D wc v d)"

lemma dec_unfold:
  "dec (Suc n) G D CBool = boolCodec_Decode D"
  "dec (Suc n) G D CInt8 = intCodec_Decode D"
  "dec (Suc n) G D CInt16 = intCodec_Decode D"
  "dec (Suc n) G D CInt32 = intCodec_Decode D"
  "dec (Suc n) G D CUint8 = uintCodec_Decode D"
  "dec (Suc n) G D CUint16 = uintCodec_Decode D"
  "dec (Suc n) G D CUint32 = uintCodec_Decode D"
  "dec (Suc n) G D CHyper = hyperCodec_Decode D"
  "dec (Suc n) G D CUhyper = uhyperCodec_Decode D"
  "dec (Suc n) G D CFloat = floatCodec_Decode D"
  "dec (Suc n) G D CDouble = doubleCodec_Decode D"
  "dec (Suc n) G D CComplex64 = complex64Codec_Decode D"
  "dec (Suc n) G D CComplex128 = complex128Codec_Decode D"
  "dec (Suc n) G D (CFixedString k) = fixedStringCodec_Decode k D"
  "dec (Suc n) G D (CVarString m om) = varStringCodec_Decode m om D"
  "dec (Suc n) G D (COpaqueArray t k) = opaqueArrayCodec_Decode G t D"
  "dec (Suc n) G D (CArray c k sz) = arrayCodec_Decode (dec n G D c)"
  "dec (Suc n) G D (COpaqueSlice t m om) = opaqueSliceCodec_Decode G t m D"
  "dec (Suc n) G D (CSlice c t m sz om) = sliceCodec_Decode G t m om D (dec n G D c)"
  "dec (Suc n) G D (CPtr c t) = ptrCodec_Decode G t (dec n G D c)"
  "dec (Suc n) G D (COpt c nilp) = optCodec_Decode nilp D (dec n G D c)"
  "dec (Suc n) G D (CMap kc vc kt vt m om) = mapCodec_Decode G kt vt m om D (dec n G D kc) (dec n G D vc)"
  "dec (Suc n) G D (CStruct name fs) = structCodec_Decode (dec n G D) name fs"
  "dec (Suc n) G D (CUnion name sw body cases dflt sk) = unionCodec_Decode (dec n G D) name sw body cases dflt sk"
  "dec (Suc n) G D (CDeferred k) = deferredCodec_Decode G k (dec n G D)"
  "dec (Suc n) G D (CMarshaler t) = marshalerCodec_Decode G t D"
  "dec (Suc n) G D (CWrapper c t) = dec n G D c"
  by (intro ext, simp)+

end
