(* ===== verification/RoundTrip.thy ===== *)
theory RoundTrip
  imports CodecDec
begin

text \<open>
  Decoding what was encoded. \<open>spec_enc\<close> is the encoder that appends exactly the bytes of
  the wire format; \<open>moves\<close> says that an encode and a decode method carry a value into a
  variable through given bytes, on any implementation of the decoder interface; there is
  one lemma per codec, and \<open>transfers\<close> collects, codec by codec, which values arrive.
\<close>

section \<open>The specification encoder\<close>

definition spec_enc :: "u8 list encoder_fn" where
  "spec_enc c s = (fst (call_spec c), s @ snd (call_spec c))"

interpretation spec_encoder: total_encoder spec_enc "\<lambda>s. s"
  by unfold_locales (auto simp: spec_enc_def)

lemma enc_then_Ret [simp]: "enc_then (Ret (None, e)) k = k e"
  by (simp add: enc_then_def)

lemma spec_enc_simps [simp]:
  "spec_enc (EncBool b) s = (None, s @ be32 (if b then 1 else 0))"
  "spec_enc (EncInt i) s = (None, s @ be32 i)"
  "spec_enc (EncUnsignedInt i) s = (None, s @ be32 i)"
  "spec_enc (EncHyper h) s = (None, s @ be64 h)"
  "spec_enc (EncUnsignedHyper h) s = (None, s @ be64 h)"
  "spec_enc (EncFloat i) s = (None, s @ be32 i)"
  "spec_enc (EncDouble h) s = (None, s @ be64 h)"
  "spec_enc (EncFixedOpaque bs) s = (None, s @ opaque_bytes bs)"
  "spec_enc (EncFixedString bs) s = (None, s @ opaque_bytes bs)"
  "length bs \<le> max_u32 \<Longrightarrow> spec_enc (EncOpaque bs) s = (None, s @ counted_bytes bs)"
  "length bs \<le> max_u32 \<Longrightarrow> spec_enc (EncString bs) s = (None, s @ counted_bytes bs)"
  by (simp_all add: spec_enc_def sized_spec_def)

text \<open>Keys that are pairwise different to Go's \<open>==\<close>.\<close>

definition distinct_keys :: "(gvalue \<times> gvalue) list \<Rightarrow> bool" where
  "distinct_keys kvs \<longleftrightarrow> sorted_wrt (\<lambda>a b. \<not> go_eq (fst a) (fst b)) kvs"

section \<open>Moving a value\<close>

context decoder_iface
begin

definition moves :: "u8 list encode_fn \<Rightarrow> 'd decode_fn \<Rightarrow> gvalue \<Rightarrow> gvalue \<Rightarrow> u8 list \<Rightarrow> bool" where
  "moves ef df v0 v bs \<longleftrightarrow> (\<forall>s. ef v s = Ret (None, s @ bs)) \<and>
     (\<forall>d rest. pend d = bs @ rest \<longrightarrow> (\<exists>d'. df v0 d = Ret (None, v, d') \<and> pend d' = rest))"

lemma movesI:
  assumes "\<And>s. ef v s = Ret (None, s @ bs)"
    and "\<And>d rest. pend d = bs @ rest \<Longrightarrow> \<exists>d'. df v0 d = Ret (None, v, d') \<and> pend d' = rest"
  shows "moves ef df v0 v bs"
  using assms by (simp add: moves_def)

lemma moves_enc: "moves ef df v0 v bs \<Longrightarrow> ef v s = Ret (None, s @ bs)"
  by (simp add: moves_def)

lemma moves_dec:
  assumes "moves ef df v0 v bs" and "pend d = bs @ rest"
  obtains d' where "df v0 d = Ret (None, v, d')" "pend d' = rest"
  using assms that unfolding moves_def by blast

text \<open>A decoder call whose answer is at the front of the input.\<close>

lemma answered:
  assumes "pend d = bs @ rest" and "answers M k bs r"
  obtains d' where "D k d = Ret (r, None, d')" "pend d' = rest"
  using answer_law [OF assms(2,1)] by blast

text \<open>A codec that makes one call and stores the reply.\<close>

lemma moves_call:
  assumes "answers M k bs r" and "put r = Some v" and "\<And>s. ef v s = Ret (None, s @ bs)"
    and "\<And>d. df v0 d = dec_set D k put d"
  shows "moves ef df v0 v bs"
proof (rule movesI)
  fix d rest assume "pend d = bs @ rest"
  then obtain d' where "D k d = Ret (r, None, d')" "pend d' = rest"
    by (rule answered [OF _ assms(1)])
  then show "\<exists>d'. df v0 d = Ret (None, v, d') \<and> pend d' = rest"
    using assms(2,4) by (simp add: dec_set_def reflected_def)
qed (rule assms(3))

subsection \<open>Primitive codecs\<close>

lemmas enc_primitive_defs = boolCodec_Encode_def intCodec_Encode_def uintCodec_Encode_def
  hyperCodec_Encode_def uhyperCodec_Encode_def floatCodec_Encode_def doubleCodec_Encode_def
  complex64Codec_Encode_def complex128Codec_Encode_def reflected_def

lemma moves_bool: "moves (boolCodec_Encode spec_enc) (boolCodec_Decode D) (VBool a) (VBool b)
    (be32 (if b then 1 else 0))"
  by (rule moves_call [OF answers.intros(1)]) (auto simp: enc_primitive_defs boolCodec_Decode_def)

lemma scast_narrow: "(ucast (scast (ucast (scast (w :: u8) :: u64) :: u32) :: u64) :: u8) = w"
  "(ucast (scast (ucast (scast (x :: u16) :: u64) :: u32) :: u64) :: u16) = x"
  "(ucast (scast (ucast (scast (y :: u32) :: u64) :: u32) :: u64) :: u32) = y"
  by (rule bit_word_eqI, auto simp: bit_simps min_def le_less)+

lemma ucast_narrow: "(ucast (ucast (ucast (ucast (w :: u8) :: u64) :: u32) :: u64) :: u8) = w"
  "(ucast (ucast (ucast (ucast (x :: u16) :: u64) :: u32) :: u64) :: u16) = x"
  "(ucast (ucast (ucast (ucast (y :: u32) :: u64) :: u32) :: u64) :: u32) = y"
  by (rule bit_word_eqI, simp add: bit_simps)+

lemma moves_int:
  "moves (intCodec_Encode spec_enc) (intCodec_Decode D) (VInt8 a) (VInt8 w) (be32 (ucast (scast w :: u64)))"
  "moves (intCodec_Encode spec_enc) (intCodec_Decode D) (VInt16 b) (VInt16 x) (be32 (ucast (scast x :: u64)))"
  "moves (intCodec_Encode spec_enc) (intCodec_Decode D) (VInt32 c) (VInt32 y) (be32 (ucast (scast y :: u64)))"
  by (rule moves_call [OF answers.intros(2)],
      auto simp: enc_primitive_defs intCodec_Decode_def scast_narrow)+

lemma moves_uint:
  "moves (uintCodec_Encode spec_enc) (uintCodec_Decode D) (VUint8 a) (VUint8 w) (be32 (ucast (ucast w :: u64)))"
  "moves (uintCodec_Encode spec_enc) (uintCodec_Decode D) (VUint16 b) (VUint16 x) (be32 (ucast (ucast x :: u64)))"
  "moves (uintCodec_Encode spec_enc) (uintCodec_Decode D) (VUint32 c) (VUint32 y) (be32 (ucast (ucast y :: u64)))"
  by (rule moves_call [OF answers.intros(3)],
      auto simp: enc_primitive_defs uintCodec_Decode_def ucast_narrow)+

lemma moves_hyper:
  "moves (hyperCodec_Encode spec_enc) (hyperCodec_Decode D) (VInt64 a) (VInt64 w) (be64 w)"
  "moves (uhyperCodec_Encode spec_enc) (uhyperCodec_Decode D) (VUint64 a) (VUint64 w) (be64 w)"
  by (rule moves_call [OF answers.intros(4)] moves_call [OF answers.intros(5)],
      auto simp: enc_primitive_defs hyperCodec_Decode_def uhyperCodec_Decode_def)+

lemma moves_float:
  "f32_via_f64 w = w \<Longrightarrow>
     moves (floatCodec_Encode spec_enc) (floatCodec_Decode D) (VFloat32 a) (VFloat32 w) (be32 w)"
  "moves (doubleCodec_Encode spec_enc) (doubleCodec_Decode D) (VFloat64 b) (VFloat64 x) (be64 x)"
  by (rule moves_call [OF answers.intros(6)] moves_call [OF answers.intros(7)],
      auto simp: enc_primitive_defs floatCodec_Decode_def doubleCodec_Decode_def)+

lemma moves_complex64:
  assumes "f32_via_f64 x = x" and "f32_via_f64 y = y"
  shows "moves (complex64Codec_Encode spec_enc) (complex64Codec_Decode D) (VComplex64 a b)
    (VComplex64 x y) (be32 x @ be32 y)"
proof (rule movesI)
  fix d rest assume "pend d = (be32 x @ be32 y) @ rest"
  then have "pend d = be32 x @ be32 y @ rest" by simp
  then obtain d1 where 1: "D DecFloat d = Ret (R32 x, None, d1)" "pend d1 = be32 y @ rest"
    by (rule answered [OF _ answers.intros(6)])
  from 1(2) obtain d2 where 2: "D DecFloat d1 = Ret (R32 y, None, d2)" "pend d2 = rest"
    by (rule answered [OF _ answers.intros(6)])
  show "\<exists>d'. complex64Codec_Decode D (VComplex64 a b) d = Ret (None, VComplex64 x y, d') \<and> pend d' = rest"
    using 1 2 assms by (simp add: complex64Codec_Decode_def dec_then_def reflected_def)
qed (simp add: enc_primitive_defs assms)

lemma moves_complex128:
  "moves (complex128Codec_Encode spec_enc) (complex128Codec_Decode D) (VComplex128 a b)
    (VComplex128 x y) (be64 x @ be64 y)"
proof (rule movesI)
  fix d rest assume "pend d = (be64 x @ be64 y) @ rest"
  then have "pend d = be64 x @ be64 y @ rest" by simp
  then obtain d1 where 1: "D DecDouble d = Ret (R64 x, None, d1)" "pend d1 = be64 y @ rest"
    by (rule answered [OF _ answers.intros(7)])
  from 1(2) obtain d2 where 2: "D DecDouble d1 = Ret (R64 y, None, d2)" "pend d2 = rest"
    by (rule answered [OF _ answers.intros(7)])
  show "\<exists>d'. complex128Codec_Decode D (VComplex128 a b) d = Ret (None, VComplex128 x y, d') \<and> pend d' = rest"
    using 1 2 by (simp add: complex128Codec_Decode_def dec_then_def reflected_def)
qed (simp add: enc_primitive_defs)

subsection \<open>Strings and opaque data\<close>

lemma counted_answer:
  assumes "length bs \<le> n" "length bs \<le> max_u32" "length bs + 3 \<le> M"
  shows "answers M (DecOpaque n) (counted_bytes bs) (RBytes bs)"
    and "answers M (DecString n) (counted_bytes bs) (RBytes bs)"
  using answers.intros(8) [OF assms, of "replicate (xdr_pad (length bs)) 0"]
    answers.intros(10) [OF assms, of "replicate (xdr_pad (length bs)) 0"]
  by (simp_all add: counted_bytes_def opaque_bytes_def)

lemma fixed_answer:
  "length bs = length buf \<Longrightarrow> answers M (DecFixedOpaque buf) (opaque_bytes bs) (RBytes bs)"
  "answers M (DecFixedString (length bs)) (opaque_bytes bs) (RBytes bs)"
  using answers.intros(9) [of bs buf "replicate (xdr_pad (length bs)) 0" M]
    answers.intros(11) [OF refl, of "replicate (xdr_pad (length bs)) 0" bs M]
  by (simp_all add: opaque_bytes_def)

lemma moves_fixed_string:
  "moves (fixedStringCodec_Encode (length bs) spec_enc) (fixedStringCodec_Decode (length bs) D)
     (VString a) (VString bs) (opaque_bytes bs)"
  by (rule moves_call [OF fixed_answer(2)])
    (auto simp: fixedStringCodec_Encode_def fixedString_encode_def fixedStringCodec_Decode_def reflected_def)

lemma moves_var_string:
  assumes "length bs \<le> m" "length bs \<le> max_u32" "length bs + 3 \<le> M"
  shows "moves (varStringCodec_Encode m om spec_enc) (varStringCodec_Decode m om D)
     (VString a) (VString bs) (counted_bytes bs)"
proof (rule movesI)
  fix d rest assume "pend d = counted_bytes bs @ rest"
  then obtain d' where "D (DecString m) d = Ret (RBytes bs, None, d')" "pend d' = rest"
    by (rule answered [OF _ counted_answer(2) [OF assms]])
  then show "\<exists>d'. varStringCodec_Decode m om D (VString a) d = Ret (None, VString bs, d') \<and> pend d' = rest"
    by (simp add: varStringCodec_Decode_def varString_decode_def reflected_def)
qed (simp add: varStringCodec_Encode_def varString_encode_def reflected_def assms)

lemma moves_opaque_array:
  assumes "length bs = length cs" "byte_kind (g_types G) t"
  shows "moves (opaqueArrayCodec_Encode G t spec_enc) (opaqueArrayCodec_Decode G t D)
     (VArray (map VUint8 cs)) (VArray (map VUint8 bs)) (opaque_bytes bs)"
proof (rule movesI)
  fix d rest assume "pend d = opaque_bytes bs @ rest"
  then obtain d' where "D (DecFixedOpaque cs) d = Ret (RBytes bs, None, d')" "pend d' = rest"
    by (rule answered [OF _ fixed_answer(1) [OF assms(1)]])
  then show "\<exists>d'. opaqueArrayCodec_Decode G t D (VArray (map VUint8 cs)) d
      = Ret (None, VArray (map VUint8 bs), d') \<and> pend d' = rest"
    using assms(2) by (simp add: opaqueArrayCodec_Decode_def reflected_def)
qed (simp add: opaqueArrayCodec_Encode_def reflected_def assms)

lemma moves_opaque_slice:
  assumes "length bs \<le> m" "length bs \<le> max_u32" "length bs + 3 \<le> M" "elem_type (g_types G) t = Some GUint8"
  shows "moves (opaqueSliceCodec_Encode G t m om spec_enc) (opaqueSliceCodec_Decode G t m D) v0
     (VSlice (if bs = [] then None else Some (map VUint8 bs))) (counted_bytes bs)"
proof (rule movesI)
  fix d rest assume "pend d = counted_bytes bs @ rest"
  then obtain d' where "D (DecOpaque m) d = Ret (RBytes bs, None, d')" "pend d' = rest"
    by (rule answered [OF _ counted_answer(1) [OF assms(1-3)]])
  then show "\<exists>d'. opaqueSliceCodec_Decode G t m D v0 d
      = Ret (None, VSlice (if bs = [] then None else Some (map VUint8 bs)), d') \<and> pend d' = rest"
    using assms(4) by (simp add: opaqueSliceCodec_Decode_def)
next
  fix s
  show "opaqueSliceCodec_Encode G t m om spec_enc (VSlice (if bs = [] then None else Some (map VUint8 bs))) s
      = Ret (None, s @ counted_bytes bs)"
    using assms by (cases "bs = []") (auto simp: opaqueSliceCodec_Encode_def reflected_def byte_kind_def kind_def under_def)
qed

subsection \<open>Sequences\<close>

lemma moves_elems:
  assumes "list_all2 (\<lambda>v0 v. moves ef df v0 v (b v0 v)) vs0 vs"
  shows "enc_elems ef vs s = Ret (None, s @ concat (map2 b vs0 vs))"
    and "pend d = concat (map2 b vs0 vs) @ rest \<Longrightarrow>
      \<exists>d'. dec_elems df vs0 d = Ret (None, vs, d') \<and> pend d' = rest"
proof -
  show "enc_elems ef vs s = Ret (None, s @ concat (map2 b vs0 vs))"
    using assms by (induction arbitrary: s rule: list_all2_induct) (simp_all add: moves_enc)
  show "pend d = concat (map2 b vs0 vs) @ rest \<Longrightarrow>
      \<exists>d'. dec_elems df vs0 d = Ret (None, vs, d') \<and> pend d' = rest"
    using assms
  proof (induction arbitrary: d rule: list_all2_induct)
    case (Cons v0 vs0 v vs)
    from Cons.prems have "pend d = b v0 v @ (concat (map2 b vs0 vs) @ rest)" by simp
    with Cons.hyps(1) obtain d1 where 1: "df v0 d = Ret (None, v, d1)"
      "pend d1 = concat (map2 b vs0 vs) @ rest" by (rule moves_dec)
    from Cons.IH [OF 1(2)] 1(1) show ?case by auto
  qed simp
qed

lemma moves_array:
  assumes "list_all2 (\<lambda>v0 v. moves ef df v0 v (b v0 v)) vs0 vs"
  shows "moves (arrayCodec_Encode ef) (arrayCodec_Decode df) (VArray vs0) (VArray vs) (concat (map2 b vs0 vs))"
proof (rule movesI)
  fix d rest assume "pend d = concat (map2 b vs0 vs) @ rest"
  from moves_elems(2) [OF assms this]
  show "\<exists>d'. arrayCodec_Decode df (VArray vs0) d = Ret (None, VArray vs, d') \<and> pend d' = rest"
    by (auto simp: arrayCodec_Decode_def reflected_def)
qed (simp add: arrayCodec_Encode_def reflected_def moves_elems(1) [OF assms])

lemma count_word:
  assumes "n \<le> m" "m \<le> max_u32"
  shows "unat (word_of_nat n :: u32) = n" and "\<not> word_of_nat n > (word_of_nat m :: u32)"
  using assms by (auto simp: max_u32_def unat_of_nat word_less_nat_alt)

lemma moves_slice_nil: "moves (sliceCodec_Encode m om spec_enc ef) (sliceCodec_Decode G t m om D df) v0
    (VSlice None) (be32 0)"
proof (rule movesI)
  fix d rest assume "pend d = be32 0 @ rest"
  then obtain d' where "D DecUnsignedInt d = Ret (R32 0, None, d')" "pend d' = rest"
    by (rule answered [OF _ answers.intros(3)])
  then show "\<exists>d'. sliceCodec_Decode G t m om D df v0 d = Ret (None, VSlice None, d') \<and> pend d' = rest"
    by (simp add: sliceCodec_Decode_def dec_then_def)
qed (simp add: sliceCodec_Encode_def reflected_def)

lemma moves_slice:
  assumes "\<forall>v\<in>set vs. moves ef df (zero_value (g_types G) t) v (b v)"
    and "vs \<noteq> []" and "length vs \<le> m" and "m \<le> max_u32"
    and "length vs * size_of (g_word G) (g_types G) t \<le> g_maxAlloc G"
  shows "moves (sliceCodec_Encode m om spec_enc ef) (sliceCodec_Decode G t m om D df) v0
    (VSlice (Some vs)) (be32 (word_of_nat (length vs)) @ concat (map b vs))"
proof -
  let ?l = "word_of_nat (length vs) :: u32"
  let ?zs = "replicate (length vs) (zero_value (g_types G) t)"
  have all2: "list_all2 (\<lambda>v0 v. moves ef df v0 v (b v)) ?zs vs"
    using assms(1) by (auto simp: list_all2_conv_all_nth)
  have map2: "map2 (\<lambda>_. b) ?zs vs = map b vs"
    by (auto intro: nth_equalityI)
  note w = count_word [OF assms(3,4)]
  have nz: "?l \<noteq> 0"
  proof
    assume "?l = 0"
    with w(1) assms(2) show False by simp
  qed
  show ?thesis
  proof (rule movesI)
    fix d rest assume "pend d = (be32 ?l @ concat (map b vs)) @ rest"
    then have "pend d = be32 ?l @ concat (map b vs) @ rest" by simp
    then obtain d1 where 1: "D DecUnsignedInt d = Ret (R32 ?l, None, d1)"
      "pend d1 = concat (map b vs) @ rest"
      by (rule answered [OF _ answers.intros(3)])
    from moves_elems(2) [OF all2] 1(2) obtain d2 where
      "dec_elems df ?zs d1 = Ret (None, vs, d2)" "pend d2 = rest"
      by (auto simp: map2)
    with 1 nz w show "\<exists>d'. sliceCodec_Decode G t m om D df v0 d = Ret (None, VSlice (Some vs), d')
        \<and> pend d' = rest"
      using assms(5) by (simp add: sliceCodec_Decode_def dec_then_def MakeSlice_def newarray_def)
  next
    fix s
    show "sliceCodec_Encode m om spec_enc ef (VSlice (Some vs)) s
        = Ret (None, s @ be32 ?l @ concat (map b vs))"
      using assms(3) moves_elems(1) [OF all2]
      by (simp add: sliceCodec_Encode_def reflected_def map2)
  qed
qed

subsection \<open>Maps, pointers and optional values\<close>

lemma moves_entries:
  assumes "\<forall>(k, v)\<in>set kvs. moves kef kdf k0 k (bk k) \<and> moves vef vdf v0 v (bv v)"
  shows "enc_entries kef vef kvs s = Ret (None, s @ concat (map (\<lambda>(k, v). bk k @ bv v) kvs))"
    and "sorted_wrt (\<lambda>a b. \<not> go_eq (fst a) (fst b)) (m @ kvs) \<Longrightarrow>
      pend d = concat (map (\<lambda>(k, v). bk k @ bv v) kvs) @ rest \<Longrightarrow>
      \<exists>d'. dec_entries kdf vdf k0 v0 (length kvs) m d = Ret (None, VMap (Some (m @ kvs)), d') \<and> pend d' = rest"
  using assms
proof (induction kvs arbitrary: s m d)
  case (Cons kv kvs)
  obtain k v where kv: "kv = (k, v)" by (cases kv)
  { case 1
    with kv have "moves kef kdf k0 k (bk k)" "moves vef vdf v0 v (bv v)" by auto
    then have "kef k s = Ret (None, s @ bk k)" "vef v (s @ bk k) = Ret (None, (s @ bk k) @ bv v)"
      by (simp_all add: moves_def)
    moreover have "enc_entries kef vef kvs (s @ bk k @ bv v)
        = Ret (None, (s @ bk k @ bv v) @ concat (map (\<lambda>(k, v). bk k @ bv v) kvs))"
      by (rule Cons.IH(1)) (use 1 in auto)
    ultimately show ?case using kv by simp
  next
    case 2
    then have mk: "moves kef kdf k0 k (bk k)" and mv: "moves vef vdf v0 v (bv v)" using kv by auto
    from 2(2) kv have "pend d = bk k @ bv v @ concat (map (\<lambda>(k, v). bk k @ bv v) kvs) @ rest" by simp
    then obtain d1 where 1: "kdf k0 d = Ret (None, k, d1)"
      "pend d1 = bv v @ concat (map (\<lambda>(k, v). bk k @ bv v) kvs) @ rest" by (rule moves_dec [OF mk])
    obtain d2 where d2: "vdf v0 d1 = Ret (None, v, d2)"
      "pend d2 = concat (map (\<lambda>(k, v). bk k @ bv v) kvs) @ rest" using moves_dec [OF mv 1(2)] .
    have "map_set m k v = m @ [(k, v)]"
      using 2(1) kv by (intro map_set_fresh) (auto simp: sorted_wrt_append)
    moreover have "\<exists>d'. dec_entries kdf vdf k0 v0 (length kvs) (m @ [(k, v)]) d2
        = Ret (None, VMap (Some ((m @ [(k, v)]) @ kvs)), d') \<and> pend d' = rest"
      by (rule Cons.IH(2)) (use 2 kv d2 in auto)
    ultimately show ?case using kv 1 d2 by simp
  }
qed auto

lemma moves_map:
  assumes "\<forall>(k, v)\<in>set kvs. moves kef kdf (zero_value (g_types G) kt) k (bk k)
      \<and> moves vef vdf (zero_value (g_types G) vt) v (bv v)"
    and "distinct_keys kvs" and "length kvs \<le> m" and "m \<le> max_u32"
  shows "moves (mapCodec_Encode m om spec_enc kef vef) (mapCodec_Decode G kt vt m om D kdf vdf) v0
    (VMap (Some kvs)) (be32 (word_of_nat (length kvs)) @ concat (map (\<lambda>(k, v). bk k @ bv v) kvs))"
proof -
  let ?l = "word_of_nat (length kvs) :: u32"
  let ?b = "concat (map (\<lambda>(k, v). bk k @ bv v) kvs)"
  note w = count_word [OF assms(3,4)]
  show ?thesis
  proof (rule movesI)
    fix d rest assume "pend d = (be32 ?l @ ?b) @ rest"
    then have "pend d = be32 ?l @ ?b @ rest" by simp
    then obtain d1 where 1: "D DecUnsignedInt d = Ret (R32 ?l, None, d1)" "pend d1 = ?b @ rest"
      by (rule answered [OF _ answers.intros(3)])
    from moves_entries(2) [OF assms(1), of "[]" d1 rest] 1(2) assms(2) w
    show "\<exists>d'. mapCodec_Decode G kt vt m om D kdf vdf v0 d = Ret (None, VMap (Some kvs), d') \<and> pend d' = rest"
      by (simp add: mapCodec_Decode_def dec_then_def 1(1) distinct_keys_def)
  next
    fix s
    show "mapCodec_Encode m om spec_enc kef vef (VMap (Some kvs)) s = Ret (None, s @ be32 ?l @ ?b)"
      using assms(3) moves_entries(1) [OF assms(1)]
      by (simp add: mapCodec_Encode_def reflected_def)
  qed
qed

lemma moves_ptr:
  assumes "moves ef df (zero_value (g_types G) t) x bs"
  shows "moves (ptrCodec_Encode ef) (ptrCodec_Decode G t df) v0 (VPtr (Some x)) bs"
proof (rule movesI)
  fix d rest assume "pend d = bs @ rest"
  from moves_dec [OF assms this] show
    "\<exists>d'. ptrCodec_Decode G t df v0 d = Ret (None, VPtr (Some x), d') \<and> pend d' = rest"
    by (fastforce simp: ptrCodec_Decode_def)
qed (simp add: ptrCodec_Encode_def reflected_def moves_enc [OF assms])

lemma moves_opt_nil:
  assumes "v_IsNil nilp = Some True"
  shows "moves (optCodec_Encode spec_enc ef) (optCodec_Decode nilp D df) v0 nilp (be32 0)"
proof (rule movesI)
  fix d rest assume "pend d = be32 0 @ rest"
  then obtain d1 where "D DecBool d = Ret (RBool False, None, d1)" "pend d1 = rest"
    using answers.intros(1) [of M False] by (auto elim: answered)
  then show "\<exists>d'. optCodec_Decode nilp D df v0 d = Ret (None, nilp, d') \<and> pend d' = rest"
    by (simp add: optCodec_Decode_def dec_then_def)
qed (simp add: optCodec_Encode_def reflected_def assms)

lemma moves_opt:
  assumes "v_IsNil v = Some False" and "moves ef df nilp v bs"
  shows "moves (optCodec_Encode spec_enc ef) (optCodec_Decode nilp D df) v0 v (be32 1 @ bs)"
proof (rule movesI)
  fix d rest assume "pend d = (be32 1 @ bs) @ rest"
  then have "pend d = be32 (if True then 1 else 0) @ bs @ rest" by simp
  then obtain d1 where 1: "D DecBool d = Ret (RBool True, None, d1)" "pend d1 = bs @ rest"
    by (rule answered [OF _ answers.intros(1)])
  obtain d2 where "df nilp d1 = Ret (None, v, d2)" "pend d2 = rest" using moves_dec [OF assms(2) 1(2)] .
  then show "\<exists>d'. optCodec_Decode nilp D df v0 d = Ret (None, v, d') \<and> pend d' = rest"
    by (simp add: optCodec_Decode_def dec_then_def 1(1))
qed (simp add: optCodec_Encode_def reflected_def assms(1) moves_enc [OF assms(2)])

subsection \<open>Structs and unions\<close>

lemma moves_fields:
  assumes "\<forall>f\<in>set fs. f_index f < length vs
      \<and> moves (re (f_codec f)) (rd (f_codec f)) (cur ! f_index f) (vs ! f_index f) (b f)"
    and "length cur = length vs"
  shows "struct_encodeReflect re name fs (VStruct vs) s = Ret (None, s @ concat (map b fs))"
    and "distinct (map f_index fs) \<Longrightarrow>
      (\<forall>i<length vs. i \<notin> f_index ` set fs \<longrightarrow> cur ! i = vs ! i) \<Longrightarrow>
      pend d = concat (map b fs) @ rest \<Longrightarrow>
      \<exists>d'. structCodec_Decode rd name fs (VStruct cur) d = Ret (None, VStruct vs, d') \<and> pend d' = rest"
  using assms
proof (induction fs arbitrary: s cur d)
  case (Cons f fs)
  { case 1
    then have "re (f_codec f) (vs ! f_index f) s = Ret (None, s @ b f)" by (auto intro: moves_enc)
    moreover have "struct_encodeReflect re name fs (VStruct vs) (s @ b f)
        = Ret (None, (s @ b f) @ concat (map b fs))"
      by (rule Cons.IH(1) [of cur]) (use 1 in auto)
    ultimately show ?case using 1 by (simp add: field_encode_def reflected_def)
  next
    case 2
    let ?i = "f_index f" and ?cur = "cur[f_index f := vs ! f_index f]"
    have i: "?i < length vs" and m: "moves (re (f_codec f)) (rd (f_codec f)) (cur ! ?i) (vs ! ?i) (b f)"
      using 2 by auto
    from 2(3) have "pend d = b f @ concat (map b fs) @ rest" by simp
    then obtain d1 where 1: "rd (f_codec f) (cur ! ?i) d = Ret (None, vs ! ?i, d1)"
      "pend d1 = concat (map b fs) @ rest" by (rule moves_dec [OF m])
    have other: "?cur ! f_index g = cur ! f_index g" if "g \<in> set fs" for g
      using 2(1) that by (metis distinct.simps(2) image_eqI list.set_map list.simps(9) nth_list_update_neq)
    have "\<exists>d'. structCodec_Decode rd name fs (VStruct ?cur) d1 = Ret (None, VStruct vs, d') \<and> pend d' = rest"
    proof (rule Cons.IH(2) [OF _ _ 1(2)])
      show "\<forall>j<length vs. j \<notin> f_index ` set fs \<longrightarrow> ?cur ! j = vs ! j"
        using 2(2) i by (auto simp: nth_list_update 2(5))
    qed (use 2 other in auto)
    then show ?case using i 2(5) 1(1) by (simp add: field_decode_def reflected_def)
  }
next
  case Nil
  { case 2
    then have "cur = vs" by (auto intro: nth_equalityI)
    with 2 show ?case by simp
  }
qed auto

lemma moves_struct:
  assumes "\<forall>f\<in>set fs. f_index f < length vs
      \<and> moves (re (f_codec f)) (rd (f_codec f)) (vs0 ! f_index f) (vs ! f_index f) (b f)"
    and "length vs0 = length vs" and "distinct (map f_index fs)"
    and "\<forall>i<length vs. i \<notin> f_index ` set fs \<longrightarrow> vs0 ! i = vs ! i"
  shows "moves (struct_encodeReflect re name fs) (structCodec_Decode rd name fs)
    (VStruct vs0) (VStruct vs) (concat (map b fs))"
  by (rule movesI) (simp_all add: moves_fields [OF assms(1,2)] assms(3,4))

lemma moves_union:
  assumes "f_index sw < length vs" and "f_index f < length vs" and "f_index f \<noteq> f_index sw"
    and "length vs0 = length vs"
    and "\<forall>i<length vs. i \<noteq> f_index sw \<longrightarrow> i \<noteq> f_index f \<longrightarrow> vs0 ! i = vs ! i"
    and sw: "moves (re (f_codec sw)) (rd (f_codec sw)) (vs0 ! f_index sw) (vs ! f_index sw) bs"
    and arm: "moves (re (f_codec f)) (rd (f_codec f)) (vs0 ! f_index f) (vs ! f_index f) cs"
    and "union_swVal sk (vs ! f_index sw) = Ret w" and "union_case cases dflt w = int i"
    and "i < length body" and "body ! i = Some f"
  shows "moves (union_encodeReflect re name sw body cases dflt sk)
    (unionCodec_Decode rd name sw body cases dflt sk) (VStruct vs0) (VStruct vs) (bs @ cs)"
proof (rule movesI)
  fix s
  show "union_encodeReflect re name sw body cases dflt sk (VStruct vs) s = Ret (None, s @ bs @ cs)"
    using assms by (simp add: union_encodeReflect_def field_encode_def reflected_def moves_enc [OF sw]
        moves_enc [OF arm] body_field_def Let_def arm_error_def)
next
  fix d rest assume "pend d = (bs @ cs) @ rest"
  then have "pend d = bs @ cs @ rest" by simp
  then obtain d1 where 1: "rd (f_codec sw) (vs0 ! f_index sw) d = Ret (None, vs ! f_index sw, d1)"
    "pend d1 = cs @ rest" by (rule moves_dec [OF sw])
  obtain d2 where 2: "rd (f_codec f) (vs0 ! f_index f) d1 = Ret (None, vs ! f_index f, d2)"
    "pend d2 = rest" using moves_dec [OF arm 1(2)] .
  have "vs0[f_index sw := vs ! f_index sw, f_index f := vs ! f_index f] = vs"
    using assms(1-5) by (intro nth_equalityI) (auto simp: nth_list_update split: if_splits)
  then show "\<exists>d'. unionCodec_Decode rd name sw body cases dflt sk (VStruct vs0) d
      = Ret (None, VStruct vs, d') \<and> pend d' = rest"
    using assms(1-4,8-) 1 2
    by (simp add: unionCodec_Decode_def field_decode_def reflected_def body_field_def Let_def arm_error_def)
qed

end

section \<open>Which values arrive\<close>

text \<open>
  \<open>transfers G c v0 v\<close>: sent with codec \<open>c\<close>, the value \<open>v\<close> arrives in a variable that held
  \<open>v0\<close>. The conditions are those of the code: declared maxima and 32-bit counts, fixed
  lengths, known union arms, non-nil pointers, pairwise different map keys, struct fields
  that are not sent equal on both sides; opaque data and strings must leave room for
  their padding below the largest int; slices must be such as the platform can allocate; a nil map, an empty non-nil slice and a signalling
  NaN do not arrive as they were and are absent. Values of recursive types go through
  \<open>t_deferred\<close>.
\<close>

inductive transfers :: "genv \<Rightarrow> codec \<Rightarrow> gvalue \<Rightarrow> gvalue \<Rightarrow> bool" for G :: genv where
  t_bool: "transfers G CBool (VBool a) (VBool b)"
| t_int8: "transfers G CInt8 (VInt8 a8) (VInt8 w8)"
| t_int16: "transfers G CInt16 (VInt16 a16) (VInt16 w16)"
| t_int32: "transfers G CInt32 (VInt32 a32) (VInt32 w32)"
| t_uint8: "transfers G CUint8 (VUint8 a8) (VUint8 w8)"
| t_uint16: "transfers G CUint16 (VUint16 a16) (VUint16 w16)"
| t_uint32: "transfers G CUint32 (VUint32 a32) (VUint32 w32)"
| t_hyper: "transfers G CHyper (VInt64 a64) (VInt64 w64)"
| t_uhyper: "transfers G CUhyper (VUint64 a64) (VUint64 w64)"
| t_float: "f32_via_f64 w32 = w32 \<Longrightarrow> transfers G CFloat (VFloat32 a32) (VFloat32 w32)"
| t_double: "transfers G CDouble (VFloat64 a64) (VFloat64 w64)"
| t_complex64: "f32_via_f64 x32 = x32 \<Longrightarrow> f32_via_f64 y32 = y32 \<Longrightarrow>
    transfers G CComplex64 (VComplex64 a32 b32) (VComplex64 x32 y32)"
| t_complex128: "transfers G CComplex128 (VComplex128 a64 b64) (VComplex128 x64 y64)"
| t_fixed_string: "length s = len \<Longrightarrow> transfers G (CFixedString len) (VString s0) (VString s)"
| t_var_string: "length s \<le> m \<Longrightarrow> length s \<le> max_u32 \<Longrightarrow> length s + 3 \<le> g_maxInt G \<Longrightarrow>
    transfers G (CVarString m om) (VString s0) (VString s)"
| t_opaque_array: "length s = length s0 \<Longrightarrow> byte_kind (g_types G) t \<Longrightarrow>
    transfers G (COpaqueArray t len) (VArray (map VUint8 s0)) (VArray (map VUint8 s))"
| t_array: "length vs0 = length vs \<Longrightarrow> \<forall>i<length vs. transfers G c (vs0 ! i) (vs ! i) \<Longrightarrow>
    transfers G (CArray c len sz) (VArray vs0) (VArray vs)"
| t_opaque_slice: "length s \<le> m \<Longrightarrow> length s \<le> max_u32 \<Longrightarrow> length s + 3 \<le> g_maxInt G \<Longrightarrow>
    elem_type (g_types G) t = Some GUint8 \<Longrightarrow>
    transfers G (COpaqueSlice t m om) v0 (VSlice (if s = [] then None else Some (map VUint8 s)))"
| t_slice_nil: "transfers G (CSlice c t m sz om) v0 (VSlice None)"
| t_slice: "\<forall>v\<in>set vs. transfers G c (zero_value (g_types G) t) v \<Longrightarrow> vs \<noteq> [] \<Longrightarrow> length vs \<le> m \<Longrightarrow>
    m \<le> max_u32 \<Longrightarrow> length vs * size_of (g_word G) (g_types G) t \<le> g_maxAlloc G \<Longrightarrow>
    transfers G (CSlice c t m sz om) v0 (VSlice (Some vs))"
| t_ptr: "transfers G c (zero_value (g_types G) t) x \<Longrightarrow> transfers G (CPtr c t) v0 (VPtr (Some x))"
| t_opt_nil: "v_IsNil nilp = Some True \<Longrightarrow> transfers G (COpt c nilp) v0 nilp"
| t_opt: "v_IsNil v = Some False \<Longrightarrow> transfers G c nilp v \<Longrightarrow> transfers G (COpt c nilp) v0 v"
| t_map: "\<forall>(k, v)\<in>set kvs. transfers G kc (zero_value (g_types G) kt) k
      \<and> transfers G vc (zero_value (g_types G) vt) v \<Longrightarrow>
    distinct_keys kvs \<Longrightarrow> length kvs \<le> m \<Longrightarrow> m \<le> max_u32 \<Longrightarrow>
    transfers G (CMap kc vc kt vt m om) v0 (VMap (Some kvs))"
| t_struct: "\<forall>f\<in>set fs. f_index f < length vs
      \<and> transfers G (f_codec f) (vs0 ! f_index f) (vs ! f_index f) \<Longrightarrow>
    length vs0 = length vs \<Longrightarrow> distinct (map f_index fs) \<Longrightarrow>
    \<forall>i<length vs. i \<notin> f_index ` set fs \<longrightarrow> vs0 ! i = vs ! i \<Longrightarrow>
    transfers G (CStruct name fs) (VStruct vs0) (VStruct vs)"
| t_union: "f_index sw < length vs \<Longrightarrow> f_index f < length vs \<Longrightarrow> f_index f \<noteq> f_index sw \<Longrightarrow>
    length vs0 = length vs \<Longrightarrow>
    \<forall>i<length vs. i \<noteq> f_index sw \<longrightarrow> i \<noteq> f_index f \<longrightarrow> vs0 ! i = vs ! i \<Longrightarrow>
    transfers G (f_codec sw) (vs0 ! f_index sw) (vs ! f_index sw) \<Longrightarrow>
    transfers G (f_codec f) (vs0 ! f_index f) (vs ! f_index f) \<Longrightarrow>
    union_swVal sk (vs ! f_index sw) = Ret w \<Longrightarrow> union_case cases dflt w = int i \<Longrightarrow>
    i < length body \<Longrightarrow> body ! i = Some f \<Longrightarrow>
    transfers G (CUnion name sw body cases dflt sk) (VStruct vs0) (VStruct vs)"
| t_deferred: "g_real G k = Some c \<Longrightarrow> transfers G c v0 v \<Longrightarrow> transfers G (CDeferred k) v0 v"
| t_wrapper: "transfers G c v0 v \<Longrightarrow> transfers G (CWrapper c t) v0 v"

context decoder_iface
begin

text \<open>With any large enough bound on the call depth.\<close>

definition carried :: "genv \<Rightarrow> codec \<Rightarrow> gvalue \<Rightarrow> gvalue \<Rightarrow> u8 list \<Rightarrow> bool" where
  "carried G c v0 v bs \<longleftrightarrow> (\<forall>\<^sub>F n in sequentially. moves (enc n G spec_enc c) (dec n G D c) v0 v bs)"

definition wire :: "genv \<Rightarrow> codec \<Rightarrow> gvalue \<Rightarrow> gvalue \<Rightarrow> u8 list" where
  "wire G c v0 v = (SOME bs. carried G c v0 v bs)"

lemma carriedI:
  assumes "\<forall>\<^sub>F n in sequentially. moves (enc (Suc n) G spec_enc c) (dec (Suc n) G D c) v0 v bs"
  shows "\<exists>bs. carried G c v0 v bs"
  using assms eventually_sequentially_Suc [of "\<lambda>n. moves (enc n G spec_enc c) (dec n G D c) v0 v bs"]
  by (auto simp: carried_def)

lemma carriedI0:
  assumes "\<And>n. moves (enc (Suc n) G spec_enc c) (dec (Suc n) G D c) v0 v bs"
  shows "\<exists>bs. carried G c v0 v bs"
  by (rule carriedI [where bs = bs]) (simp add: assms)

lemma carriedI1:
  assumes "\<exists>bs. carried G c v0 v bs"
    and "\<And>n bs. moves (enc n G spec_enc c) (dec n G D c) v0 v bs \<Longrightarrow>
       moves (enc (Suc n) G spec_enc c') (dec (Suc n) G D c') v0' v' (f bs)"
  shows "\<exists>bs. carried G c' v0' v' bs"
proof -
  from assms(1) obtain bs where "carried G c v0 v bs" by blast
  then show ?thesis unfolding carried_def
    by (intro carriedI [unfolded carried_def, where bs = "f bs"]) (auto elim: eventually_mono intro: assms(2))
qed

lemma carriedD:
  "\<exists>bs. carried G c v0 v bs \<Longrightarrow>
     \<forall>\<^sub>F n in sequentially. moves (enc n G spec_enc c) (dec n G D c) v0 v (wire G c v0 v)"
  unfolding wire_def carried_def [symmetric] by (rule someI_ex)

lemma carried_all:
  assumes "\<forall>x\<in>set xs. \<exists>bs. carried G (c x) (v0 x) (v x) bs"
  shows "\<forall>\<^sub>F n in sequentially. \<forall>x\<in>set xs.
     moves (enc n G spec_enc (c x)) (dec n G D (c x)) (v0 x) (v x) (wire G (c x) (v0 x) (v x))"
  using assms by (intro eventually_ball_finite) (auto intro: carriedD)

lemma carried_array:
  assumes "length vs0 = length vs" "\<forall>x\<in>set (zip vs0 vs). \<exists>bs. carried G c (fst x) (snd x) bs"
  shows "\<exists>bs. carried G (CArray c len sz) (VArray vs0) (VArray vs) bs"
  using carried_all [OF assms(2)]
proof (intro carriedI, elim eventually_mono)
  fix n assume "\<forall>x\<in>set (zip vs0 vs). moves (enc n G spec_enc c) (dec n G D c) (fst x) (snd x)
      (wire G c (fst x) (snd x))"
  then have "list_all2 (\<lambda>v0 v. moves (enc n G spec_enc c) (dec n G D c) v0 v (wire G c v0 v)) vs0 vs"
    using assms(1) by (auto simp: list_all2_iff)
  then show "moves (enc (Suc n) G spec_enc (CArray c len sz)) (dec (Suc n) G D (CArray c len sz))
      (VArray vs0) (VArray vs) (concat (map2 (wire G c) vs0 vs))"
    unfolding enc_unfold dec_unfold by (rule moves_array)
qed

lemma carried_entries:
  assumes "\<forall>x\<in>set kvs. \<exists>bs. carried G kc k0 (fst x) bs" "\<forall>x\<in>set kvs. \<exists>bs. carried G vc v0 (snd x) bs"
  shows "\<forall>\<^sub>F n in sequentially. \<forall>(k, v)\<in>set kvs.
      moves (enc n G spec_enc kc) (dec n G D kc) k0 k (wire G kc k0 k)
    \<and> moves (enc n G spec_enc vc) (dec n G D vc) v0 v (wire G vc v0 v)"
  using carried_all [OF assms(1)] carried_all [OF assms(2)] by eventually_elim auto

lemma carried_through:
  assumes "\<exists>bs. carried G c v0 v bs" "g_real G k = Some c"
  shows "\<exists>bs. carried G (CDeferred k) v0 v bs"
proof -
  have "enc (Suc n) G spec_enc (CDeferred k) = enc n G spec_enc c"
    "dec (Suc n) G D (CDeferred k) = dec n G D c" for n
    using assms(2) by (auto simp: deferredCodec_Encode_def deferredCodec_Decode_def fun_eq_iff)
  then show ?thesis by (intro carriedI1 [OF assms(1), where f = "\<lambda>bs. bs"]) simp
qed

lemma carried_transfers:
  assumes "transfers G c v0 v" and "g_maxInt G = M"
  shows "\<exists>bs. carried G c v0 v bs"
  using assms(1)
proof induction
  case (t_array vs0 vs c len sz)
  then show ?case by (intro carried_array) (auto simp: in_set_zip)
next
  case (t_slice vs c t m sz om v0)
  then have "\<forall>x\<in>set vs. \<exists>bs. carried G c (zero_value (g_types G) t) x bs" by blast
  from carried_all [OF this] show ?case
    by (intro carriedI, elim eventually_mono, unfold enc_unfold dec_unfold)
      (rule moves_slice, use t_slice in auto)
next
  case (t_map kvs kc kt vc vt m om v0)
  then have "\<forall>x\<in>set kvs. \<exists>bs. carried G kc (zero_value (g_types G) kt) (fst x) bs"
    "\<forall>x\<in>set kvs. \<exists>bs. carried G vc (zero_value (g_types G) vt) (snd x) bs" by auto
  from carried_entries [OF this] show ?case
    by (intro carriedI, elim eventually_mono, unfold enc_unfold dec_unfold)
      (rule moves_map, use t_map in auto)
next
  case (t_struct fs vs vs0 name)
  then have "\<forall>f\<in>set fs. \<exists>bs. carried G (f_codec f) (vs0 ! f_index f) (vs ! f_index f) bs" by blast
  from carried_all [OF this] show ?case
    by (intro carriedI, elim eventually_mono, unfold enc_unfold dec_unfold)
      (rule moves_struct, use t_struct in auto)
next
  case (t_union sw vs f vs0 sk w cases dflt i body name)
  note carriedD [OF t_union.IH(1)] carriedD [OF t_union.IH(2)]
  then have "\<forall>\<^sub>F n in sequentially.
      moves (union_encodeReflect (enc n G spec_enc) name sw body cases dflt sk)
        (unionCodec_Decode (dec n G D) name sw body cases dflt sk) (VStruct vs0) (VStruct vs)
        (wire G (f_codec sw) (vs0 ! f_index sw) (vs ! f_index sw)
         @ wire G (f_codec f) (vs0 ! f_index f) (vs ! f_index f))"
    by eventually_elim (rule moves_union, use t_union in auto)
  then show ?case by (intro carriedI) (simp only: enc_unfold dec_unfold)
next
  case (t_deferred k c v0 v)
  show ?case by (rule carried_through [OF t_deferred(3,1)])
next
  case (t_wrapper c v0 v t)
  then show ?case
    by (intro carriedI1 [OF t_wrapper(2), where f = "\<lambda>bs. bs"]) (simp only: enc_unfold dec_unfold)
next
  case (t_ptr c t x v0)
  show ?case
    by (rule carriedI1 [OF t_ptr(2), where f = "\<lambda>bs. bs"], unfold enc_unfold dec_unfold) (rule moves_ptr)
next
  case (t_opt v c nilp v0)
  show ?case
    by (rule carriedI1 [OF t_opt(3), where f = "\<lambda>bs. be32 1 @ bs"], unfold enc_unfold dec_unfold)
      (rule moves_opt [OF t_opt(1)])
next
  case (t_fixed_string s len s0)
  have "\<exists>bs. carried G (CFixedString (length s)) (VString s0) (VString s) bs"
    by (rule carriedI0, unfold enc_unfold dec_unfold) (rule moves_fixed_string)
  then show ?case using t_fixed_string by simp
qed (rule carriedI0, unfold enc_unfold dec_unfold,
    rule moves_bool moves_int moves_uint moves_hyper moves_float moves_complex64
      moves_complex128 moves_var_string moves_opaque_array moves_opaque_slice
      moves_slice_nil moves_opt_nil; simp add: assms(2))+

end

end
