(* ===== verification/Narrow.thy ===== *)
theory Narrow
  imports RoundTrip
begin

text \<open>
  Integers narrower than the 32 bits they have on the wire.
\<close>

lemma narrow_sint: "sint (ucast (scast (w :: u32) :: u64) :: u8) = (sint w + 128) mod 256 - 128"
  "sint (ucast (scast (w :: u32) :: u64) :: u16) = (sint w + 32768) mod 65536 - 32768"
proof -
  have "ucast (scast w :: u64) = (scast w :: u8)" "ucast (scast w :: u64) = (scast w :: u16)"
    by (rule bit_word_eqI; simp add: bit_simps)+
  then show "sint (ucast (scast w :: u64) :: u8) = (sint w + 128) mod 256 - 128"
    "sint (ucast (scast w :: u64) :: u16) = (sint w + 32768) mod 65536 - 32768"
    by (simp_all add: signed_scast_eq signed_take_bit_eq_take_bit_shift take_bit_eq_mod)
qed

text \<open>
  C40. Narrow integers: the codecs of \<open>int8\<close>, \<open>int16\<close>, \<open>uint8\<close> and \<open>uint16\<close> transfer 32 bits and
  accept any value; the decoded field holds the value modulo the width of its type, so it
  holds the value itself exactly if that is in the range of the type.
\<close>

theorem narrow_integers_wrap:
  assumes "D DecInt d = Ret (R32 w, None, d')" and "D DecUnsignedInt d = Ret (R32 w, None, d')"
  shows "(\<exists>y. dec (Suc n) G D CInt8 (VInt8 y8) d = Ret (None, VInt8 y, d') \<and> sint y = (sint w + 128) mod 256 - 128
        \<and> (sint y = sint w \<longleftrightarrow> sint w \<in> {-128..<128}))
    \<and> (\<exists>y. dec (Suc n) G D CInt16 (VInt16 y16) d = Ret (None, VInt16 y, d') \<and> sint y = (sint w + 32768) mod 65536 - 32768
        \<and> (sint y = sint w \<longleftrightarrow> sint w \<in> {-32768..<32768}))
    \<and> (\<exists>y. dec (Suc n) G D CUint8 (VUint8 y8) d = Ret (None, VUint8 y, d') \<and> unat y = unat w mod 256
        \<and> (unat y = unat w \<longleftrightarrow> unat w < 256))
    \<and> (\<exists>y. dec (Suc n) G D CUint16 (VUint16 y16) d = Ret (None, VUint16 y, d') \<and> unat y = unat w mod 65536
        \<and> (unat y = unat w \<longleftrightarrow> unat w < 65536))"
proof -
  have wrap: "((i + k) mod (2 * k) - k = i) = (i \<in> {- k..<k})" if "0 < k" for i k :: int
  proof -
    have "(i + k) mod (2 * k) - k = i \<longleftrightarrow> (i + k) mod (2 * k) = i + k" by linarith
    also have "\<dots> \<longleftrightarrow> 0 \<le> i + k \<and> i + k < 2 * k"
      using that by (metis mod_pos_pos_trivial pos_mod_bound pos_mod_sign zero_less_mult_iff zero_less_numeral)
    finally show ?thesis by auto
  qed
  have narrow: "(k mod m = k) = (k < m)" if "0 < m" for k m :: nat
    using that by (metis mod_less mod_less_divisor)
  have "ucast (ucast w :: u64) = (ucast w :: u8)" "ucast (ucast w :: u64) = (ucast w :: u16)"
    by (rule bit_word_eqI; simp add: bit_simps)+
  then have cast: "unat (ucast (ucast w :: u64) :: u8) = unat w mod 256" "unat (ucast (ucast w :: u64) :: u16) = unat w mod 65536"
    by (simp_all add: unsigned_ucast_eq take_bit_eq_mod)
  show ?thesis
    using assms wrap [of 128 "sint w"] wrap [of 32768 "sint w"]
    by (simp add: dec_unfold intCodec_Decode_def uintCodec_Decode_def dec_set_def reflected_def narrow_sint cast narrow)
qed

theorem narrow_integers_wrap_witness:
  "\<forall>G. \<exists>y. dec 1 G (\<lambda>k d. Ret (R32 300, None, d)) CInt8 (VInt8 0) () = Ret (None, VInt8 y, ()) \<and> sint y = 44"
proof
  fix G :: genv
  show "\<exists>y. dec 1 G (\<lambda>k d. Ret (R32 300, None, d)) CInt8 (VInt8 0) () = Ret (None, VInt8 y, ()) \<and> sint y = 44"
    using narrow_integers_wrap [of "\<lambda>k d. Ret (R32 300, None, d)" "()" 300 "()" 0 G 0 0] by auto
qed

end
