(* ===== verification/Lengths.thy ===== *)
theory Lengths
  imports Narrow Decoder
begin

text \<open>
  What becomes of the length at the front of an encoded string, byte slice, slice or map when
  the codec does not accept it, or the platform cannot allocate so much.
\<close>

lemma unat_wide: "unat (ucast (w :: u32) :: u64) = unat w"
proof -
  have "unat w < 2 ^ 64" using unsigned_less [of w, where ?'a = nat] by simp
  then show ?thesis by (simp add: unsigned_ucast_eq take_bit_nat_eq_self)
qed

text \<open>The tests of a \<open>LengthError\<close>, on a length of 32 bits.\<close>

lemma length_error_tests:
  "errors_is M (LengthError (ucast (l :: u32)) (ucast (m :: u32))) ErrLengthExceedsMax \<longleftrightarrow> m < l"
  "errors_is M (LengthError (ucast l) (ucast m)) ErrLengthExceedsPlatformLimit \<longleftrightarrow> M < unat l"
  by (simp_all add: LengthError_Is_def word_less_nat_alt unat_wide)

lemma capped_word:
  assumes "k = min (unat (m :: u32)) M"
  shows "(word_of_nat k :: u32) < l \<longleftrightarrow> k < unat l" "unat (word_of_nat k :: u64) = k"
proof -
  have "k < 2 ^ 32" using assms unsigned_less [of m, where ?'a = nat] by (simp add: min_def)
  then have "unat (word_of_nat k :: u32) = k" "unat (word_of_nat k :: u64) = k" by (simp_all add: unat_of_nat)
  then show "(word_of_nat k :: u32) < l \<longleftrightarrow> k < unat l" "unat (word_of_nat k :: u64) = k"
    by (simp_all add: word_less_nat_alt)
qed

context reader
begin

lemma length_read:
  assumes "pend d = be32 l @ rest"
  obtains d' where "decoder_call M rd DecUnsignedInt d = Ret (R32 l, None, d')" "pend d' = rest"
    "\<And>k. l \<noteq> 0 \<Longrightarrow> k < unat l \<Longrightarrow>
       DecodeOpaque M rd k d = Ret ([], Some (LengthError (ucast l) (word_of_nat k)), d')"
proof -
  obtain d' where d': "DecodeUnsignedInt rd d = Ret (l, None, d')" "pend d' = rest"
    by (rule DecodeUnsignedInt_ok [OF assms])
  show thesis by (rule that [of d']) (use d' in \<open>simp_all add: reply_def DecodeOpaque_def\<close>)
qed

end

text \<open>
  C6. Lengths from the input, on any lawful reader and for codecs with the maximum \<open>m\<close> of the
  schema, capped at the largest int. A length beyond the cap is refused with the rest of the
  input untouched. For strings, slices and maps the error tests as "too long" exactly when
  the length exceeds the maximum of the schema, and as "too long for the platform" exactly
  when it exceeds the largest int, so as both if it exceeds both (where the comment on
  \<open>ErrLengthExceedsPlatformLimit\<close> promises a length below the maximum), and as at least one;
  for opaque byte slices, whose codec does not restore the maximum of the schema, it tests
  as "too long" even if the schema admits the length. A slice length that is accepted, but
  stands for more bytes than the run-time system can address, panics.
\<close>

theorem lengths_from_the_input:
  assumes "reader rd pending finals wt" and "pending (dec_r d) = be32 l @ rest"
    and "k = min (unat (m :: u32)) (g_maxInt G)"
  shows "(k < unat l \<longrightarrow>
      (\<forall>c v. (\<exists>s. c = CVarString k m \<and> v = VString s) \<or> (\<exists>ec et sz. c = CSlice ec et k sz m)
          \<or> (\<exists>kc vc kt vt. c = CMap kc vc kt vt k m) \<longrightarrow>
        (\<exists>e v' d'. dec (Suc n) G (decoder_call (g_maxInt G) rd) c v d = Ret (Some e, v', d')
          \<and> pending (dec_r d') = rest
          \<and> (errors_is (g_maxInt G) e ErrLengthExceedsMax \<longleftrightarrow> m < l)
          \<and> (errors_is (g_maxInt G) e ErrLengthExceedsPlatformLimit \<longleftrightarrow> g_maxInt G < unat l)
          \<and> (m < l \<or> g_maxInt G < unat l)))
      \<and> (elem_type (g_types G) t = Some GUint8 \<longrightarrow>
        (\<exists>e v' d'. dec (Suc n) G (decoder_call (g_maxInt G) rd) (COpaqueSlice t k m) v d = Ret (Some e, v', d')
          \<and> pending (dec_r d') = rest
          \<and> errors_is (g_maxInt G) e ErrLengthExceedsMax
          \<and> (errors_is (g_maxInt G) e ErrLengthExceedsPlatformLimit \<longleftrightarrow> g_maxInt G < unat l))))
    \<and> (l \<noteq> 0 \<and> unat l \<le> k \<and> g_maxAlloc G < unat l * size_of (g_word G) (g_types G) et \<longrightarrow>
      dec (Suc n) G (decoder_call (g_maxInt G) rd) (CSlice ec et k sz m) v d = Panic alloc_panic)"
proof -
  let ?M = "g_maxInt G"
  note w = capped_word [OF assms(3)]
  obtain d' where d': "decoder_call ?M rd DecUnsignedInt d = Ret (R32 l, None, d')" "pending (dec_r d') = rest"
    "\<And>k. l \<noteq> 0 \<Longrightarrow> k < unat l \<Longrightarrow> DecodeOpaque ?M rd k d = Ret ([], Some (LengthError (ucast l) (word_of_nat k)), d')"
    by (rule reader.length_read [OF assms(1,2)]) blast
  have refused: "\<exists>v'. dec (Suc n) G (decoder_call ?M rd) c v d = Ret (Some (LengthError (ucast l) (ucast m)), v', d')"
    if k: "k < unat l" and "(\<exists>s. c = CVarString k m \<and> v = VString s) \<or> (\<exists>ec et sz. c = CSlice ec et k sz m)
      \<or> (\<exists>kc vc kt vt. c = CMap kc vc kt vt k m)" for c v
  proof -
    have "l \<noteq> 0" using k by auto
    then show ?thesis using that d' w(1) [of l]
      by (auto simp: dec_unfold varStringCodec_Decode_def varString_decode_def DecodeString_def reply_def reflected_def
          sliceCodec_Decode_def mapCodec_Decode_def dec_then_def)
  qed
  have opaque: "dec (Suc n) G (decoder_call ?M rd) (COpaqueSlice t k m) v d
      = Ret (Some (LengthError (ucast l) (word_of_nat k)), VSlice None, d')"
    if "k < unat l" "elem_type (g_types G) t = Some GUint8" for v
  proof -
    have "l \<noteq> 0" using that(1) by auto
    then show ?thesis using that d'(3) by (simp add: dec_unfold opaqueSliceCodec_Decode_def reply_def)
  qed
  have why: "m < l \<or> ?M < unat l" if "k < unat l"
    using that assms(3) by (auto simp: word_less_nat_alt min_def split: if_splits)
  note tests = length_error_tests [of ?M l m]
  have opq: "errors_is ?M (LengthError (ucast l) (word_of_nat k)) ErrLengthExceedsMax"
    "errors_is ?M (LengthError (ucast l) (word_of_nat k)) ErrLengthExceedsPlatformLimit \<longleftrightarrow> ?M < unat l"
    if "k < unat l" using that w(2) by (simp_all add: LengthError_Is_def word_less_nat_alt unat_wide)
  show ?thesis
  proof (intro conjI impI allI)
    fix c v assume k: "k < unat l" and c: "(\<exists>s. c = CVarString k m \<and> v = VString s)
      \<or> (\<exists>ec et sz. c = CSlice ec et k sz m) \<or> (\<exists>kc vc kt vt. c = CMap kc vc kt vt k m)"
    obtain v' where "dec (Suc n) G (decoder_call ?M rd) c v d = Ret (Some (LengthError (ucast l) (ucast m)), v', d')"
      using refused [OF k c] by blast
    then show "\<exists>e v' d'. dec (Suc n) G (decoder_call ?M rd) c v d = Ret (Some e, v', d') \<and> pending (dec_r d') = rest
      \<and> (errors_is ?M e ErrLengthExceedsMax \<longleftrightarrow> m < l)
      \<and> (errors_is ?M e ErrLengthExceedsPlatformLimit \<longleftrightarrow> ?M < unat l) \<and> (m < l \<or> ?M < unat l)"
      using d'(2) tests why [OF k] by blast
  next
    assume k: "k < unat l" and t: "elem_type (g_types G) t = Some GUint8"
    show "\<exists>e v' d'. dec (Suc n) G (decoder_call ?M rd) (COpaqueSlice t k m) v d = Ret (Some e, v', d')
      \<and> pending (dec_r d') = rest \<and> errors_is ?M e ErrLengthExceedsMax
      \<and> (errors_is ?M e ErrLengthExceedsPlatformLimit \<longleftrightarrow> ?M < unat l)"
      using opaque [OF k t] d'(2) opq [OF k] by blast
  next
    assume "l \<noteq> 0 \<and> unat l \<le> k \<and> g_maxAlloc G < unat l * size_of (g_word G) (g_types G) et"
    then show "dec (Suc n) G (decoder_call ?M rd) (CSlice ec et k sz m) v d = Panic alloc_panic"
      using d'(1) w(1) [of l]
      by (simp add: dec_unfold sliceCodec_Decode_def dec_then_def MakeSlice_def newarray_def)
  qed
qed

text \<open>
  Where ints have 32 bits, a slice of \<open>int32\<close> without a maximum panics on the length \<open>2 ^ 30\<close>.
\<close>

definition small_env :: genv where
  "small_env = \<lparr>g_maxInt = 2 ^ 31 - 1, g_maxAlloc = 2 ^ 32 - 1, g_types = [], g_nounsafe = True, g_real = Map.empty,
     g_marshal = \<lambda>_ _. EDone None, g_unmarshal = \<lambda>_ v. DDone None v, g_foreign_enc = \<lambda>_ _. EDone None,
     g_foreign_dec = \<lambda>_ v. DDone None v\<rparr>"

theorem lengths_from_the_input_witness:
  "(\<exists>e v' d'. dec 1 small_env (decoder_call (2 ^ 31 - 1) bytes_read) (CVarString (2 ^ 31 - 1) (2 ^ 32 - 1)) (VString [])
        \<lparr>dec_r = be32 (2 ^ 31), dec_cr = 0\<rparr> = Ret (Some e, v', d')
      \<and> \<not> errors_is (2 ^ 31 - 1) e ErrLengthExceedsMax \<and> errors_is (2 ^ 31 - 1) e ErrLengthExceedsPlatformLimit)
   \<and> (\<exists>e v' d'. dec 1 small_env (decoder_call (2 ^ 31 - 1) bytes_read) (COpaqueSlice (GSlice GUint8) (2 ^ 31 - 1) (2 ^ 32 - 1))
        (VSlice None) \<lparr>dec_r = be32 (2 ^ 31), dec_cr = 0\<rparr> = Ret (Some e, v', d') \<and> errors_is (2 ^ 31 - 1) e ErrLengthExceedsMax)
   \<and> dec 1 small_env (decoder_call (2 ^ 31 - 1) bytes_read) (CSlice CInt32 GInt32 (2 ^ 31 - 1) 4 (2 ^ 32 - 1))
        (VSlice None) \<lparr>dec_r = be32 (2 ^ 30), dec_cr = 0\<rparr> = Panic alloc_panic"
proof -
  have M: "g_maxInt small_env = 2 ^ 31 - 1" by (simp add: small_env_def)
  have k: "(2 ^ 31 - 1 :: nat) = min (unat (2 ^ 32 - 1 :: u32)) (g_maxInt small_env)" by (simp add: small_env_def)
  have r: "dec_r \<lparr>dec_r = be32 l, dec_cr = 0\<rparr> = be32 l @ []" for l by simp
  note t = lengths_from_the_input [OF bytes_reader.reader_axioms r k, of _ 0]
  have s: "size_of (g_word small_env) (g_types small_env) GInt32 = 4"
    by (simp add: small_env_def size_of_def word_bytes_def)
  have e: "elem_type (g_types small_env) (GSlice GUint8) = Some GUint8" by (simp add: elem_type_def under_def)
  have "(2 ^ 31 - 1 :: nat) < unat (2 ^ 31 :: u32)" by simp
  note big = t [of "2 ^ 31", THEN conjunct1, THEN mp, OF this]
  note str = big [THEN conjunct1, THEN spec, THEN spec, THEN mp, OF disjI1, OF exI, OF conjI [OF refl refl], of "[]"]
  note opq = big [of "GSlice GUint8", THEN conjunct2, THEN mp, OF e, of "VSlice None"]
  have a: "(2 ^ 30 :: u32) \<noteq> 0 \<and> unat (2 ^ 30 :: u32) \<le> 2 ^ 31 - 1
      \<and> g_maxAlloc small_env < unat (2 ^ 30 :: u32) * size_of (g_word small_env) (g_types small_env) GInt32"
    unfolding s by (simp add: small_env_def)
  note sl = t [of "2 ^ 30", THEN conjunct2, THEN mp, OF a, of CInt32 4 "VSlice None"]
  show ?thesis using str opq sl unfolding M by auto
qed

end
