(* ===== verification/EncSim.thy ===== *)
theory EncSim
  imports RoundTrip
begin

text \<open>
  The codecs run alike on every encoder: \<open>follows\<close> relates a run on an implementation of
  the encoder interface with the run on the specification encoder. On an encoder that
  never fails the two agree; on one that fails, the run on it reports a failure and has
  put out a prefix of the specified bytes.
\<close>

section \<open>Foreign code that passes errors on\<close>

text \<open>A marshaling program that stops with an error once a call has failed.\<close>

primrec honest :: "enc_prog \<Rightarrow> bool" where
  "honest (EDone err) \<longleftrightarrow> True"
| "honest (ECall c k) \<longleftrightarrow> (\<forall>r. honest (k r)) \<and> (\<forall>e. \<exists>e'. k (Some e) = EDone (Some e'))"

definition honest_env :: "genv \<Rightarrow> bool" where
  "honest_env G \<longleftrightarrow> (\<forall>t v. honest (g_marshal G t v)) \<and> (\<forall>k v. honest (g_foreign_enc G k v))"

section \<open>Comparison with the specification\<close>

text \<open>
  \<open>failed lossy\<close>: a run that may stop early has reported an error; \<open>sim\<close> compares a step
  on the implementation with the step on the specification encoder, whose state is the
  bytes so far, from every pair of corresponding states.
\<close>

definition grows :: "u8 list \<Rightarrow> u8 list enc_result \<Rightarrow> bool" where
  "grows s m \<longleftrightarrow> (\<forall>err s'. m = Ret (err, s') \<longrightarrow> prefix s s')"

definition failed :: "('e \<Rightarrow> u8 list) \<Rightarrow> u8 list \<Rightarrow> 'e enc_result \<Rightarrow> u8 list enc_result \<Rightarrow> u8 list \<Rightarrow> bool" where
  "failed out s m m' pre \<longleftrightarrow> (\<exists>err e'. m = Ret (Some err, e') \<and> prefix (pre @ s) (out e') \<and>
     (\<forall>err' s'. m' = Ret (err', s') \<longrightarrow> prefix (out e') (pre @ s')))"

definition agrees :: "('e \<Rightarrow> u8 list) \<Rightarrow> u8 list \<Rightarrow> 'e enc_result \<Rightarrow> u8 list enc_result \<Rightarrow> bool" where
  "agrees out pre m m' \<longleftrightarrow> (case m' of
      Ret (err, s') \<Rightarrow> \<exists>e'. m = Ret (err, e') \<and> out e' = pre @ s'
    | Panic x \<Rightarrow> m = Panic x | Blocked \<Rightarrow> m = Blocked | Spent \<Rightarrow> m = Spent)"

definition sim :: "bool \<Rightarrow> ('e \<Rightarrow> u8 list) \<Rightarrow> ('e \<Rightarrow> 'e enc_result) \<Rightarrow> (u8 list \<Rightarrow> u8 list enc_result) \<Rightarrow> bool" where
  "sim lossy out f f' \<longleftrightarrow> (\<forall>s. grows s (f' s) \<and>
     (\<forall>e pre. out e = pre @ s \<longrightarrow> agrees out pre (f e) (f' s) \<or> lossy \<and> failed out s (f e) (f' s) pre))"

lemma simI:
  assumes "\<And>s. grows s (f' s)"
    and "\<And>s e pre. out e = pre @ s \<Longrightarrow> agrees out pre (f e) (f' s) \<or> lossy \<and> failed out s (f e) (f' s) pre"
  shows "sim lossy out f f'"
  using assms by (simp add: sim_def)

lemma simD:
  assumes "sim lossy out f f'"
  shows "grows s (f' s)"
    and "out e = pre @ s \<Longrightarrow> agrees out pre (f e) (f' s) \<or> lossy \<and> failed out s (f e) (f' s) pre"
  using assms by (simp_all add: sim_def)

lemma sim_ret: "sim lossy out (\<lambda>e. Ret (err, e)) (\<lambda>s. Ret (err, s))"
  by (simp add: sim_def grows_def agrees_def)

lemma sim_stop:
  "sim lossy out (\<lambda>e. Panic x) (\<lambda>s. Panic x)" "sim lossy out (\<lambda>e. Blocked) (\<lambda>s. Blocked)"
  "sim lossy out (\<lambda>e. Spent) (\<lambda>s. Spent)"
  by (simp_all add: sim_def grows_def agrees_def)

lemma sim_pure:
  assumes "\<And>x. m = Ret x \<Longrightarrow> sim lossy out (f x) (f' x)"
  shows "sim lossy out (\<lambda>e. obind m (\<lambda>x. f x e)) (\<lambda>s. obind m (\<lambda>x. f' x s))"
  using assms by (cases m) (simp_all add: sim_stop)

lemma sim_then:
  assumes f: "sim lossy out f f'" and g: "sim lossy out g g'"
  shows "sim lossy out (\<lambda>e. enc_then (f e) g) (\<lambda>s. enc_then (f' s) g')"
proof (rule simI)
  fix s
  from simD(1) [OF f, of s] simD(1) [OF g] show "grows s (enc_then (f' s) g')"
    by (auto simp: grows_def enc_then_def split: if_splits) (meson prefix_order.trans)
next
  fix s e pre assume e: "out e = pre @ s"
  show "agrees out pre (enc_then (f e) g) (enc_then (f' s) g')
      \<or> lossy \<and> failed out s (enc_then (f e) g) (enc_then (f' s) g') pre"
    using simD(2) [OF f e]
  proof
    assume a: "agrees out pre (f e) (f' s)"
    show ?thesis
    proof (cases "f' s")
      case (Ret r)
      obtain err s' where r: "r = (err, s')" by (cases r)
      with a Ret obtain e' where e': "f e = Ret (err, e')" "out e' = pre @ s'" by (auto simp: agrees_def)
      have "prefix s s'" using simD(1) [OF f, of s] Ret r by (simp add: grows_def)
      then have "prefix (pre @ s) x" if "prefix (pre @ s') x" for x
        using that by (meson prefix_order.trans same_prefix_prefix)
      then show ?thesis
        using simD(2) [OF g e'(2)] Ret r e'
        by (cases err) (auto simp: enc_then_def agrees_def failed_def)
    qed (use a in \<open>simp_all add: agrees_def enc_then_def\<close>)
  next
    assume l: "lossy \<and> failed out s (f e) (f' s) pre"
    then obtain err e' where e': "f e = Ret (Some err, e')" "prefix (pre @ s) (out e')"
      "\<forall>err' s'. f' s = Ret (err', s') \<longrightarrow> prefix (out e') (pre @ s')" by (auto simp: failed_def)
    have "prefix (out e') (pre @ s'')" if "enc_then (f' s) g' = Ret (err', s'')" for err' s''
    proof -
      from that obtain err1 s1 where 1: "f' s = Ret (err1, s1)" by (auto simp: enc_then_def)
      with that have "prefix s1 s''"
        using simD(1) [OF g, of s1] by (auto simp: enc_then_def grows_def split: if_splits)
      with e'(3) 1 show ?thesis by (meson prefix_order.trans same_prefix_prefix)
    qed
    with l e' show ?thesis by (auto simp: failed_def enc_then_def)
  qed
qed

text \<open>Rewriting the error that is returned.\<close>

definition map_err :: "(gerror option \<Rightarrow> gerror option) \<Rightarrow> 'e enc_result \<Rightarrow> 'e enc_result" where
  "map_err h m = obind m (\<lambda>(err, e). Ret (h err, e))"

lemma sim_map_err:
  assumes "sim lossy out f f'" and "\<And>err. h err = None \<longleftrightarrow> err = None"
  shows "sim lossy out (\<lambda>e. map_err h (f e)) (\<lambda>s. map_err h (f' s))"
proof (rule simI)
  fix s show "grows s (map_err h (f' s))"
    using simD(1) [OF assms(1), of s] by (auto simp: grows_def map_err_def)
next
  fix s e pre assume e: "out e = pre @ s"
  have h: "\<exists>y. h (Some x) = Some y" for x using assms(2) [of "Some x"] by auto
  show "agrees out pre (map_err h (f e)) (map_err h (f' s))
      \<or> lossy \<and> failed out s (map_err h (f e)) (map_err h (f' s)) pre"
    using simD(2) [OF assms(1) e] h
    by (cases "f' s") (fastforce simp: agrees_def failed_def map_err_def)+
qed

section \<open>Calls and foreign code\<close>

definition call_sim :: "bool \<Rightarrow> ('e \<Rightarrow> u8 list) \<Rightarrow> 'e encoder_fn \<Rightarrow> bool" where
  "call_sim lossy out E \<longleftrightarrow> (\<forall>c. sim lossy out (\<lambda>e. Ret (E c e)) (\<lambda>s. Ret (spec_enc c s)))"


text \<open>Foreign code makes one call and goes on with what it returned.\<close>

lemma sim_foreign_call:
  assumes call: "sim lossy out (\<lambda>e. Ret (E c e)) (\<lambda>s. Ret (spec_enc c s))"
    and k: "\<And>r. sim lossy out (\<lambda>e. Ret (run_enc E (k r) e)) (\<lambda>s. Ret (run_enc spec_enc (k r) s))"
    and honest: "\<And>x. lossy \<Longrightarrow> \<exists>y. k (Some x) = EDone (Some y)"
  shows "sim lossy out (\<lambda>e. Ret (run_enc E (ECall c k) e)) (\<lambda>s. Ret (run_enc spec_enc (ECall c k) s))"
proof (rule simI)
  fix s
  show "grows s (Ret (run_enc spec_enc (ECall c k) s))"
    using simD(1) [OF k, of "s @ snd (call_spec c)" "fst (call_spec c)"]
    by (auto simp: grows_def spec_enc_def dest: append_prefixD)
next
  fix s e pre assume e: "out e = pre @ s"
  obtain err' e' where e': "E c e = (err', e')" by (cases "E c e")
  let ?s = "s @ snd (call_spec c)" and ?err = "fst (call_spec c)"
  have spec: "run_enc spec_enc (ECall c k) s = run_enc spec_enc (k ?err) ?s"
    by (simp add: spec_enc_def)
  have mono: "prefix ?s s''" if "run_enc spec_enc (k ?err) ?s = (err, s'')" for err s''
    using simD(1) [OF k, of ?s ?err] that by (simp add: grows_def)
  from simD(2) [OF call e] consider
      (same) "err' = ?err" "out e' = pre @ ?s"
    | (early) x where "lossy" "err' = Some x" "prefix (pre @ s) (out e')" "prefix (out e') (pre @ ?s)"
    by (auto simp: agrees_def failed_def spec_enc_def e')
  then show "agrees out pre (Ret (run_enc E (ECall c k) e)) (Ret (run_enc spec_enc (ECall c k) s))
    \<or> lossy \<and> failed out s (Ret (run_enc E (ECall c k) e)) (Ret (run_enc spec_enc (ECall c k) s)) pre"
  proof cases
    case same
    from simD(2) [OF k same(2), of ?err] show ?thesis
      unfolding spec using e' same(1)
      by (auto simp: failed_def append_assoc [symmetric] simp del: append_assoc dest: append_prefixD)
  next
    case early
    obtain y where "k (Some x) = EDone (Some y)" using honest [OF early(1)] by blast
    then have "run_enc E (ECall c k) e = (Some y, e')" using e' early(2) by simp
    moreover have "prefix (out e') (pre @ s'')" if "run_enc spec_enc (k ?err) ?s = (err, s'')" for err s''
      using mono [OF that] early(4) by (meson prefix_order.trans same_prefix_prefix)
    ultimately show ?thesis unfolding spec using early by (auto simp: failed_def)
  qed
qed

lemma sim_run:
  assumes "call_sim lossy out E" and "lossy \<Longrightarrow> honest p"
  shows "sim lossy out (\<lambda>e. Ret (run_enc E p e)) (\<lambda>s. Ret (run_enc spec_enc p s))"
  using assms(2)
proof (induction p)
  case (ECall c k)
  have "sim lossy out (\<lambda>e. Ret (E c e)) (\<lambda>s. Ret (spec_enc c s))" using assms(1) by (simp add: call_sim_def)
  then show ?case by (rule sim_foreign_call) (use ECall in auto)
qed (simp add: sim_ret)

context encoder_iface
begin

lemma lossy_calls: "call_sim True out E"
  unfolding call_sim_def
proof (intro allI simI)
  fix c s show "grows s (Ret (spec_enc c s))" by (simp add: grows_def spec_enc_def)
next
  fix c s e pre assume e: "out e = pre @ s"
  obtain err e' where r: "E c e = (err, e')" by (cases "E c e")
  from call_law [OF r] e show "agrees out pre (Ret (E c e)) (Ret (spec_enc c s))
      \<or> True \<and> failed out s (Ret (E c e)) (Ret (spec_enc c s)) pre"
    by (cases err) (auto simp: r agrees_def failed_def spec_enc_def)
qed

end

context total_encoder
begin

lemma total_calls: "call_sim False out E"
  unfolding call_sim_def
proof (intro allI simI)
  fix c s show "grows s (Ret (spec_enc c s))" by (simp add: grows_def spec_enc_def)
next
  fix c s e pre assume e: "out e = pre @ s"
  obtain e' where "E c e = (fst (call_spec c), e')" "out e' = out e @ snd (call_spec c)"
    by (rule call_obtain)
  with e show "agrees out pre (Ret (E c e)) (Ret (spec_enc c s))
      \<or> False \<and> failed out s (Ret (E c e)) (Ret (spec_enc c s)) pre"
    by (simp add: agrees_def spec_enc_def)
qed

end

section \<open>The methods of the codecs\<close>

lemma sim_call: "call_sim lossy out E \<Longrightarrow> sim lossy out (\<lambda>e. Ret (E c e)) (\<lambda>s. Ret (spec_enc c s))"
  by (simp add: call_sim_def)

lemma sim_if:
  "(b \<Longrightarrow> sim lossy out f f') \<Longrightarrow> (\<not> b \<Longrightarrow> sim lossy out g g') \<Longrightarrow>
     sim lossy out (\<lambda>e. if b then f e else g e) (\<lambda>s. if b then f' s else g' s)"
  by (cases b) simp_all

lemmas sim_intros = sim_pure sim_if sim_then sim_call sim_ret sim_stop

lemma sim_primitive:
  assumes "call_sim lossy out E"
  shows "sim lossy out (boolCodec_Encode E v) (boolCodec_Encode spec_enc v)"
    and "sim lossy out (intCodec_Encode E v) (intCodec_Encode spec_enc v)"
    and "sim lossy out (uintCodec_Encode E v) (uintCodec_Encode spec_enc v)"
    and "sim lossy out (hyperCodec_Encode E v) (hyperCodec_Encode spec_enc v)"
    and "sim lossy out (uhyperCodec_Encode E v) (uhyperCodec_Encode spec_enc v)"
    and "sim lossy out (floatCodec_Encode E v) (floatCodec_Encode spec_enc v)"
    and "sim lossy out (doubleCodec_Encode E v) (doubleCodec_Encode spec_enc v)"
  unfolding boolCodec_Encode_def [abs_def] intCodec_Encode_def [abs_def] uintCodec_Encode_def [abs_def]
    hyperCodec_Encode_def [abs_def] uhyperCodec_Encode_def [abs_def] floatCodec_Encode_def [abs_def]
    doubleCodec_Encode_def [abs_def]
  by (rule sim_pure, rule sim_call, rule assms)+

lemma sim_complex:
  assumes "call_sim lossy out E"
  shows "sim lossy out (complex64Codec_Encode E v) (complex64Codec_Encode spec_enc v)"
    and "sim lossy out (complex128Codec_Encode E v) (complex128Codec_Encode spec_enc v)"
  unfolding complex64Codec_Encode_def [abs_def] complex128Codec_Encode_def [abs_def] split_def
  by (intro sim_intros assms)+

lemma sim_string:
  assumes "call_sim lossy out E"
  shows "sim lossy out (fixedStringCodec_Encode len E v) (fixedStringCodec_Encode len spec_enc v)"
    and "sim lossy out (varStringCodec_Encode m om E v) (varStringCodec_Encode m om spec_enc v)"
  unfolding fixedStringCodec_Encode_def [abs_def] varStringCodec_Encode_def [abs_def]
    fixedString_encode_def varString_encode_def
  by (intro sim_intros assms)+

lemma sim_opaque:
  assumes "call_sim lossy out E"
  shows "sim lossy out (opaqueArrayCodec_Encode G t E v) (opaqueArrayCodec_Encode G t spec_enc v)"
    and "sim lossy out (opaqueSliceCodec_Encode G t m om E v) (opaqueSliceCodec_Encode G t m om spec_enc v)"
  unfolding opaqueArrayCodec_Encode_def [abs_def] opaqueSliceCodec_Encode_def [abs_def]
  by (intro sim_intros assms)+

lemma sim_elems:
  assumes "\<And>x. sim lossy out (ef x) (ef' x)"
  shows "sim lossy out (enc_elems ef vs) (enc_elems ef' vs)"
proof (induction vs)
  case (Cons v vs)
  then show ?case using sim_then [OF assms Cons] by simp
qed (simp add: sim_ret)

lemma sim_entries:
  assumes "\<And>x. sim lossy out (kf x) (kf' x)" and "\<And>x. sim lossy out (vf x) (vf' x)"
  shows "sim lossy out (enc_entries kf vf kvs) (enc_entries kf' vf' kvs)"
proof (induction kvs)
  case (Cons kv kvs)
  obtain k v where "kv = (k, v)" by (cases kv)
  then show ?case using sim_then [OF assms(1) sim_then [OF assms(2) Cons]] by simp
qed (simp add: sim_ret)

lemma sim_sequences:
  assumes "call_sim lossy out E" and "\<And>x. sim lossy out (ef x) (ef' x)"
    and "\<And>x. sim lossy out (kf x) (kf' x)"
  shows "sim lossy out (arrayCodec_Encode ef v) (arrayCodec_Encode ef' v)"
    and "sim lossy out (sliceCodec_Encode m om E ef v) (sliceCodec_Encode m om spec_enc ef' v)"
    and "sim lossy out (mapCodec_Encode m om E kf ef v) (mapCodec_Encode m om spec_enc kf' ef' v)"
  unfolding arrayCodec_Encode_def [abs_def] sliceCodec_Encode_def [abs_def] mapCodec_Encode_def [abs_def]
    Let_def
  by (intro sim_intros assms sim_elems sim_entries)+

lemma sim_pointers:
  assumes "call_sim lossy out E" and "\<And>x. sim lossy out (ef x) (ef' x)"
  shows "sim lossy out (ptrCodec_Encode ef v) (ptrCodec_Encode ef' v)"
    and "sim lossy out (optCodec_Encode E ef v) (optCodec_Encode spec_enc ef' v)"
  unfolding ptrCodec_Encode_def [abs_def] optCodec_Encode_def [abs_def]
  by (intro sim_intros assms)+

text \<open>Struct and union methods as sequences of inner runs whose errors are rewritten.\<close>

lemma struct_step:
  "struct_encodeReflect rc name (f # fs) v = (\<lambda>e. obind (reflected (v_Field v (f_index f))) (\<lambda>x.
     enc_then (map_err (\<lambda>err. WithFieldError err [name, f_name f]) (rc (f_codec f) x e))
       (struct_encodeReflect rc name fs v)))"
proof
  fix e
  show "struct_encodeReflect rc name (f # fs) v e = obind (reflected (v_Field v (f_index f))) (\<lambda>x.
     enc_then (map_err (\<lambda>err. WithFieldError err [name, f_name f]) (rc (f_codec f) x e))
       (struct_encodeReflect rc name fs v))"
    by (simp add: field_encode_def enc_then_def map_err_def obind_assoc split_def cong: obind_cong if_cong del: not_None_eq)
qed

lemma union_steps:
  "union_encodeReflect rc name sw body cases dflt sk v = (\<lambda>e. obind (reflected (v_Field v (f_index sw))) (\<lambda>x.
     enc_then (map_err (\<lambda>err. WithFieldError err [name, f_name sw, ''union:switch'']) (rc (f_codec sw) x e))
       (\<lambda>e1. obind (union_swVal sk x) (\<lambda>w.
         if union_case cases dflt w = -1 then Ret (undefined_arm name (union_case cases dflt w), e1)
         else obind (body_field body (union_case cases dflt w)) (\<lambda>f.
           obind (reflected (v_Field v (f_index f))) (\<lambda>y.
             map_err (arm_error name (f_name f) w) (rc (f_codec f) y e1)))))))"
proof
  fix e
  show "union_encodeReflect rc name sw body cases dflt sk v e = obind (reflected (v_Field v (f_index sw))) (\<lambda>x.
     enc_then (map_err (\<lambda>err. WithFieldError err [name, f_name sw, ''union:switch'']) (rc (f_codec sw) x e))
       (\<lambda>e1. obind (union_swVal sk x) (\<lambda>w.
         if union_case cases dflt w = -1 then Ret (undefined_arm name (union_case cases dflt w), e1)
         else obind (body_field body (union_case cases dflt w)) (\<lambda>f.
           obind (reflected (v_Field v (f_index f))) (\<lambda>y.
             map_err (arm_error name (f_name f) w) (rc (f_codec f) y e1))))))"
    by (simp add: union_encodeReflect_def field_encode_def enc_then_def map_err_def obind_assoc split_def
        Let_def cong: obind_cong if_cong del: not_None_eq)
qed

lemma sim_struct:
  assumes "\<And>c x. sim lossy out (rc c x) (rc' c x)"
  shows "sim lossy out (struct_encodeReflect rc name fs v) (struct_encodeReflect rc' name fs v)"
proof (induction fs)
  case (Cons f fs)
  show ?case unfolding struct_step
    by (intro sim_pure sim_then sim_map_err assms Cons) simp
qed (simp add: sim_ret)

lemma sim_union:
  assumes "\<And>c x. sim lossy out (rc c x) (rc' c x)"
  shows "sim lossy out (union_encodeReflect rc name sw body cases dflt sk v)
    (union_encodeReflect rc' name sw body cases dflt sk v)"
  unfolding union_steps
  by (intro sim_pure sim_then sim_map_err sim_if sim_ret assms) (simp_all add: arm_error_def)

lemma sim_special:
  assumes "call_sim lossy out E" and "lossy \<Longrightarrow> honest_env G" and "\<And>c x. sim lossy out (rc c x) (rc' c x)"
  shows "sim lossy out (marshalerCodec_Encode G t E v) (marshalerCodec_Encode G t spec_enc v)"
    and "sim lossy out (deferredCodec_Encode G k rc v) (deferredCodec_Encode G k rc' v)"
proof -
  show "sim lossy out (marshalerCodec_Encode G t E v) (marshalerCodec_Encode G t spec_enc v)"
  proof (cases "\<exists>p. v = VIface p")
    case True
    then obtain p where "v = VIface p" by blast
    then show ?thesis using assms(1,2)
      by (cases p) (auto simp: marshalerCodec_Encode_def [abs_def] honest_env_def sim_stop sim_run)
  next
    case False
    then show ?thesis using assms(1,2)
      by (cases v) (simp_all add: marshalerCodec_Encode_def [abs_def] honest_env_def sim_run)
  qed
  show "sim lossy out (deferredCodec_Encode G k rc v) (deferredCodec_Encode G k rc' v)"
    by (cases "g_real G k") (simp_all add: deferredCodec_Encode_def [abs_def] sim_stop assms(3))
qed

lemma enc_sim:
  assumes "call_sim lossy out E" and "lossy \<Longrightarrow> honest_env G"
  shows "sim lossy out (enc n G E c v) (enc n G spec_enc c v)"
proof (induction n arbitrary: c v)
  case 0
  have "enc 0 G E c v = (\<lambda>e. Spent)" "enc 0 G spec_enc c v = (\<lambda>s. Spent)" by auto
  then show ?case by (simp add: sim_stop)
next
  case (Suc n)
  note ms = sim_primitive sim_complex sim_string sim_opaque
  show ?case
  proof (cases c)
    case (CError err)
    then show ?thesis by (simp add: sim_ret fun_eq_iff [symmetric])
  next
    case (CForeign k)
    then show ?thesis
      using assms by (simp add: honest_env_def sim_run)
  next
    case (CStruct name fs)
    then show ?thesis unfolding CStruct enc_unfold by (intro sim_struct Suc)
  next
    case (CUnion name sw body cases dflt sk)
    then show ?thesis unfolding CUnion enc_unfold by (intro sim_union Suc)
  qed (simp_all only: enc_unfold ms [OF assms(1)] sim_sequences [OF assms(1) Suc Suc]
      sim_pointers [OF assms(1) Suc] sim_special [OF assms Suc] Suc)
qed

end
