(* ===== verification/Wire.thy ===== *)
theory Wire
  imports EncSim Encoder Decoder
begin

text \<open>
  The codecs on the encoder and the decoder of the package: what is marshaled is read
  back, whatever writer and reader lie below; a failing writer never gets anything but a
  prefix of the encoding; and everything on the wire is a multiple of four bytes.
\<close>

section \<open>Reachable encoder states\<close>

text \<open>What every call keeps of the state, every codec keeps.\<close>

locale enc_keeps =
  fixes E :: "'e encoder_fn" and Q :: "'e \<Rightarrow> 'e \<Rightarrow> bool"
  assumes keep_call: "Q e (snd (E c e))"
    and keep_refl: "Q e e"
    and keep_trans: "Q e1 e2 \<Longrightarrow> Q e2 e3 \<Longrightarrow> Q e1 e3"
begin

definition keeps :: "'e \<Rightarrow> 'e enc_result \<Rightarrow> bool" where
  "keeps e m \<longleftrightarrow> (\<forall>err e'. m = Ret (err, e') \<longrightarrow> Q e e')"

lemma keeps_call: "keeps e (Ret (E c e))"
  using keep_call [of e c] by (auto simp: keeps_def)

lemma keeps_ret: "keeps e (Ret (err, e))"
  by (simp add: keeps_def keep_refl)

lemma keeps_then: "keeps e m \<Longrightarrow> (\<And>e'. keeps e' (k e')) \<Longrightarrow> keeps e (enc_then m k)"
  by (auto simp: keeps_def enc_then_def split: if_splits) (meson keep_trans)

lemma keeps_pure: "(\<And>x. keeps e (f x)) \<Longrightarrow> keeps e (obind (m :: 'b outcome) f)"
  by (auto simp: keeps_def)

lemma keeps_map_err: "keeps e m \<Longrightarrow> keeps e (map_err h m)"
  by (auto simp: keeps_def map_err_def)

lemma keeps_if: "keeps e f \<Longrightarrow> keeps e g \<Longrightarrow> keeps e (if b then f else g)"
  by simp

lemma keeps_run: "keeps e (Ret (run_enc E p e))"
proof (induction p arbitrary: e)
  case (ECall c k)
  obtain err e' where "E c e = (err, e')" by (cases "E c e")
  moreover from this have "Q e e'" using keep_call [of e c] by simp
  ultimately show ?case using ECall.IH [of _ e'] by (auto simp: keeps_def intro: keep_trans)
qed (simp add: keeps_ret)

lemma keeps_elems: "(\<And>x e. keeps e (ef x e)) \<Longrightarrow> keeps e (enc_elems ef vs e)"
  by (induction vs arbitrary: e) (simp_all add: keeps_ret keeps_then)

lemma keeps_entries:
  "(\<And>x e. keeps e (kf x e)) \<Longrightarrow> (\<And>x e. keeps e (vf x e)) \<Longrightarrow> keeps e (enc_entries kf vf kvs e)"
proof (induction kvs arbitrary: e)
  case (Cons kv kvs)
  then show ?case by (cases kv) (simp, intro keeps_then, auto)
qed (simp add: keeps_ret)

lemma keeps_struct: "(\<And>c x e. keeps e (rc c x e)) \<Longrightarrow> keeps e (struct_encodeReflect rc name fs v e)"
proof (induction fs arbitrary: e)
  case (Cons f fs)
  then show ?case unfolding struct_step by (intro keeps_pure keeps_then keeps_map_err) auto
qed (simp add: keeps_ret)

lemma keeps_union:
  "(\<And>c x e. keeps e (rc c x e)) \<Longrightarrow> keeps e (union_encodeReflect rc name sw body cases dflt sk v e)"
  unfolding union_steps by (intro keeps_pure keeps_then keeps_map_err keeps_if keeps_ret)

lemmas keeps_intros = keeps_pure keeps_if keeps_then keeps_call keeps_ret

lemma enc_keeps: "keeps e (enc n G E c v e)"
proof (induction n arbitrary: c v e)
  case (Suc n)
  show ?case
  proof (cases c)
    case (CDeferred k)
    then show ?thesis using Suc by (auto simp: deferredCodec_Encode_def keeps_def split: option.split)
  next
    case (CMarshaler t)
    then show ?thesis
      using keeps_run by (auto simp: marshalerCodec_Encode_def keeps_def split: gvalue.split option.split)
  qed (auto simp: boolCodec_Encode_def intCodec_Encode_def uintCodec_Encode_def hyperCodec_Encode_def
      uhyperCodec_Encode_def floatCodec_Encode_def doubleCodec_Encode_def complex64Codec_Encode_def
      complex128Codec_Encode_def fixedStringCodec_Encode_def varStringCodec_Encode_def
      fixedString_encode_def varString_encode_def opaqueArrayCodec_Encode_def
      opaqueSliceCodec_Encode_def arrayCodec_Encode_def sliceCodec_Encode_def mapCodec_Encode_def
      ptrCodec_Encode_def optCodec_Encode_def Let_def Suc keeps_run
      intro!: keeps_intros keeps_elems keeps_entries keeps_struct keeps_union simp del: obind.simps)
qed (simp add: keeps_def)

end

text \<open>
  On an encoder that never fails, everything a codec puts out is a multiple of four bytes.
\<close>

definition aligned_ext :: "('e \<Rightarrow> u8 list) \<Rightarrow> 'e \<Rightarrow> 'e \<Rightarrow> bool" where
  "aligned_ext out e e' \<longleftrightarrow> (\<exists>q. out e' = out e @ q \<and> 4 dvd length q)"

lemma aligned_ext_trans: "aligned_ext out e1 e2 \<Longrightarrow> aligned_ext out e2 e3 \<Longrightarrow> aligned_ext out e1 e3"
  unfolding aligned_ext_def by (metis append_assoc dvd_add length_append)

context total_encoder
begin

lemma aligned_keeps: "enc_keeps E (aligned_ext out)"
proof
  fix e c show "aligned_ext out e (snd (E c e))"
    using call_obtain [of c e] call_spec_aligned [of c] by (metis aligned_ext_def snd_conv)
next
  show "aligned_ext out e e" for e by (auto simp: aligned_ext_def)
qed (rule aligned_ext_trans)

lemma enc_aligned:
  assumes "enc n G E c v e = Ret (err, e')"
  shows "\<exists>q. out e' = out e @ q \<and> 4 dvd length q"
  using enc_keeps.enc_keeps [OF aligned_keeps, of e n G c v] assms
  by (simp add: enc_keeps.keeps_def [OF aligned_keeps] aligned_ext_def)

end

interpretation buffer_keeps: enc_keeps "encoder_call buffer_ops" "aligned_ext enc_w"
  by (rule buffer_encoder.aligned_keeps)

section \<open>Codecs on any writer and reader\<close>

lemma codec_round_trip:
  assumes "transfers G c v0 v"
    and "total_writer W written" and "reader rd pending finals wt"
  shows "\<exists>n0 bs. \<forall>n\<ge>n0.
     (\<forall>e. \<exists>e'. enc n G (encoder_call W) c v e = Ret (None, e') \<and> written (enc_w e') = written (enc_w e) @ bs)
   \<and> (\<forall>d rest. pending (dec_r d) = bs @ rest \<longrightarrow>
        (\<exists>d'. dec n G (decoder_call (g_maxInt G) rd) c v0 d = Ret (None, v, d') \<and> pending (dec_r d') = rest))"
proof -
  note di = reader.decoder_is_iface [OF assms(3), of "g_maxInt G"]
  note te = total_writer.encoder_is_total [OF assms(2)]
  obtain n0 bs where n0: "\<And>n. n \<ge> n0 \<Longrightarrow>
      decoder_iface.moves (\<lambda>d. pending (dec_r d)) (enc n G spec_enc c)
        (dec n G (decoder_call (g_maxInt G) rd) c) v0 v bs"
    using decoder_iface.carried_transfers [OF di assms(1) refl]
    by (auto simp: decoder_iface.carried_def [OF di] eventually_sequentially)
  have "\<exists>e'. enc n G (encoder_call W) c v e = Ret (None, e') \<and> written (enc_w e') = written (enc_w e) @ bs"
    if "n \<ge> n0" for n e
  proof -
    have "enc n G spec_enc c v [] = Ret (None, [] @ bs)"
      by (rule decoder_iface.moves_enc [OF di n0 [OF that]])
    moreover have "agrees (\<lambda>e. written (enc_w e)) (written (enc_w e)) (enc n G (encoder_call W) c v e)
        (enc n G spec_enc c v [])"
      using simD(2) [OF enc_sim [OF total_encoder.total_calls [OF te]],
          where s = "[]" and pre = "written (enc_w e)" and e = e] by simp
    ultimately show ?thesis by (auto simp: agrees_def)
  qed
  then show ?thesis
    using n0 by (intro exI [of _ n0] exI [of _ bs]) (auto simp: decoder_iface.moves_def [OF di])
qed

lemma codec_gets_prefix:
  assumes "writer W written" and "honest_env G"
    and "enc n G (encoder_call buffer_ops) c v b = Ret (err, b')" and "enc_w b = []"
  shows "\<exists>err' e' q. enc n G (encoder_call W) c v e = Ret (err', e')
     \<and> written (enc_w e') = written (enc_w e) @ q \<and> prefix q (enc_w b')
     \<and> (err' = None \<longrightarrow> err = None \<and> q = enc_w b')"
proof -
  have b: "agrees enc_w [] (enc n G (encoder_call buffer_ops) c v b) (enc n G spec_enc c v [])"
    using simD(2) [OF enc_sim [OF total_encoder.total_calls [OF byte_buffer.encoder_is_total]], where s = "[]" and pre = "[]" and e = b]
      assms(4) by simp
  then have spec: "enc n G spec_enc c v [] = Ret (err, enc_w b')"
    using assms(3) by (cases "enc n G spec_enc c v []") (auto simp: agrees_def)
  have "agrees (\<lambda>e. written (enc_w e)) (written (enc_w e)) (enc n G (encoder_call W) c v e)
      (enc n G spec_enc c v [])
    \<or> failed (\<lambda>e. written (enc_w e)) [] (enc n G (encoder_call W) c v e) (enc n G spec_enc c v [])
        (written (enc_w e))"
    using simD(2) [OF enc_sim [OF encoder_iface.lossy_calls [OF writer.encoder_is_iface [OF assms(1)]]],
        where s = "[]" and pre = "written (enc_w e)" and e = e] assms(2) by simp
  then show ?thesis
  proof
    assume "agrees (\<lambda>e. written (enc_w e)) (written (enc_w e)) (enc n G (encoder_call W) c v e)
      (enc n G spec_enc c v [])"
    then show ?thesis using spec by (auto simp: agrees_def)
  next
    assume "failed (\<lambda>e. written (enc_w e)) [] (enc n G (encoder_call W) c v e) (enc n G spec_enc c v [])
        (written (enc_w e))"
    then show ?thesis using spec by (auto simp: failed_def prefix_def)
  qed
qed

section \<open>Properties\<close>

text \<open>
  C11. Round trip: a value that codec \<open>c\<close> can transfer (\<open>transfers\<close>: any nesting of
  primitives, strings, opaque data, arrays, slices, maps, pointers, optional values,
  structs, unions and recursive types) is encoded, on every writer that does not fail, to
  bytes that decoding reads back as that same value from every lawful reader, in whatever
  pieces it delivers them, consuming exactly those bytes; both directions return (with any
  call-depth bound beyond some \<open>n0\<close>).
\<close>

theorem round_trip:
  assumes "transfers G c v0 v"
    and "total_writer W written" and "reader rd pending finals wt"
  shows "\<exists>n0 bs. \<forall>n\<ge>n0.
     (\<forall>e. \<exists>e'. enc n G (encoder_call W) c v e = Ret (None, e') \<and> written (enc_w e') = written (enc_w e) @ bs)
   \<and> (\<forall>d rest. pending (dec_r d) = bs @ rest \<longrightarrow>
        (\<exists>d'. dec n G (decoder_call (g_maxInt G) rd) c v0 d = Ret (None, v, d') \<and> pending (dec_r d') = rest))"
  using codec_round_trip [OF assms] .

text \<open>An environment without declared types and foreign code, for concrete instances.\<close>

definition plain_env :: "(nat \<Rightarrow> codec option) \<Rightarrow> genv" where
  "plain_env real = \<lparr>g_maxInt = 2 ^ 63 - 1, g_maxAlloc = 2 ^ 48, g_types = [], g_nounsafe = True, g_real = real,
     g_marshal = \<lambda>_ _. EDone None, g_unmarshal = \<lambda>_ v. DDone None v,
     g_foreign_enc = \<lambda>_ _. EDone None, g_foreign_dec = \<lambda>_ v. DDone None v\<rparr>"

text \<open>
  The codec of \<open>struct { Kind bool `xdr:"union:switch"`; Name string `xdr:"union:true"`;
  Next *T `xdr:"union:false/opt"` }\<close>, a recursive union.
\<close>

definition demo_codec :: codec where
  "demo_codec = CUnion ''T'' (Field 0 0 CBool ''Kind'')
     [None, Some (Field 1 8 (CVarString 16 16) ''Name''),
      Some (Field 2 24 (COpt (CPtr (CDeferred 0) (GNamed ''T'')) (VPtr None)) ''Next'')]
     [(1, 1), (0, 2)] (-1) SwitchBool"

definition demo_env :: genv where
  "demo_env = plain_env (\<lambda>k. if k = 0 then Some demo_codec else None)
     \<lparr>g_types := [(''T'', GStruct [GField ''Kind'' GBool ''union:switch'',
        GField ''Name'' GString ''union:true'', GField ''Next'' (GPtr (GNamed ''T'')) ''union:false/opt''], False)]\<rparr>"

lemma demo_zero: "zero_value (g_types demo_env) (GNamed ''T'') = VStruct [VBool False, VString [], VPtr None]"
  by (simp add: demo_env_def)

lemma demo_leaf: "transfers demo_env demo_codec (VStruct [VBool False, VString [], VPtr None])
    (VStruct [VBool True, VString [104, 105], VPtr None])"
  unfolding demo_codec_def
  by (rule t_union [where f = "Field 1 8 (CVarString 16 16) ''Name''" and w = 1 and i = 1])
    (auto simp: union_swVal_def union_case_def reflected_def less_Suc_eq numeral_3_eq_3 demo_env_def
      plain_env_def max_u32_def intro!: t_bool t_var_string)

theorem round_trip_witness:
  "\<exists>n0 bs. \<forall>n\<ge>n0. (\<forall>e. \<exists>e'. enc n demo_env (encoder_call buffer_ops) demo_codec
      (VStruct [VBool False, VString [], VPtr (Some (VStruct [VBool True, VString [104, 105], VPtr None]))]) e
      = Ret (None, e') \<and> enc_w e' = enc_w e @ bs)
   \<and> (\<forall>d rest. src_data (dec_r d) = bs @ rest \<longrightarrow>
        (\<exists>d'. dec n demo_env (decoder_call (g_maxInt demo_env) piece_read) demo_codec
           (VStruct [VBool False, VString [], VPtr None]) d
         = Ret (None, VStruct [VBool False, VString [],
             VPtr (Some (VStruct [VBool True, VString [104, 105], VPtr None]))], d') \<and> src_data (dec_r d') = rest))"
proof (rule round_trip [OF _ byte_buffer.total_writer_axioms piece_reader.reader_axioms])
  have "transfers demo_env (CPtr (CDeferred 0) (GNamed ''T'')) (VPtr None)
      (VPtr (Some (VStruct [VBool True, VString [104, 105], VPtr None])))"
    by (rule t_ptr, rule t_deferred [where c = demo_codec])
      (simp_all only: demo_zero demo_leaf, simp add: demo_env_def plain_env_def)
  then have "transfers demo_env (COpt (CPtr (CDeferred 0) (GNamed ''T'')) (VPtr None)) (VPtr None)
      (VPtr (Some (VStruct [VBool True, VString [104, 105], VPtr None])))"
    by (intro t_opt) simp_all
  then show "transfers demo_env demo_codec (VStruct [VBool False, VString [], VPtr None])
      (VStruct [VBool False, VString [], VPtr (Some (VStruct [VBool True, VString [104, 105], VPtr None]))])"
    unfolding demo_codec_def
    by (intro t_union [where f = "Field 2 24 (COpt (CPtr (CDeferred 0) (GNamed ''T'')) (VPtr None)) ''Next''"
          and w = 0 and i = 2])
      (auto simp: union_swVal_def union_case_def reflected_def less_Suc_eq numeral_3_eq_3 intro!: t_bool)
qed

text \<open>
  C12. On a writer that fails (a full disk, a closed connection), whatever codec runs, as
  long as foreign marshaling code passes errors on: what reached the writer is a prefix of
  the encoding a buffer would have received, and if it is not all of it then an error is
  reported; success always means that the complete encoding was written.
\<close>

theorem failing_writer_gets_prefix:
  assumes "writer W written" and "honest_env G"
    and "enc n G (encoder_call buffer_ops) c v b = Ret (err, b')" and "enc_w b = []"
  shows "\<exists>err' e' q. enc n G (encoder_call W) c v e = Ret (err', e')
     \<and> written (enc_w e') = written (enc_w e) @ q \<and> prefix q (enc_w b')
     \<and> (err' = None \<longrightarrow> err = None \<and> q = enc_w b')"
  using codec_gets_prefix [OF assms] .

theorem failing_writer_gets_prefix_witness:
  "\<exists>err' e' q. enc 3 (plain_env (\<lambda>_. None)) (encoder_call bounded_ops) (CArray CInt32 2 4)
      (VArray [VInt32 1, VInt32 2])
      \<lparr>enc_w = ([], 6), enc_ws = False, enc_cr = 0, enc_cache = [], enc_slot = 3, enc_scratch = []\<rparr>
      = Ret (err', e') \<and> fst (enc_w e') = q \<and> prefix q (be32 1 @ be32 2)"
proof -
  let ?b = "\<lparr>enc_w = [], enc_ws = True, enc_cr = 0, enc_cache = [], enc_slot = 3, enc_scratch = []\<rparr>"
  have "\<exists>b'. enc 3 (plain_env (\<lambda>_. None)) (encoder_call buffer_ops) (CArray CInt32 2 4)
      (VArray [VInt32 1, VInt32 2]) ?b = Ret (None, b') \<and> enc_w b' = be32 1 @ be32 2"
    by (simp add: numeral_3_eq_3 arrayCodec_Encode_def reflected_def intCodec_Encode_def EncodeInt_be32
        write_to_def buffer_ops_def enc_then_def)
  then obtain b' where b': "enc 3 (plain_env (\<lambda>_. None)) (encoder_call buffer_ops) (CArray CInt32 2 4)
      (VArray [VInt32 1, VInt32 2]) ?b = Ret (None, b')" "enc_w b' = be32 1 @ be32 2" by blast
  have "honest_env (plain_env (\<lambda>_. None))" by (simp add: honest_env_def plain_env_def)
  from failing_writer_gets_prefix [OF bounded.writer_axioms this b'(1)] b'(2) show ?thesis
    by fastforce
qed

text \<open>
  C13. Alignment: whatever a codec writes to a buffer, also when it ends with an error, is
  a multiple of four bytes, so that successive objects stay aligned on the stream.
\<close>

theorem encoding_is_aligned:
  assumes "total_writer W written" and "enc n G (encoder_call W) c v e = Ret (err, e')"
  shows "\<exists>q. written (enc_w e') = written (enc_w e) @ q \<and> 4 dvd length q"
  using total_encoder.enc_aligned [OF total_writer.encoder_is_total [OF assms(1)] assms(2)] .

theorem encoding_is_aligned_witness:
  "\<exists>err' e' q. enc 2 (plain_env (\<lambda>_. None)) (encoder_call buffer_ops) (CFixedString 1) (VString [65])
      \<lparr>enc_w = [], enc_ws = True, enc_cr = 0, enc_cache = [], enc_slot = 3, enc_scratch = []\<rparr>
      = Ret (err', e') \<and> enc_w e' = q \<and> 4 dvd length q"
proof -
  let ?e = "\<lparr>enc_w = [], enc_ws = True, enc_cr = 0, enc_cache = [], enc_slot = 3, enc_scratch = []\<rparr>"
  have "\<exists>err e'. enc 2 (plain_env (\<lambda>_. None)) (encoder_call buffer_ops) (CFixedString 1) (VString [65]) ?e
      = Ret (err, e')"
    by (simp add: numeral_2_eq_2 fixedStringCodec_Encode_def fixedString_encode_def reflected_def)
  then show ?thesis
    using encoding_is_aligned [OF byte_buffer.total_writer_axioms] by fastforce
qed

end
