(* ===== verification/Typing.thy ===== *)
theory Typing
  imports CodecEnc CodecDec
begin

text \<open>
  Types of run-time values, codecs that fit a type, and the type safety of the reflection
  codecs, which \<open>TypeSafe\<close> shows: a codec that fits a type encodes every value of the type
  without a panic, and decodes any input into a value of the type, without a panic of its own.
\<close>

section \<open>Environments the compiler accepts\<close>

text \<open>
  Every name is declared, no declared name stands for a name, and values are finite.
\<close>

declare fld_type_size [termination_simp]

fun names_in :: "gtype \<Rightarrow> string set" where
  "names_in (GNamed n) = {n}" | "names_in (GChan t) = names_in t" | "names_in (GPtr t) = names_in t"
| "names_in (GSlice t) = names_in t" | "names_in (GArray n t) = names_in t"
| "names_in (GMap k t) = names_in k \<union> names_in t"
| "names_in (GStruct fs) = (\<Union>f\<in>set fs. names_in (fld_type f))" | "names_in _ = {}"

definition go_type :: "tenv \<Rightarrow> gtype \<Rightarrow> bool" where
  "go_type G t \<longleftrightarrow> names_in t \<subseteq> fst ` set G"

definition go_env :: "tenv \<Rightarrow> bool" where
  "go_env G \<longleftrightarrow> (\<forall>(n, u, b)\<in>set G. type_name u = '''' \<and> n \<noteq> '''' \<and> go_type G u \<and> solid_type G u)"

lemma go_env_lookup:
  assumes "go_env G" "map_of G n = Some (u, b)"
  shows "\<forall>m. u \<noteq> GNamed m" "go_type G u" "solid_type G u"
proof -
  have "(n, u, b) \<in> set G" using assms(2) by (rule map_of_SomeD)
  then have u: "type_name u = ''''" "go_type G u" "solid_type G u" using assms(1) by (auto simp: go_env_def)
  then show "go_type G u" "solid_type G u" by simp_all
  show "\<forall>m. u \<noteq> GNamed m"
  proof (intro allI notI)
    fix m assume m: "u = GNamed m"
    then have "m \<in> fst ` set G" using u by (simp add: go_type_def)
    then show False using m u(1) assms(1) by (force simp: type_name_def go_env_def)
  qed
qed

lemma go_under:
  assumes "go_env G" "go_type G t"
  shows "go_type G (under G t)" "\<forall>m. under G t \<noteq> GNamed m"
proof -
  have "go_type G (under G t) \<and> (\<forall>m. under G t \<noteq> GNamed m)"
  proof (cases t)
    case (GNamed n)
    with assms(2) obtain u b where "map_of G n = Some (u, b)"
      by (cases "map_of G n") (auto simp: go_type_def map_of_eq_None_iff)
    then show ?thesis using go_env_lookup [OF assms(1)] GNamed by (simp add: under_def)
  qed (use assms in \<open>auto simp: under_def\<close>)
  then show "go_type G (under G t)" "\<forall>m. under G t \<noteq> GNamed m" by auto
qed

lemma go_parts:
  assumes "go_env G" "go_type G t"
  shows "elem_type G t = Some e \<Longrightarrow> go_type G e" "key_type G t = Some k \<Longrightarrow> go_type G k"
    "struct_fields G t = Some fs \<Longrightarrow> f \<in> set fs \<Longrightarrow> go_type G (fld_type f)"
  using go_under(1) [OF assms]
  by (cases "under G t"; auto simp: elem_type_def key_type_def struct_fields_def go_type_def)+

lemma solid_list:
  "\<forall>f\<in>set fs. \<exists>k. solid k G (fld_type f) \<Longrightarrow> \<exists>k. \<forall>f\<in>set fs. solid k G (fld_type f)"
proof (induction fs)
  case (Cons f fs)
  then obtain k l where "\<forall>f\<in>set fs. solid k G (fld_type f)" "solid l G (fld_type f)" by auto
  then show ?case using solid_mono [of _ G _ "max k l"] by (intro exI [of _ "max k l"]) auto
qed simp

lemma go_solid:
  assumes "go_env G"
  shows "go_type G t \<Longrightarrow> solid_type G t"
proof (induction t rule: measure_induct_rule [of size])
  case (less t)
  show ?case
  proof (cases t)
    case (GNamed n)
    with less.prems obtain u b where u: "map_of G n = Some (u, b)"
      by (cases "map_of G n") (auto simp: go_type_def map_of_eq_None_iff)
    then obtain k where "solid k G u" using go_env_lookup [OF assms u] by (auto simp: solid_type_def)
    then have "solid (Suc k) G t" using u GNamed by simp
    then show ?thesis unfolding solid_type_def by blast
  next
    case (GStruct fs)
    have "solid_type G (fld_type f)" if "f \<in> set fs" for f
      using less.IH [of "fld_type f"] less.prems that GStruct by (auto simp: fld_type_size go_type_def)
    then show ?thesis using solid_list [of fs G] GStruct by (auto simp: solid_type_def)
  next
    case (GArray m e)
    then show ?thesis using less by (auto simp: solid_parts go_type_def)
  qed (auto simp: solid_type_def)
qed

section \<open>Types of values\<close>

inductive of_type :: "tenv \<Rightarrow> gtype \<Rightarrow> gvalue \<Rightarrow> bool" for G :: tenv where
  ot_bool: "kind G t = KBool \<Longrightarrow> of_type G t (VBool b)"
| ot_int8: "kind G t = KInt8 \<Longrightarrow> of_type G t (VInt8 w8)"
| ot_int16: "kind G t = KInt16 \<Longrightarrow> of_type G t (VInt16 w16)"
| ot_int32: "kind G t = KInt32 \<Longrightarrow> of_type G t (VInt32 w32)"
| ot_int64: "kind G t = KInt64 \<Longrightarrow> of_type G t (VInt64 w64)"
| ot_uint8: "kind G t = KUint8 \<Longrightarrow> of_type G t (VUint8 w8)"
| ot_uint16: "kind G t = KUint16 \<Longrightarrow> of_type G t (VUint16 w16)"
| ot_uint32: "kind G t = KUint32 \<Longrightarrow> of_type G t (VUint32 w32)"
| ot_uint64: "kind G t = KUint64 \<Longrightarrow> of_type G t (VUint64 w64)"
| ot_float: "kind G t = KFloat32 \<Longrightarrow> of_type G t (VFloat32 w32)"
| ot_double: "kind G t = KFloat64 \<Longrightarrow> of_type G t (VFloat64 w64)"
| ot_complex64: "kind G t = KComplex64 \<Longrightarrow> of_type G t (VComplex64 a32 b32)"
| ot_complex128: "kind G t = KComplex128 \<Longrightarrow> of_type G t (VComplex128 a64 b64)"
| ot_string: "kind G t = KString \<Longrightarrow> of_type G t (VString s)"
| ot_nil_iface: "kind G t = KInterface \<Longrightarrow> of_type G t (VIface None)"
| ot_iface: "kind G t = KInterface \<Longrightarrow> of_type G u x \<Longrightarrow> of_type G t (VIface (Some (u, x)))"
| ot_nil_ptr: "kind G t = KPtr \<Longrightarrow> of_type G t (VPtr None)"
| ot_ptr: "kind G t = KPtr \<Longrightarrow> elem_type G t = Some e \<Longrightarrow> of_type G e x \<Longrightarrow> of_type G t (VPtr (Some x))"
| ot_nil_slice: "kind G t = KSlice \<Longrightarrow> of_type G t (VSlice None)"
| ot_slice: "kind G t = KSlice \<Longrightarrow> elem_type G t = Some e \<Longrightarrow> \<forall>v\<in>set vs. of_type G e v \<Longrightarrow>
    of_type G t (VSlice (Some vs))"
| ot_array: "kind G t = KArray \<Longrightarrow> elem_type G t = Some e \<Longrightarrow> array_len G t = Some (length vs) \<Longrightarrow>
    \<forall>v\<in>set vs. of_type G e v \<Longrightarrow> of_type G t (VArray vs)"
| ot_nil_map: "kind G t = KMap \<Longrightarrow> of_type G t (VMap None)"
| ot_map: "kind G t = KMap \<Longrightarrow> key_type G t = Some k \<Longrightarrow> elem_type G t = Some e \<Longrightarrow>
    \<forall>(x, y)\<in>set kvs. of_type G k x \<and> of_type G e y \<Longrightarrow> of_type G t (VMap (Some kvs))"
| ot_struct: "struct_fields G t = Some fs \<Longrightarrow> length vs = length fs \<Longrightarrow>
    \<forall>i<length fs. of_type G (fld_type (fs ! i)) (vs ! i) \<Longrightarrow> of_type G t (VStruct vs)"
| ot_other: "kind G t \<in> {KInt, KUint, KUintptr, KChan, KFunc, KUnsafePointer} \<Longrightarrow> of_type G t VOther"

text \<open>The values of a type, by its kind.\<close>

lemma struct_kind: "struct_fields G t = Some fs \<Longrightarrow> kind G t = KStruct"
  by (auto simp: struct_fields_def kind_def split: gtype.splits)

lemma of_kind:
  "kind G t = KBool \<Longrightarrow> of_type G t v \<longleftrightarrow> (\<exists>b. v = VBool b)"
  "kind G t = KInt8 \<Longrightarrow> of_type G t v \<longleftrightarrow> (\<exists>w. v = VInt8 w)"
  "kind G t = KInt16 \<Longrightarrow> of_type G t v \<longleftrightarrow> (\<exists>w. v = VInt16 w)"
  "kind G t = KInt32 \<Longrightarrow> of_type G t v \<longleftrightarrow> (\<exists>w. v = VInt32 w)"
  "kind G t = KInt64 \<Longrightarrow> of_type G t v \<longleftrightarrow> (\<exists>w. v = VInt64 w)"
  "kind G t = KUint8 \<Longrightarrow> of_type G t v \<longleftrightarrow> (\<exists>w. v = VUint8 w)"
  "kind G t = KUint16 \<Longrightarrow> of_type G t v \<longleftrightarrow> (\<exists>w. v = VUint16 w)"
  "kind G t = KUint32 \<Longrightarrow> of_type G t v \<longleftrightarrow> (\<exists>w. v = VUint32 w)"
  "kind G t = KUint64 \<Longrightarrow> of_type G t v \<longleftrightarrow> (\<exists>w. v = VUint64 w)"
  "kind G t = KFloat32 \<Longrightarrow> of_type G t v \<longleftrightarrow> (\<exists>w. v = VFloat32 w)"
  "kind G t = KFloat64 \<Longrightarrow> of_type G t v \<longleftrightarrow> (\<exists>w. v = VFloat64 w)"
  "kind G t = KComplex64 \<Longrightarrow> of_type G t v \<longleftrightarrow> (\<exists>x y. v = VComplex64 x y)"
  "kind G t = KComplex128 \<Longrightarrow> of_type G t v \<longleftrightarrow> (\<exists>x y. v = VComplex128 x y)"
  "kind G t = KString \<Longrightarrow> of_type G t v \<longleftrightarrow> (\<exists>s. v = VString s)"
  "kind G t = KInterface \<Longrightarrow> of_type G t v \<longleftrightarrow>
     v = VIface None \<or> (\<exists>u x. v = VIface (Some (u, x)) \<and> of_type G u x)"
  "kind G t = KPtr \<Longrightarrow> elem_type G t = Some e \<Longrightarrow> of_type G t v \<longleftrightarrow>
     v = VPtr None \<or> (\<exists>x. v = VPtr (Some x) \<and> of_type G e x)"
  "kind G t = KSlice \<Longrightarrow> elem_type G t = Some e \<Longrightarrow> of_type G t v \<longleftrightarrow>
     v = VSlice None \<or> (\<exists>vs. v = VSlice (Some vs) \<and> (\<forall>x\<in>set vs. of_type G e x))"
  "kind G t = KArray \<Longrightarrow> elem_type G t = Some e \<Longrightarrow> array_len G t = Some n \<Longrightarrow> of_type G t v \<longleftrightarrow>
     (\<exists>vs. v = VArray vs \<and> length vs = n \<and> (\<forall>x\<in>set vs. of_type G e x))"
  "kind G t = KMap \<Longrightarrow> key_type G t = Some k \<Longrightarrow> elem_type G t = Some e \<Longrightarrow> of_type G t v \<longleftrightarrow>
     v = VMap None \<or> (\<exists>kvs. v = VMap (Some kvs) \<and> (\<forall>(x, y)\<in>set kvs. of_type G k x \<and> of_type G e y))"
  "struct_fields G t = Some fs \<Longrightarrow> of_type G t v \<longleftrightarrow>
     (\<exists>vs. v = VStruct vs \<and> length vs = length fs \<and> (\<forall>i<length fs. of_type G (fld_type (fs ! i)) (vs ! i)))"
  by (rule iffI, (erule of_type.cases; simp add: struct_kind; fail), blast intro: of_type.intros,
      (frule struct_kind; erule of_type.cases; fastforce)?)+

lemma kind_cong:
  assumes "under G t = under G t'"
  shows "kind G t = kind G t'" "elem_type G t = elem_type G t'" "key_type G t = key_type G t'"
    "array_len G t = array_len G t'" "struct_fields G t = struct_fields G t'"
  using assms by (simp_all add: kind_def elem_type_def key_type_def array_len_def struct_fields_def)

lemma of_type_cong:
  assumes "under G t = under G t'" "of_type G t v"
  shows "of_type G t' v"
  using assms(2) by cases (auto intro: of_type.intros simp: kind_cong [OF assms(1)])

lemma zero_of_solid:
  "solid k G t \<Longrightarrow> go_env G \<Longrightarrow> go_type G t \<Longrightarrow> of_type G t (zero_value G t)"
proof (induction k G t rule: solid.induct)
  case (1 k G n)
  then obtain j u b where k: "k = Suc j" "map_of G n = Some (u, b)" "solid j G u"
    by (auto split: nat.splits option.splits)
  note u = go_env_lookup [OF 1(3) k(2)]
  have "under G u = under G (GNamed n)" using u(1) k(2) by (simp add: under_def split: gtype.splits)
  moreover have "of_type G u (zero_value G u)" using 1 k u by simp
  moreover have "solid_type G (GNamed n)" using 1(2) by (auto simp: solid_type_def)
  ultimately show ?case using of_type_cong solid_named(1) [OF _ k(2)] by metis
next
  case (2 k G m t)
  then show ?case
    by (auto intro!: ot_array [where e = t] simp: kind_def under_def elem_type_def array_len_def go_type_def)
next
  case (3 k G fs)
  have "of_type G (fld_type f) (zero_value G (fld_type f))" if "f \<in> set fs" for f
    using "3.IH" [OF that] "3.prems" that by (auto simp: go_type_def)
  then show ?case
    by (auto intro!: ot_struct [where fs = fs] simp: struct_fields_def under_def)
qed (auto intro!: of_type.intros simp: kind_def under_def)

lemma zero_of_type: "go_env G \<Longrightarrow> go_type G t \<Longrightarrow> of_type G t (zero_value G t)"
  using go_solid zero_of_solid by (fastforce simp: solid_type_def)

section \<open>Codecs that fit a type\<close>

text \<open>
  \<open>fits G dt t c\<close>: codec \<open>c\<close> is made for values of type \<open>t\<close>; \<open>dt\<close> says what each deferred
  codec stands for. Sizes and offsets are those of the memory layout. In a union every
  selected arm has a codec. In the unsafe build the codecs that are called are \<open>xCodec\<close>s.
\<close>

definition arm_ok :: "codec field option list \<Rightarrow> nat \<Rightarrow> bool" where
  "arm_ok body i \<longleftrightarrow> i < length body \<and> (\<exists>f. body ! i = Some f \<and> f_index f = i)"

definition arms_ok :: "codec field option list \<Rightarrow> (u32 \<times> nat) list \<Rightarrow> int \<Rightarrow> bool" where
  "arms_ok body cases dflt \<longleftrightarrow> (\<forall>(w, i)\<in>set cases. arm_ok body i) \<and> distinct (map fst cases)
     \<and> (dflt = -1 \<or> 0 \<le> dflt \<and> arm_ok body (nat dflt))"


definition switch_kinds :: "(switch_kind \<times> gkind) list" where
  "switch_kinds = [(SwitchInt, KInt32), (SwitchUint, KUint32), (SwitchBool, KBool)]"

inductive fits :: "genv \<Rightarrow> (nat \<Rightarrow> gtype) \<Rightarrow> gtype \<Rightarrow> codec \<Rightarrow> bool" for G dt where
  fit_prim: "(kind (g_types G) t, c) \<in> {(KBool, CBool), (KInt8, CInt8), (KInt16, CInt16), (KInt32, CInt32),
     (KUint8, CUint8), (KUint16, CUint16), (KUint32, CUint32), (KInt64, CHyper), (KUint64, CUhyper),
     (KFloat32, CFloat), (KFloat64, CDouble), (KComplex64, CComplex64), (KComplex128, CComplex128)} \<Longrightarrow>
   fits G dt t c"
| fit_fixed_string: "kind (g_types G) t = KString \<Longrightarrow> fits G dt t (CFixedString n)"
| fit_var_string: "kind (g_types G) t = KString \<Longrightarrow> fits G dt t (CVarString m om)"
| fit_opaque_array: "kind (g_types G) t = KArray \<Longrightarrow> array_len (g_types G) t = Some n \<Longrightarrow>
   fits G dt t (COpaqueArray t n)"
| fit_array: "kind (g_types G) t = KArray \<Longrightarrow> elem_type (g_types G) t = Some e \<Longrightarrow>
   array_len (g_types G) t = Some n \<Longrightarrow> sz = size_of (g_word G) (g_types G) e \<Longrightarrow> fits G dt e c \<Longrightarrow>
   callable G c \<Longrightarrow> fits G dt t (CArray c n sz)"
| fit_opaque_slice: "kind (g_types G) t = KSlice \<Longrightarrow> fits G dt t (COpaqueSlice t m om)"
| fit_slice: "kind (g_types G) t = KSlice \<Longrightarrow> elem_type (g_types G) t = Some e \<Longrightarrow>
   sz = size_of (g_word G) (g_types G) e \<Longrightarrow> fits G dt e c \<Longrightarrow> callable G c \<Longrightarrow>
   fits G dt t (CSlice c e m sz om)"
| fit_ptr: "kind (g_types G) t = KPtr \<Longrightarrow> elem_type (g_types G) t = Some e \<Longrightarrow> fits G dt e c \<Longrightarrow>
   callable G c \<Longrightarrow> fits G dt t (CPtr c e)"
| fit_opt: "fits G dt t c \<Longrightarrow> callable G c \<Longrightarrow> fits G dt t (COpt c (zero_value (g_types G) t))"
| fit_map: "kind (g_types G) t = KMap \<Longrightarrow> key_type (g_types G) t = Some k \<Longrightarrow>
   elem_type (g_types G) t = Some e \<Longrightarrow> fits G dt k kc \<Longrightarrow> fits G dt e vc \<Longrightarrow>
   callable G kc \<Longrightarrow> callable G vc \<Longrightarrow>
   fits G dt t (CMap kc vc k e m om)"
| fit_struct: "struct_fields (g_types G) t = Some fs \<Longrightarrow>
   \<forall>f\<in>set fds. f_index f < length fs \<and> f_offset f = field_offset (g_word G) (g_types G) t (f_index f)
     \<and> fits G dt (fld_type (fs ! f_index f)) (f_codec f) \<and> callable G (f_codec f) \<Longrightarrow>
   fits G dt t (CStruct name fds)"
| fit_union: "struct_fields (g_types G) t = Some fs \<Longrightarrow> arms_ok body cases dflt \<Longrightarrow>
   \<forall>f\<in>insert sw {f. Some f \<in> set body}. f_index f < length fs
     \<and> f_offset f = field_offset (g_word G) (g_types G) t (f_index f)
     \<and> fits G dt (fld_type (fs ! f_index f)) (f_codec f) \<and> callable G (f_codec f) \<Longrightarrow>
   (sk, kind (g_types G) (fld_type (fs ! f_index sw))) \<in> set switch_kinds \<Longrightarrow>
   fits G dt t (CUnion name sw body cases dflt sk)"
| fit_error: "fits G dt t (CError err)"
| fit_deferred: "fits G dt (dt k) (CDeferred k)"
| fit_marshaler: "fits G dt t (CMarshaler t)"
| fit_foreign: "fits G dt t (CForeign k)"
| fit_wrapper: "fits G dt t c \<Longrightarrow> fits G dt t (CWrapper c t)"

lemma codec_field_size [termination_simp]:
  "f \<in> set fs \<Longrightarrow> size (f_codec f) < Suc (size_list (size_field size) fs)"
proof (induction fs)
  case (Cons g fs)
  then show ?case by (cases g) auto
qed simp

lemma codec_body_size [termination_simp]:
  "Some f \<in> set body \<Longrightarrow> size (f_codec f) < Suc (size_list (size_option (size_field size)) body)"
proof (induction body)
  case (Cons g body)
  then show ?case by (cases f; cases g) auto
qed simp

lemma codec_switch_size [termination_simp]: "size (f_codec sw) \<le> size_field size sw"
  by (cases sw) simp

text \<open>
  \<open>plain G c\<close>: without foreign code, with \<open>opaque\<close> on bytes proper, \<open>opt\<close> on what can be nil.
  (\<open>ParseTag\<close> accepts \<open>opaque\<close> on int8 elements and on declared byte types, where \<open>reflect\<close>
  panics.)
\<close>

fun plain :: "genv \<Rightarrow> codec \<Rightarrow> bool" where
  "plain G (CMarshaler t) = False" | "plain G (CForeign k) = False"
| "plain G (COpaqueArray t n) = byte_kind (g_types G) t"
| "plain G (COpaqueSlice t m om) = (elem_type (g_types G) t = Some GUint8)"
| "plain G (CArray c n sz) = plain G c" | "plain G (CSlice c e m sz om) = plain G c"
| "plain G (CPtr c e) = plain G c" | "plain G (COpt c nilp) = (v_IsNil nilp = Some True \<and> plain G c)"
| "plain G (CMap kc vc k e m om) = (plain G kc \<and> plain G vc)"
| "plain G (CStruct name fs) = (\<forall>f\<in>set fs. plain G (f_codec f))"
| "plain G (CUnion name sw body cases dflt sk) =
     (plain G (f_codec sw) \<and> (\<forall>y\<in>set body. \<forall>f\<in>set_option y. plain G (f_codec f)))"
| "plain G (CWrapper c t) = plain G c" | "plain G c = True"

text \<open>
  \<open>allocatable G c\<close>: of no slice type among its parts the codec \<open>c\<close> accepts so many elements that
  the platform could not address them.
\<close>

fun allocatable :: "genv \<Rightarrow> codec \<Rightarrow> bool" where
  "allocatable G (CSlice c e m sz om) = (m * size_of (g_word G) (g_types G) e \<le> g_maxAlloc G \<and> allocatable G c)"
| "allocatable G (CArray c n sz) = allocatable G c" | "allocatable G (CPtr c e) = allocatable G c"
| "allocatable G (COpt c nilp) = allocatable G c"
| "allocatable G (CMap kc vc k e m om) = (allocatable G kc \<and> allocatable G vc)"
| "allocatable G (CStruct name fs) = (\<forall>f\<in>set fs. allocatable G (f_codec f))"
| "allocatable G (CUnion name sw body cases dflt sk) =
     (allocatable G (f_codec sw) \<and> (\<forall>y\<in>set body. \<forall>f\<in>set_option y. allocatable G (f_codec f)))"
| "allocatable G (CWrapper c t) = allocatable G c" | "allocatable G c = True"

text \<open>The codecs behind the deferred ones fit too.\<close>

definition typed_env :: "genv \<Rightarrow> (nat \<Rightarrow> gtype) \<Rightarrow> bool" where
  "typed_env G dt \<longleftrightarrow> go_env (g_types G) \<and>
     (\<forall>k c. g_real G k = Some c \<longrightarrow> fits G dt (dt k) c \<and> plain G c \<and> callable G c
        \<and> go_type (g_types G) (dt k))"

text \<open>
  Induction over the calls of a codec that fits its type: along the bound on the depth, with a
  case for each codec, which has the parts of the type and the codecs of those parts at hand.
  What the encoding and decoding methods do at such codecs is shown by this rule.
\<close>

lemma typed_codec_induct [consumes 4, case_names zero prim fixed_string var_string opaque_array array
    opaque_slice slice ptr opt map struct union error deferred wrapper]:
  assumes env: "typed_env G dt" and fits: "fits G dt t c" "plain G c" "go_type (g_types G) t"
    and zero: "\<And>t c. P 0 t c"
    and prim: "\<And>n t c. (kind (g_types G) t, c) \<in> {(KBool, CBool), (KInt8, CInt8), (KInt16, CInt16),
       (KInt32, CInt32), (KUint8, CUint8), (KUint16, CUint16), (KUint32, CUint32), (KInt64, CHyper),
       (KUint64, CUhyper), (KFloat32, CFloat), (KFloat64, CDouble), (KComplex64, CComplex64),
       (KComplex128, CComplex128)} \<Longrightarrow> go_type (g_types G) t \<Longrightarrow> P (Suc n) t c"
    and string: "\<And>n t k. kind (g_types G) t = KString \<Longrightarrow> go_type (g_types G) t \<Longrightarrow> P (Suc n) t (CFixedString k)"
      "\<And>n t m om. kind (g_types G) t = KString \<Longrightarrow> go_type (g_types G) t \<Longrightarrow> P (Suc n) t (CVarString m om)"
    and opaque_array: "\<And>n t k. kind (g_types G) t = KArray \<Longrightarrow> array_len (g_types G) t = Some k \<Longrightarrow>
       byte_kind (g_types G) t \<Longrightarrow> go_type (g_types G) t \<Longrightarrow> P (Suc n) t (COpaqueArray t k)"
    and array: "\<And>n t e k sz c. kind (g_types G) t = KArray \<Longrightarrow> elem_type (g_types G) t = Some e \<Longrightarrow>
       array_len (g_types G) t = Some k \<Longrightarrow> sz = size_of (g_word G) (g_types G) e \<Longrightarrow> callable G c \<Longrightarrow>
       go_type (g_types G) t \<Longrightarrow> P n e c \<Longrightarrow> P (Suc n) t (CArray c k sz)"
    and opaque_slice: "\<And>n t m om. kind (g_types G) t = KSlice \<Longrightarrow> elem_type (g_types G) t = Some GUint8 \<Longrightarrow>
       go_type (g_types G) t \<Longrightarrow> P (Suc n) t (COpaqueSlice t m om)"
    and slice: "\<And>n t e c m sz om. kind (g_types G) t = KSlice \<Longrightarrow> elem_type (g_types G) t = Some e \<Longrightarrow>
       sz = size_of (g_word G) (g_types G) e \<Longrightarrow> callable G c \<Longrightarrow> go_type (g_types G) t \<Longrightarrow>
       go_type (g_types G) e \<Longrightarrow> P n e c \<Longrightarrow> P (Suc n) t (CSlice c e m sz om)"
    and ptr: "\<And>n t e c. kind (g_types G) t = KPtr \<Longrightarrow> elem_type (g_types G) t = Some e \<Longrightarrow> callable G c \<Longrightarrow>
       go_type (g_types G) t \<Longrightarrow> go_type (g_types G) e \<Longrightarrow> P n e c \<Longrightarrow> P (Suc n) t (CPtr c e)"
    and opt: "\<And>n t c. v_IsNil (zero_value (g_types G) t) = Some True \<Longrightarrow> callable G c \<Longrightarrow> fits G dt t c \<Longrightarrow>
       plain G c \<Longrightarrow> go_type (g_types G) t \<Longrightarrow> P n t c \<Longrightarrow> P (Suc n) t (COpt c (zero_value (g_types G) t))"
    and map: "\<And>n t k e kc vc m om. kind (g_types G) t = KMap \<Longrightarrow> key_type (g_types G) t = Some k \<Longrightarrow>
       elem_type (g_types G) t = Some e \<Longrightarrow> go_type (g_types G) t \<Longrightarrow> go_type (g_types G) k \<Longrightarrow>
       go_type (g_types G) e \<Longrightarrow> fits G dt t (CMap kc vc k e m om) \<Longrightarrow> plain G (CMap kc vc k e m om) \<Longrightarrow>
       P n k kc \<Longrightarrow> P n e vc \<Longrightarrow> P (Suc n) t (CMap kc vc k e m om)"
    and struct: "\<And>n t fs fds name. struct_fields (g_types G) t = Some fs \<Longrightarrow> go_type (g_types G) t \<Longrightarrow>
       (\<And>f. f \<in> set fds \<Longrightarrow> f_index f < length fs) \<Longrightarrow>
       (\<And>f. f \<in> set fds \<Longrightarrow> f_offset f = field_offset (g_word G) (g_types G) t (f_index f)) \<Longrightarrow>
       (\<And>f. f \<in> set fds \<Longrightarrow> callable G (f_codec f)) \<Longrightarrow>
       (\<And>f. f \<in> set fds \<Longrightarrow> P n (fld_type (fs ! f_index f)) (f_codec f)) \<Longrightarrow> P (Suc n) t (CStruct name fds)"
    and union: "\<And>n t fs sw body cases dflt sk name. struct_fields (g_types G) t = Some fs \<Longrightarrow>
       go_type (g_types G) t \<Longrightarrow> arms_ok body cases dflt \<Longrightarrow>
       (sk, kind (g_types G) (fld_type (fs ! f_index sw))) \<in> set switch_kinds \<Longrightarrow>
       (\<And>f. f \<in> insert sw {f. Some f \<in> set body} \<Longrightarrow> f_index f < length fs) \<Longrightarrow>
       (\<And>f. f \<in> insert sw {f. Some f \<in> set body} \<Longrightarrow>
          f_offset f = field_offset (g_word G) (g_types G) t (f_index f)) \<Longrightarrow>
       (\<And>f. f \<in> insert sw {f. Some f \<in> set body} \<Longrightarrow> callable G (f_codec f)) \<Longrightarrow>
       (\<And>f. f \<in> insert sw {f. Some f \<in> set body} \<Longrightarrow> P n (fld_type (fs ! f_index f)) (f_codec f)) \<Longrightarrow>
       P (Suc n) t (CUnion name sw body cases dflt sk)"
    and error: "\<And>n t err. P (Suc n) t (CError err)"
    and deferred: "\<And>n t k. (\<And>c. g_real G k = Some c \<Longrightarrow> callable G c) \<Longrightarrow>
       (\<And>c. g_real G k = Some c \<Longrightarrow> P n t c) \<Longrightarrow> P (Suc n) t (CDeferred k)"
    and wrapper: "\<And>n t c. P n t c \<Longrightarrow> P (Suc n) t (CWrapper c t)"
  shows "P n t c"
  using fits
proof (induction n arbitrary: t c)
  case (Suc n)
  have g: "go_env (g_types G)" using env by (simp add: typed_env_def)
  note parts = go_parts [OF g Suc.prems(3)] and IH = Suc.IH
  have field: "P n (fld_type (fs ! f_index f)) (f_codec f)"
    if "struct_fields (g_types G) t = Some fs" "f_index f < length fs" "fits G dt (fld_type (fs ! f_index f)) (f_codec f)"
      "plain G (f_codec f)" for fs f using that parts(3) [OF that(1)] by (intro IH) auto
  from Suc.prems(1) show ?case
  proof cases
    case (fit_struct fs fds name)
    then show ?thesis unfolding fit_struct(1) using Suc.prems(2,3) field fit_struct(1) by (intro struct) auto
  next
    case (fit_union fs body cases dflt sw sk name)
    then show ?thesis unfolding fit_union(1) using Suc.prems(2,3) field fit_union(1) by (intro union) auto
  next
    case (fit_deferred k)
    then show ?thesis using env IH by (auto simp: typed_env_def intro!: deferred)
  next
    case (fit_opt c')
    then show ?thesis unfolding fit_opt(1) using Suc.prems(2,3) IH fit_opt(1) by (intro opt) auto
  next
    case (fit_map k e kc vc m om)
    then show ?thesis using Suc.prems parts IH unfolding fit_map(1) by (intro map) auto
  qed (use Suc.prems(2,3) parts IH in \<open>auto intro: prim string opaque_array array opaque_slice slice ptr error wrapper\<close>)
qed (rule zero)

end
