(* ===== verification/TypeSafe.thy ===== *)
theory TypeSafe
  imports Typing Decoder
begin

text \<open>
  Type safety of the reflection codecs. On values of its type a fitting codec encodes
  without a panic; any input it decodes into a value of its type, without a panic other than
  that of the run-time system on a slice it cannot address. The
  locale \<open>typed_decoder\<close> is what the codecs need of a decoder for that.
\<close>

section \<open>Decoding\<close>

locale typed_decoder =
  fixes D :: "'d decoder_fn"
  assumes calm: "D k d \<noteq> Panic msg"
    and fills: "D (DecFixedOpaque buf) d = Ret (r, err, d') \<Longrightarrow> length (rep_bytes r) = length buf"

text \<open>
  No panic, but for the one of the run-time system on an oversized allocation, where \<open>B\<close>
  allows it.
\<close>

definition calm_ret :: "bool \<Rightarrow> 'a outcome \<Rightarrow> ('a \<Rightarrow> bool) \<Rightarrow> bool" where
  "calm_ret B m Q \<longleftrightarrow> (\<forall>msg. m = Panic msg \<longrightarrow> B \<and> msg = alloc_panic) \<and> (\<forall>x. m = Ret x \<longrightarrow> Q x)"

lemma calm_bind:
  "calm_ret B m P \<Longrightarrow> (\<And>x. P x \<Longrightarrow> calm_ret B (k x) Q) \<Longrightarrow> calm_ret B (obind m k) Q"
  by (cases m) (auto simp: calm_ret_def)

lemma calm_simps [simp]:
  "calm_ret B (Ret x) Q \<longleftrightarrow> Q x" "calm_ret B Blocked Q" "calm_ret B Spent Q"
  "calm_ret B (Panic m) Q \<longleftrightarrow> B \<and> m = alloc_panic"
  "calm_ret B (reflected y) Q \<longleftrightarrow> (\<exists>x. y = Some x \<and> Q x)"
  by (auto simp: calm_ret_def reflected_def of_option_def alloc_panic_def split: option.splits)

lemma calm_mono: "calm_ret B m P \<Longrightarrow> (\<And>x. P x \<Longrightarrow> Q x) \<Longrightarrow> calm_ret B m Q"
  by (auto simp: calm_ret_def)

lemma calm_reflected [simp]:
  "calm_ret B (obind (reflected y) k) Q \<longleftrightarrow> (\<exists>x. y = Some x \<and> calm_ret B (k x) Q)"
  by (cases y) (auto simp: reflected_def of_option_def alloc_panic_def)

lemma calm_bind3:
  "calm_ret B m (\<lambda>(err, v, d). P v) \<Longrightarrow> (\<And>err v d. P v \<Longrightarrow> calm_ret B (k (err, v, d)) Q) \<Longrightarrow>
     calm_ret B (obind m k) Q"
  by (erule calm_bind) auto

definition safe_dec :: "bool \<Rightarrow> tenv \<Rightarrow> gtype \<Rightarrow> 'd decode_fn \<Rightarrow> bool" where
  "safe_dec B G t f \<longleftrightarrow> (\<forall>v d. of_type G t v \<longrightarrow> calm_ret B (f v d) (\<lambda>(err, v', d'). of_type G t v'))"

lemma safe_decD: "safe_dec B G t f \<Longrightarrow> of_type G t v \<Longrightarrow> calm_ret B (f v d) (\<lambda>(err, v', d'). of_type G t v')"
  by (auto simp: safe_dec_def)

lemma elems_safe:
  assumes f: "safe_dec B G e f"
  shows "\<forall>v\<in>set vs. of_type G e v \<Longrightarrow>
     calm_ret B (dec_elems f vs d) (\<lambda>(err, vs', d'). length vs' = length vs \<and> (\<forall>v\<in>set vs'. of_type G e v))"
proof (induction vs arbitrary: d)
  case (Cons v vs)
  show ?case unfolding dec_elems.simps
  proof (rule calm_bind3 [OF safe_decD [OF f]])
    show "of_type G e v" using Cons.prems by simp
    fix err v' d' assume v': "of_type G e v'"
    show "calm_ret B ((case (err, v', d') of (err, v', d') \<Rightarrow> if err \<noteq> None then Ret (err, v' # vs, d')
        else obind (dec_elems f vs d') (\<lambda>(err', vs', d''). Ret (err', v' # vs', d''))))
      (\<lambda>(err, vs', d'). length vs' = length (v # vs) \<and> (\<forall>v\<in>set vs'. of_type G e v))"
      using Cons v' by (auto intro!: calm_bind3 [OF Cons.IH])
  qed
qed simp

lemma map_set_types:
  "\<forall>(x, y)\<in>set m. of_type G k x \<and> of_type G e y \<Longrightarrow> of_type G k a \<Longrightarrow> of_type G e b \<Longrightarrow>
     \<forall>(x, y)\<in>set (map_set m a b). of_type G k x \<and> of_type G e y"
  by (induction m a b rule: map_set.induct) auto

lemma entries_safe:
  assumes "safe_dec B G k kc" "safe_dec B G e vc" "of_type G k k0" "of_type G e v0"
    and t: "kind G t = KMap" "key_type G t = Some k" "elem_type G t = Some e"
  shows "\<forall>(x, y)\<in>set m. of_type G k x \<and> of_type G e y \<Longrightarrow>
     calm_ret B (dec_entries kc vc k0 v0 i m d) (\<lambda>(err, v', d'). of_type G t v')"
proof (induction i arbitrary: m d)
  case 0
  then show ?case using t by (auto intro: ot_map)
next
  case (Suc i)
  then have m: "of_type G t (VMap (Some m))" using t by (auto intro: ot_map)
  have "calm_ret B (obind (vc v0 d1) (\<lambda>(err', v, d2). if err' \<noteq> None then Ret (err', VMap (Some m), d2)
      else dec_entries kc vc k0 v0 i (map_set m x v) d2)) (\<lambda>(err, v', d'). of_type G t v')"
    if x: "of_type G k x" for x d1
  proof (rule calm_bind3 [OF safe_decD [OF assms(2,4)]])
    fix err y d2 assume "of_type G e y"
    from Suc.IH [OF map_set_types [OF Suc.prems x this]] m
    show "calm_ret B (case (err, y, d2) of (err', v, d2) \<Rightarrow> if err' \<noteq> None then Ret (err', VMap (Some m), d2)
      else dec_entries kc vc k0 v0 i (map_set m x v) d2) (\<lambda>(err, v', d'). of_type G t v')" by simp
  qed
  then show ?case unfolding dec_entries.simps using m
    by (auto intro!: calm_bind3 [OF safe_decD [OF assms(1,3)]])
qed

definition field_fits :: "bool \<Rightarrow> tenv \<Rightarrow> gfield list \<Rightarrow> (codec \<Rightarrow> 'd decode_fn) \<Rightarrow> codec field \<Rightarrow> bool" where
  "field_fits B G fs rc f \<longleftrightarrow> f_index f < length fs \<and> safe_dec B G (fld_type (fs ! f_index f)) (rc (f_codec f))"

lemma field_safe:
  assumes "struct_fields G t = Some fs" "field_fits B G fs rc f" "of_type G t p"
  shows "calm_ret B (field_decode rc f p d)
     (\<lambda>(v, err, p', d'). of_type G (fld_type (fs ! f_index f)) v \<and> of_type G t p')"
proof -
  obtain vs where p: "p = VStruct vs" "length vs = length fs"
    "\<forall>i<length fs. of_type G (fld_type (fs ! i)) (vs ! i)"
    using assms(3) of_kind(20) [OF assms(1)] by auto
  have i: "f_index f < length fs" and f: "safe_dec B G (fld_type (fs ! f_index f)) (rc (f_codec f))"
    using assms(2) by (auto simp: field_fits_def)
  have "of_type G t (VStruct (vs[f_index f := v]))" if "of_type G (fld_type (fs ! f_index f)) v" for v
    using p i that of_kind(20) [OF assms(1)] by (auto simp: nth_list_update)
  then show ?thesis
    using p i by (auto simp: field_decode_def intro!: calm_bind3 [OF safe_decD [OF f]])
qed

lemma struct_safe:
  assumes "struct_fields G t = Some fs"
  shows "\<forall>f\<in>set fds. field_fits B G fs rc f \<Longrightarrow> of_type G t p \<Longrightarrow>
     calm_ret B (structCodec_Decode rc name fds p d) (\<lambda>(err, v', d'). of_type G t v')"
proof (induction fds arbitrary: p d)
  case (Cons f fds)
  then have "field_fits B G fs rc f" by simp
  from field_safe [OF assms this Cons.prems(2)] show ?case
    unfolding structCodec_Decode.simps by (rule calm_bind) (use Cons in auto)
qed simp

lemma arm_selected:
  assumes "arms_ok body cases dflt" "union_case cases dflt w \<noteq> -1"
  obtains f where "body_field body (union_case cases dflt w) = Ret f" "Some f \<in> set body"
    "int (f_index f) = union_case cases dflt w"
proof -
  have "0 \<le> union_case cases dflt w \<and> arm_ok body (nat (union_case cases dflt w))"
    using assms unfolding arms_ok_def union_case_def by (auto split: option.splits dest!: map_of_SomeD)
  then show thesis using that by (auto simp: arm_ok_def body_field_def) (metis nth_mem)
qed

lemma switch_readable:
  assumes "(sk, kind G t) \<in> set switch_kinds" "of_type G t v"
  shows "\<exists>w. union_swVal sk v = Ret w"
  using assms by (auto simp: switch_kinds_def of_kind union_swVal_def reflected_def)

lemma union_safe:
  assumes t: "struct_fields G t = Some fs" and arms: "arms_ok body cases dflt"
    and fd: "\<forall>f\<in>insert sw {f. Some f \<in> set body}. field_fits B G fs rc f"
    and sk: "(sk, kind G (fld_type (fs ! f_index sw))) \<in> set switch_kinds" and p: "of_type G t p"
  shows "calm_ret B (unionCodec_Decode rc name sw body cases dflt sk p d) (\<lambda>(err, v', d'). of_type G t v')"
  unfolding unionCodec_Decode_def
proof (rule calm_bind [OF field_safe [OF t _ p]], goal_cases)
  case 1
  then show ?case using fd by simp
next
  case (2 x)
  obtain v err p' d' where x: "x = (v, err, p', d')" by (cases x)
  with 2 obtain w where w: "union_swVal sk v = Ret w" "of_type G t p'"
    using switch_readable [OF sk] by auto
  show ?case
  proof (cases "union_case cases dflt w = -1")
    case False
    then obtain f where f: "body_field body (union_case cases dflt w) = Ret f" "Some f \<in> set body"
      using arm_selected [OF arms] by metis
    then have "field_fits B G fs rc f" using fd by simp
    have "calm_ret B (obind (field_decode rc f p' d') (\<lambda>(_, err2, v2, d2).
        Ret (arm_error name (f_name f) w err2, v2, d2))) (\<lambda>(err, v', d'). of_type G t v')"
      by (rule calm_bind [OF field_safe [OF t \<open>field_fits B G fs rc f\<close> w(2)]]) auto
    then show ?thesis using x w f False by auto
  qed (use x w in auto)
qed

context typed_decoder
begin

lemma calls_calm: "calm_ret B (D k d) (\<lambda>_. True)"
  using calm by (simp add: calm_ret_def)

lemma fills_calm:
  "calm_ret B (D (DecFixedOpaque buf) d) (\<lambda>(r, err, d'). length (rep_bytes r) = length buf)"
  using calm fills by (auto simp: calm_ret_def)

lemma set_safe:
  "(\<And>v r. of_type G t v \<Longrightarrow> \<exists>v'. put v r = Some v' \<and> of_type G t v') \<Longrightarrow>
     safe_dec B G t (\<lambda>v d. dec_set D k (put v) d)"
  unfolding safe_dec_def dec_set_def by (auto intro!: calm_bind [OF calls_calm])

lemma prim_safe:
  "kind G t = KBool \<Longrightarrow> safe_dec B G t (boolCodec_Decode D)"
  "kind G t \<in> {KInt8, KInt16, KInt32} \<Longrightarrow> safe_dec B G t (intCodec_Decode D)"
  "kind G t \<in> {KUint8, KUint16, KUint32} \<Longrightarrow> safe_dec B G t (uintCodec_Decode D)"
  "kind G t = KInt64 \<Longrightarrow> safe_dec B G t (hyperCodec_Decode D)"
  "kind G t = KUint64 \<Longrightarrow> safe_dec B G t (uhyperCodec_Decode D)"
  "kind G t = KFloat32 \<Longrightarrow> safe_dec B G t (floatCodec_Decode D)"
  "kind G t = KFloat64 \<Longrightarrow> safe_dec B G t (doubleCodec_Decode D)"
  "kind G t = KString \<Longrightarrow> safe_dec B G t (fixedStringCodec_Decode n D)"
  unfolding boolCodec_Decode_def [abs_def] intCodec_Decode_def [abs_def] uintCodec_Decode_def [abs_def]
    hyperCodec_Decode_def [abs_def] uhyperCodec_Decode_def [abs_def] floatCodec_Decode_def [abs_def]
    doubleCodec_Decode_def [abs_def] fixedStringCodec_Decode_def [abs_def]
  by (rule set_safe; auto simp: of_kind)+

lemma var_string_safe: "kind G t = KString \<Longrightarrow> safe_dec B G t (varStringCodec_Decode m om D)"
  unfolding safe_dec_def varStringCodec_Decode_def varString_decode_def
  by (auto simp: of_kind obind_assoc intro!: calm_bind [OF calls_calm])

lemma then_safe:
  assumes "of_type G t v" and "\<And>r d'. calm_ret B (k r d') (\<lambda>(err, v', d'). of_type G t v')"
  shows "calm_ret B (dec_then (D c d) v k) (\<lambda>(err, v', d'). of_type G t v')"
  unfolding dec_then_def using assms by (auto intro!: calm_bind [OF calls_calm])

lemma complex_safe:
  "kind G t = KComplex64 \<Longrightarrow> safe_dec B G t (complex64Codec_Decode D)"
  "kind G t = KComplex128 \<Longrightarrow> safe_dec B G t (complex128Codec_Decode D)"
  unfolding safe_dec_def complex64Codec_Decode_def complex128Codec_Decode_def
  by (intro allI impI then_safe; auto simp: of_kind)+

lemma opaque_array_safe:
  assumes "kind G t = KArray" "byte_kind G t" "array_len G t = Some n" "G = g_types H"
  shows "safe_dec B G t (opaqueArrayCodec_Decode H t D)"
proof -
  obtain e where e: "elem_type G t = Some e" "kind G e = KUint8"
    using assms(2) by (auto simp: byte_kind_def split: option.splits)
  have v: "of_type G t v \<longleftrightarrow> (\<exists>s. v = VArray (map VUint8 s) \<and> length s = n)" for v
  proof -
    have "(\<forall>x\<in>set vs. \<exists>w. x = VUint8 w) \<Longrightarrow> \<exists>s. vs = map VUint8 s" for vs
      by (induction vs) (auto intro: exI [of _ "_ # _"])
    then show ?thesis using e by (fastforce simp: of_kind(18) [OF assms(1) e(1) assms(3)] of_kind(6) [OF e(2)])
  qed
  show ?thesis
    unfolding safe_dec_def v opaqueArrayCodec_Decode_def
    using assms by (auto intro!: calm_bind [OF fills_calm]) blast
qed

lemma opaque_slice_safe:
  assumes "kind (g_types H) t = KSlice" "elem_type (g_types H) t = Some GUint8"
  shows "safe_dec B (g_types H) t (opaqueSliceCodec_Decode H t m D)"
proof -
  have "kind (g_types H) GUint8 = KUint8" by (simp add: kind_def under_def)
  then show ?thesis
    unfolding safe_dec_def opaqueSliceCodec_Decode_def
    using assms by (auto simp: of_kind(17) [OF assms(1,2)] of_kind(6) intro!: calm_bind [OF calls_calm])
qed

lemma array_safe:
  assumes "kind G t = KArray" "elem_type G t = Some e" "array_len G t = Some n" "safe_dec B G e f"
  shows "safe_dec B G t (arrayCodec_Decode f)"
  unfolding safe_dec_def arrayCodec_Decode_def of_kind(18) [OF assms(1-3)]
  by (auto simp: obind_assoc intro!: calm_bind3 [OF elems_safe [OF assms(4)]])

lemma MakeSlice_safe:
  assumes "B \<or> m * size_of (g_word H) (g_types H) e \<le> g_maxAlloc H" "\<not> l > (word_of_nat m :: u32)"
    and "of_type (g_types H) e (zero_value (g_types H) e)"
  shows "calm_ret B (MakeSlice H e (unat l)) (\<lambda>vs. \<forall>v\<in>set vs. of_type (g_types H) e v)"
proof -
  have "unat l \<le> unat (word_of_nat m :: u32)" using assms(2) by (simp add: word_le_nat_alt not_less)
  also have "\<dots> \<le> m" by (simp add: unat_of_nat)
  finally have "unat l * size_of (g_word H) (g_types H) e \<le> m * size_of (g_word H) (g_types H) e"
    by (rule mult_le_mono1)
  then have "B \<or> \<not> g_maxAlloc H < unat l * size_of (g_word H) (g_types H) e"
    using assms(1) order.trans unfolding not_less by blast
  then show ?thesis using assms(3) by (auto simp: MakeSlice_def newarray_def)
qed

lemma slice_safe:
  assumes "kind (g_types H) t = KSlice" "elem_type (g_types H) t = Some e"
    "of_type (g_types H) e (zero_value (g_types H) e)" "safe_dec B (g_types H) e f"
    and size: "B \<or> m * size_of (g_word H) (g_types H) e \<le> g_maxAlloc H"
  shows "safe_dec B (g_types H) t (sliceCodec_Decode H e m om D f)"
  unfolding safe_dec_def sliceCodec_Decode_def
proof (intro allI impI then_safe, assumption)
  fix v r d' assume "of_type (g_types H) t v"
  moreover have "calm_ret B (obind (MakeSlice H e (unat (rep32 r))) (\<lambda>vs0. obind (dec_elems f vs0 d')
      (\<lambda>(err, vs, d2). Ret (err, VSlice (Some vs), d2)))) (\<lambda>(err, v', d'). of_type (g_types H) t v')"
    if "\<not> rep32 r > word_of_nat m"
    by (rule calm_bind [OF MakeSlice_safe [OF size that assms(3)]])
      (use assms(1,2) in \<open>auto intro!: calm_bind3 [OF elems_safe [OF assms(4)]] ot_slice\<close>)
  ultimately show "calm_ret B (let l = rep32 r in
     if l = 0 then Ret (None, VSlice None, d')
     else if l > word_of_nat m then Ret (Some (LengthError (ucast l) (ucast om)), v, d')
     else obind (MakeSlice H e (unat l)) (\<lambda>vs0. obind (dec_elems f vs0 d')
       (\<lambda>(err, vs, d2). Ret (err, VSlice (Some vs), d2)))) (\<lambda>(err, v', d'). of_type (g_types H) t v')"
    using assms(1) by (auto simp: Let_def intro: ot_nil_slice)
qed

lemma ptr_safe:
  assumes "kind G t = KPtr" "elem_type G t = Some e" "of_type G e (zero_value G e)" "safe_dec B G e f"
    "G = g_types H"
  shows "safe_dec B G t (ptrCodec_Decode H e f)"
  unfolding safe_dec_def ptrCodec_Decode_def
  using assms by (auto intro!: calm_bind3 [OF safe_decD [OF assms(4)]] ot_ptr)

lemma opt_safe:
  assumes "of_type G t nilp" "safe_dec B G t f"
  shows "safe_dec B G t (optCodec_Decode nilp D f)"
  unfolding safe_dec_def optCodec_Decode_def
  using assms safe_decD [OF assms(2,1)] by (auto intro!: then_safe)

lemma map_safe:
  assumes "kind G t = KMap" "key_type G t = Some k" "elem_type G t = Some e" "of_type G k (zero_value G k)"
    "of_type G e (zero_value G e)" "safe_dec B G k kc" "safe_dec B G e vc" "G = g_types H"
  shows "safe_dec B G t (mapCodec_Decode H k e m om D kc vc)"
  unfolding safe_dec_def mapCodec_Decode_def
  using entries_safe [OF assms(6,7,4,5,1-3)] assms(8) by (auto simp: Let_def intro!: then_safe)

lemma prims_safe:
  assumes "(kind (g_types G) t, c) \<in> {(KBool, CBool), (KInt8, CInt8), (KInt16, CInt16), (KInt32, CInt32),
     (KUint8, CUint8), (KUint16, CUint16), (KUint32, CUint32), (KInt64, CHyper), (KUint64, CUhyper),
     (KFloat32, CFloat), (KFloat64, CDouble), (KComplex64, CComplex64), (KComplex128, CComplex128)}"
  shows "safe_dec B (g_types G) t (dec (Suc n) G D c)"
  using assms by (auto simp: dec_unfold prim_safe complex_safe)

lemma dec_safe:
  assumes env: "typed_env G dt" and "fits G dt t c" "plain G c" "go_type (g_types G) t" "B \<or> allocatable G c"
    and real: "B \<or> (\<forall>c\<in>ran (g_real G). allocatable G c)"
  shows "safe_dec B (g_types G) t (dec n G D c)"
  using assms(1-5)
proof (induction n t c rule: typed_codec_induct)
  case (prim n t c)
  then show ?case by (intro prims_safe)
next
  case (struct n t fs fds name)
  then have "\<forall>f\<in>set fds. field_fits B (g_types G) fs (dec n G D) f" by (auto simp: field_fits_def)
  then show ?case unfolding dec_unfold safe_dec_def by (intro allI impI struct_safe [OF struct(1)])
next
  case (union n t fs sw body cases dflt sk name)
  then have "\<forall>f\<in>insert sw {f. Some f \<in> set body}. field_fits B (g_types G) fs (dec n G D) f"
    by (auto simp: field_fits_def)
  then show ?case unfolding dec_unfold safe_dec_def
    by (intro allI impI union_safe [OF union(1,3) _ union(4)])
next
  case (deferred n t k)
  then have "safe_dec B (g_types G) t (dec n G D c)" if "g_real G k = Some c" for c
    using that real by (auto simp: ran_def)
  then show ?case unfolding dec_unfold
    by (auto simp: safe_dec_def deferredCodec_Decode_def split: option.splits)
qed ((unfold dec_unfold, rule prim_safe var_string_safe opaque_array_safe array_safe opaque_slice_safe slice_safe
    ptr_safe opt_safe map_safe; use zero_of_type env in \<open>auto simp: typed_env_def\<close>) | simp add: safe_dec_def)+

end

section \<open>Encoding\<close>

definition safe_enc :: "tenv \<Rightarrow> gtype \<Rightarrow> 'e encode_fn \<Rightarrow> bool" where
  "safe_enc G t f \<longleftrightarrow> (\<forall>v e. of_type G t v \<longrightarrow> calm_ret False (f v e) (\<lambda>_. True))"

lemma safe_encD: "safe_enc G t f \<Longrightarrow> of_type G t v \<Longrightarrow> calm_ret False (f v e) (\<lambda>_. True)"
  by (auto simp: safe_enc_def)

lemma enc_then_calm:
  "calm_ret False m (\<lambda>_. True) \<Longrightarrow> (\<And>e. calm_ret False (k e) (\<lambda>_. True)) \<Longrightarrow> calm_ret False (enc_then m k) (\<lambda>_. True)"
  unfolding enc_then_def by (erule calm_bind) auto

lemma enc_elems_calm:
  "safe_enc G t f \<Longrightarrow> \<forall>v\<in>set vs. of_type G t v \<Longrightarrow> calm_ret False (enc_elems f vs e) (\<lambda>_. True)"
  by (induction vs arbitrary: e) (auto intro!: enc_then_calm dest: safe_encD)

lemma enc_entries_calm:
  "safe_enc G k f \<Longrightarrow> safe_enc G t g \<Longrightarrow> \<forall>(x, y)\<in>set kvs. of_type G k x \<and> of_type G t y \<Longrightarrow>
     calm_ret False (enc_entries f g kvs e) (\<lambda>_. True)"
  by (induction kvs arbitrary: e) (auto intro!: enc_then_calm dest: safe_encD)

lemma enc_field_calm:
  assumes "struct_fields G t = Some fs" "f_index f < length fs" "of_type G t p"
    "safe_enc G (fld_type (fs ! f_index f)) (rc (f_codec f))"
  shows "calm_ret False (field_encode rc f p e) (\<lambda>(v, err, e'). of_type G (fld_type (fs ! f_index f)) v)"
proof -
  obtain vs where p: "p = VStruct vs" "length vs = length fs"
    "of_type G (fld_type (fs ! f_index f)) (vs ! f_index f)"
    using assms(2,3) of_kind(20) [OF assms(1)] by auto
  then show ?thesis
    using assms(2) by (auto simp: field_encode_def intro!: calm_bind [OF safe_encD [OF assms(4)]])
qed

lemma enc_struct_calm:
  assumes "struct_fields G t = Some fs" "of_type G t p"
  shows "\<forall>f\<in>set fds. f_index f < length fs \<and> safe_enc G (fld_type (fs ! f_index f)) (rc (f_codec f)) \<Longrightarrow>
     calm_ret False (struct_encodeReflect rc name fds p e) (\<lambda>_. True)"
proof (induction fds arbitrary: e)
  case (Cons f fds)
  then show ?case
    by (auto intro!: calm_bind [OF enc_field_calm [OF assms(1) _ assms(2)]])
qed simp

lemma enc_union_calm:
  assumes t: "struct_fields G t = Some fs" and arms: "arms_ok body cases dflt"
    and fd: "\<forall>f\<in>insert sw {f. Some f \<in> set body}. f_index f < length fs
      \<and> safe_enc G (fld_type (fs ! f_index f)) (rc (f_codec f))"
    and sk: "(sk, kind G (fld_type (fs ! f_index sw))) \<in> set switch_kinds" and p: "of_type G t p"
  shows "calm_ret False (union_encodeReflect rc name sw body cases dflt sk p e) (\<lambda>_. True)"
  unfolding union_encodeReflect_def
proof (rule calm_bind [OF enc_field_calm [OF t _ p]], goal_cases)
  case (3 x)
  obtain v err e' where x: "x = (v, err, e')" by (cases x)
  with 3 obtain w where w: "union_swVal sk v = Ret w" using switch_readable [OF sk] by auto
  show ?case
  proof (cases "union_case cases dflt w = -1")
    case False
    then obtain f where f: "body_field body (union_case cases dflt w) = Ret f" "Some f \<in> set body"
      using arm_selected [OF arms] by metis
    have "calm_ret False (obind (field_encode rc f p e') (\<lambda>(_, err2, e2). Ret (arm_error name (f_name f) w err2, e2)))
        (\<lambda>_. True)"
      by (rule calm_bind [OF enc_field_calm [OF t _ p]]) (use fd f in auto)
    then show ?thesis using x w f False by auto
  qed (use x w in auto)
qed (use fd in auto)

lemma prims_enc_calm:
  assumes "(kind (g_types G) t, c) \<in> {(KBool, CBool), (KInt8, CInt8), (KInt16, CInt16), (KInt32, CInt32),
     (KUint8, CUint8), (KUint16, CUint16), (KUint32, CUint32), (KInt64, CHyper), (KUint64, CUhyper),
     (KFloat32, CFloat), (KFloat64, CDouble), (KComplex64, CComplex64), (KComplex128, CComplex128)}"
  shows "safe_enc (g_types G) t (enc (Suc n) G E c)"
  using assms by (auto simp: safe_enc_def of_kind boolCodec_Encode_def intCodec_Encode_def uintCodec_Encode_def
      hyperCodec_Encode_def uhyperCodec_Encode_def floatCodec_Encode_def doubleCodec_Encode_def
      complex64Codec_Encode_def complex128Codec_Encode_def intro!: enc_then_calm)

lemma bytes_calm:
  assumes "byte_kind G t" "elem_type G t = Some e" "\<forall>x\<in>set vs. of_type G e x"
  shows "\<exists>s. bytes_of vs = Some s"
proof -
  have "kind G e = KUint8" using assms(1,2) by (simp add: byte_kind_def)
  then have "\<forall>x\<in>set vs. \<exists>w. x = VUint8 w" using assms(3) by (auto simp: of_kind)
  then show ?thesis by (induction vs) auto
qed

lemma opaque_enc_calm:
  "kind (g_types G) t = KArray \<Longrightarrow> byte_kind (g_types G) t \<Longrightarrow> array_len (g_types G) t = Some n \<Longrightarrow>
     safe_enc (g_types G) t (opaqueArrayCodec_Encode G t E)"
  "kind (g_types G) t = KSlice \<Longrightarrow> byte_kind (g_types G) t \<Longrightarrow>
     safe_enc (g_types G) t (opaqueSliceCodec_Encode G t m om E)"
proof -
  assume b: "byte_kind (g_types G) t"
  then obtain e where e: "elem_type (g_types G) t = Some e" by (auto simp: byte_kind_def split: option.splits)
  note s = bytes_calm [OF b e]
  show "safe_enc (g_types G) t (opaqueArrayCodec_Encode G t E)" if "kind (g_types G) t = KArray"
    "array_len (g_types G) t = Some n"
    using b s by (auto simp: safe_enc_def opaqueArrayCodec_Encode_def of_kind(18) [OF that(1) e that(2)])
  show "safe_enc (g_types G) t (opaqueSliceCodec_Encode G t m om E)" if "kind (g_types G) t = KSlice"
    using b s by (auto simp: safe_enc_def opaqueSliceCodec_Encode_def of_kind(17) [OF that e])
qed

lemma plain_byte_kind: "elem_type G t = Some GUint8 \<Longrightarrow> byte_kind G t"
  by (simp add: byte_kind_def kind_def under_def)

lemma nilable:
  assumes "of_type G t z" "v_IsNil z = Some True" "of_type G t v"
  shows "\<exists>b. v_IsNil v = Some b"
proof -
  have k: "kind G t \<in> {KPtr, KInterface, KSlice, KMap}" using assms(1,2) by cases auto
  from assms(3) show ?thesis by cases (use k in \<open>auto dest: struct_kind\<close>)
qed

lemma string_enc_calm:
  assumes "kind G t = KString"
  shows "safe_enc G t (fixedStringCodec_Encode n E)" "safe_enc G t (varStringCodec_Encode m om E)"
  using assms by (auto simp: safe_enc_def of_kind fixedStringCodec_Encode_def fixedString_encode_def
      varStringCodec_Encode_def varString_encode_def)

lemma elems_enc_calm:
  assumes "safe_enc G e f" "elem_type G t = Some e"
  shows "kind G t = KArray \<Longrightarrow> array_len G t = Some n \<Longrightarrow> safe_enc G t (arrayCodec_Encode f)"
    "kind G t = KSlice \<Longrightarrow> safe_enc G t (sliceCodec_Encode m om E f)"
    "kind G t = KPtr \<Longrightarrow> safe_enc G t (ptrCodec_Encode f)"
proof -
  show "safe_enc G t (arrayCodec_Encode f)" if "kind G t = KArray" "array_len G t = Some n"
    by (auto simp: safe_enc_def arrayCodec_Encode_def of_kind(18) [OF that(1) assms(2) that(2)]
        intro: enc_elems_calm [OF assms(1)])
  show "safe_enc G t (sliceCodec_Encode m om E f)" if "kind G t = KSlice"
    by (auto simp: safe_enc_def sliceCodec_Encode_def Let_def of_kind(17) [OF that assms(2)]
        intro!: enc_then_calm intro: enc_elems_calm [OF assms(1)])
  show "safe_enc G t (ptrCodec_Encode f)" if "kind G t = KPtr"
    unfolding safe_enc_def
  proof (intro allI impI)
    fix v d assume "of_type G t v"
    then show "calm_ret False (ptrCodec_Encode f v d) (\<lambda>_. True)"
      using safe_encD [OF assms(1)] by (cases v) (auto simp: ptrCodec_Encode_def of_kind(16) [OF that assms(2)])
  qed
qed

lemma opt_enc_calm:
  assumes "of_type G t z" "v_IsNil z = Some True" "safe_enc G t f"
  shows "safe_enc G t (optCodec_Encode E f)"
  unfolding safe_enc_def
proof (intro allI impI)
  fix v e assume v: "of_type G t v"
  with nilable [OF assms(1,2)] obtain b where "v_IsNil v = Some b" by blast
  then show "calm_ret False (optCodec_Encode E f v e) (\<lambda>_. True)"
    using safe_encD [OF assms(3) v] by (auto simp: optCodec_Encode_def intro!: enc_then_calm)
qed

lemma map_enc_calm:
  assumes "kind G t = KMap" "key_type G t = Some k" "elem_type G t = Some e" "safe_enc G k f" "safe_enc G e g"
  shows "safe_enc G t (mapCodec_Encode m om E f g)"
  by (auto simp: safe_enc_def mapCodec_Encode_def Let_def of_kind(19) [OF assms(1-3)]
      intro!: enc_then_calm intro: enc_entries_calm [OF assms(4,5)])

lemma enc_safe:
  assumes env: "typed_env G dt" and "fits G dt t c" "plain G c" "go_type (g_types G) t"
  shows "safe_enc (g_types G) t (enc n G E c)"
  using assms
proof (induction n t c rule: typed_codec_induct)
  case (prim n t c)
  then show ?case by (intro prims_enc_calm)
next
  case (struct n t fs fds name)
  then have "\<forall>f\<in>set fds. f_index f < length fs
      \<and> safe_enc (g_types G) (fld_type (fs ! f_index f)) (enc n G E (f_codec f))" by simp
  then show ?case unfolding enc_unfold safe_enc_def [of _ t] by (intro allI impI enc_struct_calm [OF struct(1)])
next
  case (union n t fs sw body cases dflt sk name)
  then have "\<forall>f\<in>insert sw {f. Some f \<in> set body}. f_index f < length fs
      \<and> safe_enc (g_types G) (fld_type (fs ! f_index f)) (enc n G E (f_codec f))" by simp
  then show ?case unfolding enc_unfold safe_enc_def [of _ t]
    by (intro allI impI enc_union_calm [OF union(1,3) _ union(4)])
next
  case (deferred n t k)
  then show ?case unfolding enc_unfold
    by (auto simp: safe_enc_def deferredCodec_Encode_def split: option.splits)
qed ((unfold enc_unfold, rule string_enc_calm opaque_enc_calm elems_enc_calm opt_enc_calm map_enc_calm;
    use zero_of_type env in \<open>auto simp: typed_env_def plain_byte_kind\<close>) | simp add: safe_enc_def)+

section \<open>The decoder is a typed decoder\<close>

text \<open>Where ints are wide enough for any padded 32-bit length.\<close>

lemma ReadFull_calm: "calm_ret False (ReadFull rd n s) (\<lambda>_. True)"
  by (simp add: calm_ret_def ReadFull_def split: option.splits)

lemma DecodeOpaque_calm:
  assumes "max_u32 + 3 \<le> M"
  shows "calm_ret False (DecodeOpaque M rd n d) (\<lambda>_. True)"
proof -
  have "\<not> M < unat l + 3" for l :: u32
    using assms unsigned_less [of l, where ?'a = nat] by (simp add: max_u32_def)
  then show ?thesis
    unfolding DecodeOpaque_def DecodeUnsignedInt_def Let_def obind_assoc
    by (auto intro!: calm_bind [OF ReadFull_calm])
qed

lemma DecodeString_calm:
  "max_u32 + 3 \<le> M \<Longrightarrow> calm_ret False (DecodeString M rd n d) (\<lambda>_. True)"
  unfolding DecodeString_def by (auto intro!: calm_bind [OF DecodeOpaque_calm])

context reader
begin

lemma DecodeFixedOpaque_fills:
  "DecodeFixedOpaque rd buf d = Ret (bs, err, d') \<Longrightarrow> length bs = length buf"
proof -
  assume a: "DecodeFixedOpaque rd buf d = Ret (bs, err, d')"
  obtain x e s' where r: "ReadFull rd (length buf) (dec_r d) = Ret (x, e, s')" "length x \<le> length buf"
    using ReadFull_returns [of "length buf" "dec_r d"] by blast
  then have "length (overwrite buf x) = length buf" by (simp add: overwrite_def)
  then show ?thesis using a r(1) by (auto simp: DecodeFixedOpaque_def Let_def split: if_splits)
qed

lemma decoder_typed:
  assumes "max_u32 + 3 \<le> M"
  shows "typed_decoder (decoder_call M rd)"
proof (unfold_locales, goal_cases)
  case (1 k d msg)
  have r: "calm_ret False m (\<lambda>_. True) \<Longrightarrow> reply RBytes m \<noteq> Panic msg"
    for m :: "(u8 list \<times> gerror option \<times> 'r decoder) outcome"
    by (cases m) (auto simp: reply_def)
  have c: "consumes m d \<Longrightarrow> m \<noteq> Panic msg" for m :: "(dec_reply \<times> gerror option \<times> 'r decoder) outcome"
    by (auto simp: consumes_def)
  show ?case
  proof (cases k)
    case (DecOpaque n)
    then show ?thesis using r [OF DecodeOpaque_calm [OF assms]] by simp
  next
    case (DecString n)
    then show ?thesis using r [OF DecodeString_calm [OF assms]] by simp
  qed (rule c; simp add: reply_consumes DecodeUnsignedInt_consumes DecodeBool_consumes DecodeFixedString_def
      DecodeUnsignedHyper_consumes DecodeFixedOpaque_consumes renamed_consumes)+
next
  case (2 buf d r err d')
  then show ?case by (auto simp: reply_def dest: DecodeFixedOpaque_fills)
qed

end

interpretation bytes_typed: typed_decoder "decoder_call (2 ^ 63 - 1) bytes_read"
  by (rule bytes_reader.decoder_typed) (simp add: max_u32_def)

interpretation piece_typed: typed_decoder "decoder_call (2 ^ 63 - 1) piece_read"
  by (rule piece_reader.decoder_typed) (simp add: max_u32_def)

end
