(* ===== verification/Coder.thy ===== *)
theory Coder
  imports ParseTag Codecs
begin

text \<open>
  The codec registry of \<open>internal/coder/coder.go\<close> and the construction of codecs from
  types and tags (\<open>makeOptCodec\<close> to \<open>makeStructCodec\<close>). The state of a \<open>Coder\<close> is what its
  two \<open>sync.Map\<close>s hold, together with the deferred codec objects that were published and
  the real codec each was resolved to. Construction is a mutual recursion through
  \<open>getCodec\<close>; the builders take it as an argument, and \<open>getCodec\<close> itself ties the knot with
  a bound on the nesting depth. This is the coder as one goroutine uses it; the steps of
  several are in \<open>Goroutines\<close>.
\<close>

section \<open>State\<close>

text \<open>What is fixed when the package is built: int size, declared types, the \<open>nounsafe\<close> tag.\<close>

record platform =
  p_maxInt :: nat
  p_types :: tenv
  p_nounsafe :: bool

text \<open>\<open>Type.Size\<close> and \<open>StructField.Offset\<close>, which only the unsafe build looks at.\<close>

definition p_size :: "platform \<Rightarrow> gtype \<Rightarrow> nat" where
  "p_size P t = size_of (word_bytes (p_maxInt P)) (p_types P) t"

definition p_offset :: "platform \<Rightarrow> gtype \<Rightarrow> nat \<Rightarrow> nat" where
  "p_offset P t i = field_offset (word_bytes (p_maxInt P)) (p_types P) t i"

type_synonym xtype = "gtype \<times> u8 list"

record coder =
  cr_base :: "gtype \<Rightarrow> codec option"
  cr_known :: "xtype \<Rightarrow> codec option"
  cr_next :: nat
  cr_real :: "nat \<Rightarrow> codec option"

definition NewCoder :: coder where
  "NewCoder = \<lparr>cr_base = Map.empty, cr_known = Map.empty, cr_next = 0, cr_real = Map.empty\<rparr>"

type_synonym 'a build = "coder \<Rightarrow> ('a \<times> coder) outcome"
type_synonym get_codec = "gtype \<Rightarrow> xdrtag \<Rightarrow> codec build"

section \<open>Codec representations\<close>

text \<open>
  \<open>codec_unsafe.go\<close> and \<open>codec_nounsafe.go\<close>: which codecs are an \<open>xCodec\<close> of the build.
\<close>

definition xCodec :: "platform \<Rightarrow> codec \<Rightarrow> bool" where
  "xCodec P c \<longleftrightarrow> p_nounsafe P \<or> codecUnsafe c"

definition toXCodec_nounsafe :: "codec \<Rightarrow> gtype \<Rightarrow> codec" where
  [simp]: "toXCodec_nounsafe c t = c"

definition toXCodec :: "platform \<Rightarrow> codec \<Rightarrow> gtype \<Rightarrow> codec" where
  "toXCodec P c t = (if p_nounsafe P then toXCodec_nounsafe c t else if codecUnsafe c then c else CWrapper c t)"

definition toOriginalCodec_nounsafe :: "codec \<Rightarrow> codec" where
  [simp]: "toOriginalCodec_nounsafe x = x"

definition toOriginalCodec :: "platform \<Rightarrow> codec \<Rightarrow> codec" where
  "toOriginalCodec P x = (if p_nounsafe P then toOriginalCodec_nounsafe x else case x of CWrapper c t \<Rightarrow> c | _ \<Rightarrow> x)"

text \<open>The type assertion \<open>c.(xCodec)\<close> on a value taken out of a map.\<close>

definition as_xCodec :: "platform \<Rightarrow> codec \<Rightarrow> codec outcome" where
  "as_xCodec P c = (if xCodec P c then Ret c else Panic ''interface conversion: missing method encodeUnsafe'')"

definition tag_panic :: string where "tag_panic = ''slice bounds out of range''"

definition next_tag :: "xdrtag \<Rightarrow> xdrtag outcome" where
  "next_tag tag = of_option tag_panic (tag_Next tag)"

definition only_value :: "xdrtag \<Rightarrow> u32 outcome" where
  "only_value tag = of_option tag_panic (OnlyValue tag)"

section \<open>Builders of the container codecs\<close>

definition makeOptCodec :: "platform \<Rightarrow> get_codec \<Rightarrow> get_codec" where
  "makeOptCodec P gc t tag cr =
     obind (next_tag tag) (\<lambda>t1.
     obind (of_option tag_panic (tag_Prepend t1 Noop [])) (\<lambda>t2.
     obind (of_option tag_panic (tag_Trimmed t2)) (\<lambda>tag'.
     obind (gc t tag' cr) (\<lambda>(c, cr'). Ret (COpt c (zero_value (p_types P) t), cr')))))"

definition reflect_elem :: "platform \<Rightarrow> gtype \<Rightarrow> gtype outcome" where
  "reflect_elem P t = of_option ''reflect: Elem of invalid type'' (elem_type (p_types P) t)"

definition reflect_key :: "platform \<Rightarrow> gtype \<Rightarrow> gtype outcome" where
  "reflect_key P t = of_option ''reflect: Key of non-map type'' (key_type (p_types P) t)"

definition reflect_len :: "platform \<Rightarrow> gtype \<Rightarrow> nat outcome" where
  "reflect_len P t = of_option ''reflect: Len of non-array type'' (array_len (p_types P) t)"

definition makePtrCodec :: "platform \<Rightarrow> get_codec \<Rightarrow> get_codec" where
  "makePtrCodec P gc t tag cr =
     obind (reflect_elem P t) (\<lambda>elemt. obind (next_tag tag) (\<lambda>tag'.
     obind (gc elemt tag' cr) (\<lambda>(c, cr'). Ret (CPtr c elemt, cr'))))"

text \<open>\<open>^uint32(0)\<close>, and the cap of a maximum at the largest int.\<close>

definition no_max :: u32 where "no_max = - 1"

definition cap_max :: "platform \<Rightarrow> u32 \<Rightarrow> u32" where
  "cap_max P m = (if unat m > p_maxInt P then word_of_nat (p_maxInt P) else m)"

definition makeStringCodec :: "platform \<Rightarrow> gtype \<Rightarrow> xdrtag \<Rightarrow> codec outcome" where
  "makeStringCodec P t tag = obind (next_tag tag) (\<lambda>tag'.
     if \<not> tag_Empty tag' then Ret (CError (StringTagError tag))
     else if tag_Kind tag = Len then obind (only_value tag) (\<lambda>l.
       if unat l > p_maxInt P then Ret (CError (LengthError (ucast l) (ucast l)))
       else Ret (CFixedString (unat l)))
     else if tag_Kind tag = MaxLen then
       obind (only_value tag) (\<lambda>l. Ret (CVarString (unat (cap_max P l)) l))
     else if tag_Kind tag = Noop then Ret (CVarString (unat (cap_max P no_max)) no_max)
     else Ret (CError (InvalidTagForTypeError t tag)))"

definition makeArrayCodec :: "platform \<Rightarrow> get_codec \<Rightarrow> get_codec" where
  "makeArrayCodec P gc t tag cr =
     (if tag_Kind tag \<noteq> Noop then Ret (CError (InvalidTagForTypeError t tag), cr)
      else obind (next_tag tag) (\<lambda>tag'.
        if tag_Kind tag' = Opaque then obind (reflect_len P t) (\<lambda>l. Ret (COpaqueArray t l, cr))
        else obind (reflect_elem P t) (\<lambda>elemt.
          obind (gc elemt tag' cr) (\<lambda>(c, cr').
          obind (reflect_len P t) (\<lambda>l. Ret (CArray c l (p_size P elemt), cr'))))))"

text \<open>The maximum that slices and maps read off their tag; \<open>None\<close>: the tag is not legal.\<close>

definition container_max :: "xdrtag \<Rightarrow> u32 option outcome" where
  "container_max tag =
     (if tag_Kind tag = MaxLen then obind (only_value tag) (\<lambda>l. Ret (Some l))
      else if tag_Kind tag = Noop then Ret (Some no_max) else Ret None)"

definition makeSliceCodec :: "platform \<Rightarrow> get_codec \<Rightarrow> get_codec" where
  "makeSliceCodec P gc t tag cr = obind (container_max tag) (\<lambda>mx. case mx of
      None \<Rightarrow> Ret (CError (InvalidTagForTypeError t tag), cr)
    | Some origMax \<Rightarrow> let maxlen = unat (cap_max P origMax) in
        obind (next_tag tag) (\<lambda>tag'.
          if tag_Kind tag' = Opaque then Ret (COpaqueSlice t maxlen origMax, cr)
          else obind (reflect_elem P t) (\<lambda>elemt.
            obind (gc elemt tag' cr) (\<lambda>(c, cr'). Ret (CSlice c elemt maxlen (p_size P elemt) origMax, cr')))))"

definition makeMapCodec :: "platform \<Rightarrow> get_codec \<Rightarrow> get_codec" where
  "makeMapCodec P gc t tag cr = obind (container_max tag) (\<lambda>mx. case mx of
      None \<Rightarrow> Ret (CError (InvalidTagForTypeError t tag), cr)
    | Some origMax \<Rightarrow> let maxlen = unat (cap_max P origMax) in
        obind (reflect_key P t) (\<lambda>kt. obind (gc kt [] cr) (\<lambda>(kc, cr1).
        obind (reflect_elem P t) (\<lambda>vt. obind (next_tag tag) (\<lambda>tag'.
        obind (gc vt tag' cr1) (\<lambda>(vc, cr2). Ret (CMap kc vc kt vt maxlen origMax, cr2)))))))"

section \<open>Structs and unions\<close>

definition makeField :: "platform \<Rightarrow> get_codec \<Rightarrow> gtype \<Rightarrow> nat \<Rightarrow> gfield \<Rightarrow> xdrtag \<Rightarrow> codec field build" where
  "makeField P gc t i f tag cr = obind (gc (fld_type f) tag cr) (\<lambda>(c, cr').
     Ret (Field i (p_offset P t i) c (fld_name f), cr'))"

definition tag_failure :: "gtype \<Rightarrow> gfield \<Rightarrow> tag_error \<Rightarrow> codec" where
  "tag_failure t f err = CError (FieldTagError (fld_name f) t err)"

text \<open>
  The first loop of \<open>makeStructCodec\<close>: up to the first field that is not skipped. The
  result is the flag, that field with its index and tag (if any), and the fields left.
\<close>

fun first_field ::
  "platform \<Rightarrow> gtype \<Rightarrow> (nat \<times> gfield) list
    \<Rightarrow> (codec + is_in_union \<times> (nat \<times> gfield \<times> xdrtag) option \<times> (nat \<times> gfield) list) outcome" where
  "first_field P t [] = Ret (Inr (MaybeInUnion, None, []))"
| "first_field P t ((i, f) # fs) =
     obind (ParseStructTag (p_types P) (fld_type f) (fld_tag f) MaybeInUnion) (\<lambda>(r, isUnion). case r of
        Inl err \<Rightarrow> Ret (Inl (tag_failure t f err))
      | Inr tag \<Rightarrow>
          if tag_Kind tag = Skip then
            (if isUnion = MaybeInUnion then first_field P t fs else Ret (Inr (isUnion, Some (i, f, tag), fs)))
          else if isUnion = MaybeInUnion
            then Panic ''We found an unskipped field but somehow don't know if we're a union or not''
          else Ret (Inr (isUnion, Some (i, f, tag), fs)))"

text \<open>The remaining fields of a struct.\<close>

fun struct_fields_loop ::
  "platform \<Rightarrow> get_codec \<Rightarrow> gtype \<Rightarrow> (nat \<times> gfield) list \<Rightarrow> is_in_union \<Rightarrow> codec field list
    \<Rightarrow> (codec + codec field list) build" where
  "struct_fields_loop P gc t [] isUnion acc cr = Ret (Inr acc, cr)"
| "struct_fields_loop P gc t ((i, f) # fs) isUnion acc cr =
     obind (ParseStructTag (p_types P) (fld_type f) (fld_tag f) isUnion) (\<lambda>(r, isUnion'). case r of
        Inl err \<Rightarrow> Ret (Inl (tag_failure t f err), cr)
      | Inr tag \<Rightarrow>
          if tag_Kind tag = Skip then struct_fields_loop P gc t fs isUnion' acc cr
          else obind (makeField P gc t i f tag cr) (\<lambda>(fd, cr').
            struct_fields_loop P gc t fs isUnion' (acc @ [fd]) cr'))"

text \<open>The cases of one union field; a value that is already taken is the failure.\<close>

fun add_cases :: "nat \<Rightarrow> u32 list \<Rightarrow> (u32 \<times> nat) list \<Rightarrow> u32 + (u32 \<times> nat) list" where
  "add_cases i [] cases = Inr cases"
| "add_cases i (v # vs) cases =
     (if map_of cases v \<noteq> None then Inl v else add_cases i vs ((v, i) # cases))"

fun union_fields_loop ::
  "platform \<Rightarrow> get_codec \<Rightarrow> gtype \<Rightarrow> (nat \<times> gfield) list \<Rightarrow> is_in_union
    \<Rightarrow> codec field option list \<Rightarrow> (u32 \<times> nat) list \<Rightarrow> int
    \<Rightarrow> (codec + codec field option list \<times> (u32 \<times> nat) list \<times> int) build" where
  "union_fields_loop P gc t [] isUnion body cases dflt cr = Ret (Inr (body, cases, dflt), cr)"
| "union_fields_loop P gc t ((i, f) # fs) isUnion body cases dflt cr =
     obind (ParseStructTag (p_types P) (fld_type f) (fld_tag f) isUnion) (\<lambda>(r, isUnion'). case r of
        Inl err \<Rightarrow> Ret (Inl (tag_failure t f err), cr)
      | Inr tag \<Rightarrow>
          if tag_Kind tag = Skip then union_fields_loop P gc t fs isUnion' body cases dflt cr
          else obind (next_tag tag) (\<lambda>tag'. obind (makeField P gc t i f tag' cr) (\<lambda>(fd, cr').
            let body' = body[i := Some fd] in
            if tag_Kind tag = UnionCases then
              obind (of_option tag_panic (range_values tag)) (\<lambda>vs. case add_cases i vs cases of
                  Inl v \<Rightarrow> Ret (Inl (CError (UnionValueDuplicated v t)), cr')
                | Inr cases' \<Rightarrow> union_fields_loop P gc t fs isUnion' body' cases' dflt cr')
            else if tag_Kind tag = UnionDefault then
              (if dflt \<noteq> -1 then Ret (Inl (CError (DefaultCaseDuplicated t)), cr')
               else union_fields_loop P gc t fs isUnion' body' cases (int i) cr')
            else union_fields_loop P gc t fs isUnion' body' cases dflt cr')))"

definition union_switch_kind :: "platform \<Rightarrow> gtype \<Rightarrow> switch_kind outcome" where
  "union_switch_kind P t =
     (if kind (p_types P) t = KInt32 then Ret SwitchInt
      else if kind (p_types P) t = KUint32 then Ret SwitchUint
      else if kind (p_types P) t = KBool then Ret SwitchBool
      else Panic ''Switch field of union not valid (must be int32, uint32 or bool)'')"

definition make_union ::
  "platform \<Rightarrow> get_codec \<Rightarrow> gtype \<Rightarrow> nat \<Rightarrow> nat \<Rightarrow> gfield \<Rightarrow> xdrtag \<Rightarrow> (nat \<times> gfield) list \<Rightarrow> codec build" where
  "make_union P gc t fieldCount i f tag fs cr =
     (if tag_Kind tag \<noteq> UnionSwitch then Panic ''First element of union not switch''
      else obind (union_switch_kind P (fld_type f)) (\<lambda>switchKind.
        obind (next_tag tag) (\<lambda>tag'. obind (makeField P gc t i f tag' cr) (\<lambda>(sw, cr1).
        obind (union_fields_loop P gc t fs InUnion (replicate fieldCount None) [] (-1) cr1) (\<lambda>(r, cr2).
          Ret (case r of Inl c \<Rightarrow> c
            | Inr (body, cases, dflt) \<Rightarrow> CUnion (type_name t) sw body cases dflt switchKind, cr2))))))"

definition make_struct ::
  "platform \<Rightarrow> get_codec \<Rightarrow> gtype \<Rightarrow> nat \<Rightarrow> gfield \<Rightarrow> xdrtag \<Rightarrow> (nat \<times> gfield) list \<Rightarrow> codec build" where
  "make_struct P gc t i f tag fs cr = obind (makeField P gc t i f tag cr) (\<lambda>(fd, cr1).
     obind (struct_fields_loop P gc t fs NotInUnion [fd] cr1) (\<lambda>(r, cr2).
       Ret (case r of Inl c \<Rightarrow> c | Inr fds \<Rightarrow> CStruct (type_name t) fds, cr2)))"

definition makeStructCodec :: "platform \<Rightarrow> get_codec \<Rightarrow> gtype \<Rightarrow> codec build" where
  "makeStructCodec P gc t cr =
     obind (of_option ''reflect: NumField of non-struct type'' (struct_fields (p_types P) t)) (\<lambda>fs.
     obind (first_field P t (enumerate 0 fs)) (\<lambda>r. case r of
        Inl c \<Rightarrow> Ret (c, cr)
      | Inr (InUnion, Some (i, f, tag), rest) \<Rightarrow> make_union P gc t (length fs) i f tag rest cr
      | Inr (NotInUnion, Some (i, f, tag), rest) \<Rightarrow> make_struct P gc t i f tag rest cr
      | Inr _ \<Rightarrow> Ret (CStruct (type_name t) [], cr)))"

section \<open>The registry\<close>

definition plain_codec :: "platform \<Rightarrow> get_codec \<Rightarrow> gtype \<Rightarrow> codec build" where
  "plain_codec P gc t cr = (case kind (p_types P) t of
      KBool \<Rightarrow> Ret (CBool, cr) | KInt8 \<Rightarrow> Ret (CInt8, cr) | KInt16 \<Rightarrow> Ret (CInt16, cr)
    | KInt32 \<Rightarrow> Ret (CInt32, cr) | KUint8 \<Rightarrow> Ret (CUint8, cr) | KUint16 \<Rightarrow> Ret (CUint16, cr)
    | KUint32 \<Rightarrow> Ret (CUint32, cr) | KInt64 \<Rightarrow> Ret (CHyper, cr) | KUint64 \<Rightarrow> Ret (CUhyper, cr)
    | KFloat32 \<Rightarrow> Ret (CFloat, cr) | KFloat64 \<Rightarrow> Ret (CDouble, cr)
    | KComplex64 \<Rightarrow> Ret (CComplex64, cr) | KComplex128 \<Rightarrow> Ret (CComplex128, cr)
    | KStruct \<Rightarrow> makeStructCodec P gc t cr
    | _ \<Rightarrow> Ret (CError (InvalidTypeError t), cr))"

definition buildCodec :: "platform \<Rightarrow> get_codec \<Rightarrow> get_codec" where
  "buildCodec P gc t tag cr =
     (if tag_Kind tag = Opt then makeOptCodec P gc t tag cr
      else case kind (p_types P) t of
        KPtr \<Rightarrow> makePtrCodec P gc t tag cr
      | KString \<Rightarrow> obind (makeStringCodec P t tag) (\<lambda>c. Ret (c, cr))
      | KArray \<Rightarrow> makeArrayCodec P gc t tag cr
      | KSlice \<Rightarrow> makeSliceCodec P gc t tag cr
      | KMap \<Rightarrow> makeMapCodec P gc t tag cr
      | _ \<Rightarrow> if \<not> tag_Empty tag then Ret (CError (InvalidTagForTypeError t tag), cr)
          else if implements_marshaler (p_types P) t then Ret (CMarshaler t, cr)
          else plain_codec P gc t cr)"

text \<open>
  \<open>LoadOrStore\<close> of a fresh deferred codec, construction, publication, resolution. (A deferred
  codec that loses against an existing entry is dropped unseen.)
\<close>

definition getNewCodec :: "platform \<Rightarrow> get_codec \<Rightarrow> xtype \<Rightarrow> xdrtag \<Rightarrow> codec build" where
  "getNewCodec P gc xt tag cr = (case cr_known cr xt of
      Some c \<Rightarrow> obind (as_xCodec P c) (\<lambda>c. Ret (c, cr))
    | None \<Rightarrow>
        let dc = cr_next cr;
            cr1 = cr\<lparr>cr_next := Suc dc, cr_known := (cr_known cr)(xt \<mapsto> CDeferred dc)\<rparr> in
        obind (buildCodec P gc (fst xt) tag cr1) (\<lambda>(c, cr2).
          let cc = toXCodec P c (fst xt);
              cr3 = cr2\<lparr>cr_known := (cr_known cr2)(xt \<mapsto> cc)\<rparr>;
              cr4 = (if tag_Empty tag then cr3\<lparr>cr_base := (cr_base cr3)(fst xt \<mapsto> cc)\<rparr> else cr3);
              cr5 = cr4\<lparr>cr_real := (cr_real cr4)(dc \<mapsto> cc)\<rparr> in
          Ret (cc, cr5)))"

primrec getCodec :: "nat \<Rightarrow> platform \<Rightarrow> get_codec" where
  "getCodec 0 P t tag cr = Spent"
| "getCodec (Suc n) P t tag cr =
     (let xt = (t, ByteString tag) in case cr_known cr xt of
        Some c \<Rightarrow> obind (as_xCodec P c) (\<lambda>c. Ret (c, cr))
      | None \<Rightarrow> getNewCodec P (getCodec n P) xt tag cr)"

definition getBaseCodec :: "nat \<Rightarrow> platform \<Rightarrow> gtype \<Rightarrow> codec build" where
  "getBaseCodec n P t cr = (case cr_base cr t of
      Some c \<Rightarrow> obind (as_xCodec P c) (\<lambda>c. Ret (c, cr))
    | None \<Rightarrow> getNewCodec P (getCodec n P) (t, []) [] cr)"

section \<open>Registration\<close>

definition prohibitedCustomCodecKinds :: "gkind set" where
  "prohibitedCustomCodecKinds =
     {KInvalid, KArray, KSlice, KString, KMap, KPtr, KChan, KFunc, KUnsafePointer}"

definition prohibitedPrimitives :: "gtype set" where
  "prohibitedPrimitives = {GBool, GInt8, GInt16, GInt32, GInt64, GInt, GUint8, GUint16, GUint32,
     GUint64, GUint, GUintptr, GFloat32, GFloat64, GComplex64, GComplex128}"

definition RegisterCodecReflect :: "platform \<Rightarrow> gtype \<Rightarrow> codec \<Rightarrow> unit build" where
  "RegisterCodecReflect P t c cr =
     (if kind (p_types P) t \<in> prohibitedCustomCodecKinds
      then Panic ''Attempt to register codec for type which is of a prohibited kind''
      else if t \<in> prohibitedPrimitives
      then Panic ''Attempt to register codec for primitive is prohibited''
      else case cr_known cr (t, []) of
        None \<Rightarrow> Ret ((), cr\<lparr>cr_known := (cr_known cr)((t, []) \<mapsto> c)\<rparr>)
      | Some existing \<Rightarrow> obind (as_xCodec P existing) (\<lambda>x.
          if toOriginalCodec P x \<noteq> c then Panic ''codec is already registered'' else Ret ((), cr)))"

text \<open>\<open>RegisterCodec\<close> with a template of dynamic type \<open>t\<close>.\<close>

definition RegisterCodec :: "platform \<Rightarrow> gtype \<Rightarrow> codec \<Rightarrow> unit build" where
  "RegisterCodec P t c cr = RegisterCodecReflect P t c cr"

end
