(* ===== verification/Waiting.thy ===== *)
theory Waiting
  imports Coder Typing
begin

text \<open>
  The deferred codecs a codec refers to (\<open>codec_ids\<close>): where all of them are resolved, neither
  encoding nor decoding waits.
\<close>

section \<open>Deferred codecs in a codec\<close>

function codec_ids :: "codec \<Rightarrow> nat set" where
  "codec_ids (CArray c l sz) = codec_ids c"
| "codec_ids (CSlice c t m sz om) = codec_ids c"
| "codec_ids (CPtr c t) = codec_ids c"
| "codec_ids (COpt c v) = codec_ids c"
| "codec_ids (CMap kc vc kt vt m om) = codec_ids kc \<union> codec_ids vc"
| "codec_ids (CStruct name fs) = (\<Union>f\<in>set fs. codec_ids (f_codec f))"
| "codec_ids (CUnion name sw body cases dflt sk) =
     codec_ids (f_codec sw) \<union> (\<Union>f\<in>{f. Some f \<in> set body}. codec_ids (f_codec f))"
| "codec_ids (CWrapper c t) = codec_ids c"
| "codec_ids (CDeferred k) = {k}"
| "codec_ids CBool = {}" | "codec_ids CInt8 = {}" | "codec_ids CInt16 = {}" | "codec_ids CInt32 = {}"
| "codec_ids CUint8 = {}" | "codec_ids CUint16 = {}" | "codec_ids CUint32 = {}"
| "codec_ids CHyper = {}" | "codec_ids CUhyper = {}" | "codec_ids CFloat = {}" | "codec_ids CDouble = {}"
| "codec_ids CComplex64 = {}" | "codec_ids CComplex128 = {}" | "codec_ids (CFixedString l) = {}"
| "codec_ids (CVarString m om) = {}" | "codec_ids (COpaqueArray t l) = {}"
| "codec_ids (COpaqueSlice t m om) = {}" | "codec_ids (CError e) = {}" | "codec_ids (CMarshaler t) = {}"
| "codec_ids (CForeign k) = {}"
  by pat_completeness auto
termination
proof (relation "measure size", goal_cases)
  case (8 name fs f)
  then show ?case by (simp add: codec_field_size)
next
  case (9 name sw body cases dflt sk)
  then show ?case by (cases sw) simp
next
  case (10 name sw body cases dflt sk f)
  then show ?case using codec_body_size [of f body] by simp
qed auto

text \<open>Codecs whose deferred codecs are all resolved never wait.\<close>

definition resolved_env :: "(nat \<Rightarrow> codec option) \<Rightarrow> bool" where
  "resolved_env real \<longleftrightarrow> (\<forall>k c. real k = Some c \<longrightarrow> codec_ids c \<subseteq> dom real)"

lemma reflected_not_Blocked [simp]: "reflected x \<noteq> Blocked" "reflected x \<noteq> Spent"
  by (cases x; simp add: reflected_def)+

definition runs :: "'a outcome \<Rightarrow> bool" where
  "runs m \<longleftrightarrow> m \<noteq> Blocked"

lemma runs_obind:
  "runs m \<Longrightarrow> (\<And>x. m = Ret x \<Longrightarrow> runs (f x)) \<Longrightarrow> runs (obind m f)"
  by (cases m) (auto simp: runs_def)

lemma runs_enc_then: "runs m \<Longrightarrow> (\<And>e. runs (k e)) \<Longrightarrow> runs (enc_then m k)"
  unfolding enc_then_def by (rule runs_obind) (auto simp: runs_def split: prod.split)

lemma runs_dec_then: "runs m \<Longrightarrow> (\<And>r d. runs (k r d)) \<Longrightarrow> runs (dec_then m v k)"
  unfolding dec_then_def by (rule runs_obind) (auto simp: runs_def split: prod.split)

lemma runs_basic: "runs (Ret x)" "runs (Panic p)" "runs Spent" "runs (reflected y)"
  by (simp_all add: runs_def)

lemma runs_bind: "runs m \<Longrightarrow> (\<And>x. runs (f x)) \<Longrightarrow> runs (obind m f)"
  by (rule runs_obind)

lemmas runs_intros = runs_basic runs_bind runs_enc_then runs_dec_then

lemma runs_case:
  "(\<And>x. runs (f x)) \<Longrightarrow> runs g \<Longrightarrow> runs (case x of Some y \<Rightarrow> f y | None \<Rightarrow> g)"
  "runs a \<Longrightarrow> runs b \<Longrightarrow> runs (if p then a else b)"
  by (cases x) simp_all

lemma runs_elems:
  "(\<And>x e. runs (ef x e)) \<Longrightarrow> runs (enc_elems ef vs e)"
  "(\<And>x d. runs (df x d)) \<Longrightarrow> runs (dec_elems df vs d)"
proof -
  show "(\<And>x e. runs (ef x e)) \<Longrightarrow> runs (enc_elems ef vs e)"
    by (induction vs arbitrary: e) (simp_all add: runs_intros)
  show "(\<And>x d. runs (df x d)) \<Longrightarrow> runs (dec_elems df vs d)"
    by (induction vs arbitrary: d) (auto intro!: runs_intros split: prod.split)
qed

lemma runs_entries:
  "(\<And>x e. runs (kf x e)) \<Longrightarrow> (\<And>x e. runs (vf x e)) \<Longrightarrow> runs (enc_entries kf vf kvs e)"
  "(\<And>x d. runs (kd x d)) \<Longrightarrow> (\<And>x d. runs (vd x d)) \<Longrightarrow> runs (dec_entries kd vd k0 v0 i m d)"
proof -
  show "(\<And>x e. runs (kf x e)) \<Longrightarrow> (\<And>x e. runs (vf x e)) \<Longrightarrow> runs (enc_entries kf vf kvs e)"
  proof (induction kvs arbitrary: e)
    case (Cons kv kvs)
    then show ?case by (cases kv) (simp add: runs_intros)
  qed (simp add: runs_intros)
  show "(\<And>x d. runs (kd x d)) \<Longrightarrow> (\<And>x d. runs (vd x d)) \<Longrightarrow> runs (dec_entries kd vd k0 v0 i m d)"
    by (induction i arbitrary: m d) (auto intro!: runs_intros split: prod.split)
qed

lemma runs_body_field: "runs (body_field body i)"
  by (auto simp: body_field_def runs_def of_option_def split: option.split)

lemma runs_union_swVal: "runs (union_swVal sk v)"
  by (cases sk) (auto simp: union_swVal_def intro!: runs_intros)

lemma body_field_mem: "body_field body i = Ret f \<Longrightarrow> Some f \<in> set body"
  by (auto simp: body_field_def split: if_splits) (metis nth_mem)

lemma runs_struct:
  "(\<And>f x e. f \<in> set fs \<Longrightarrow> runs (rc (f_codec f) x e)) \<Longrightarrow> runs (struct_encodeReflect rc name fs v e)"
  "(\<And>f x d. f \<in> set fs \<Longrightarrow> runs (rd (f_codec f) x d)) \<Longrightarrow> runs (structCodec_Decode rd name fs v d)"
proof -
  show "(\<And>f x e. f \<in> set fs \<Longrightarrow> runs (rc (f_codec f) x e)) \<Longrightarrow> runs (struct_encodeReflect rc name fs v e)"
    by (induction fs arbitrary: e) (auto simp: field_encode_def obind_assoc intro!: runs_intros split: prod.split)
  show "(\<And>f x d. f \<in> set fs \<Longrightarrow> runs (rd (f_codec f) x d)) \<Longrightarrow> runs (structCodec_Decode rd name fs v d)"
    by (induction fs arbitrary: v d) (auto simp: field_decode_def obind_assoc intro!: runs_intros split: prod.split)
qed

lemma runs_union:
  "(\<And>x e. runs (rc (f_codec sw) x e)) \<Longrightarrow> (\<And>f x e. Some f \<in> set body \<Longrightarrow> runs (rc (f_codec f) x e)) \<Longrightarrow>
     runs (union_encodeReflect rc name sw body cases dflt sk v e)"
  "(\<And>x d. runs (rd (f_codec sw) x d)) \<Longrightarrow> (\<And>f x d. Some f \<in> set body \<Longrightarrow> runs (rd (f_codec f) x d)) \<Longrightarrow>
     runs (unionCodec_Decode rd name sw body cases dflt sk v d)"
proof -
  assume sw: "\<And>x e. runs (rc (f_codec sw) x e)" and arm: "\<And>f x e. Some f \<in> set body \<Longrightarrow> runs (rc (f_codec f) x e)"
  have "runs (obind (body_field body i) (\<lambda>f. obind (field_encode rc f v e1) (\<lambda>(_, err2, e2).
      Ret (arm_error name (f_name f) w err2, e2))))" for i w e1
    by (rule runs_obind [OF runs_body_field])
      (auto simp: field_encode_def intro!: runs_intros arm body_field_mem split: prod.split)
  then show "runs (union_encodeReflect rc name sw body cases dflt sk v e)"
    by (auto simp: union_encodeReflect_def field_encode_def [of rc sw] Let_def obind_assoc
        intro!: runs_intros runs_union_swVal sw split: prod.split)
next
  assume sw: "\<And>x d. runs (rd (f_codec sw) x d)" and arm: "\<And>f x d. Some f \<in> set body \<Longrightarrow> runs (rd (f_codec f) x d)"
  have "runs (obind (body_field body i) (\<lambda>f. obind (field_decode rd f u d1) (\<lambda>(_, err2, v2, d2).
      Ret (arm_error name (f_name f) w err2, v2, d2))))" for i w d1 u
    by (rule runs_obind [OF runs_body_field])
      (auto simp: field_decode_def intro!: runs_intros arm body_field_mem split: prod.split)
  then show "runs (unionCodec_Decode rd name sw body cases dflt sk v d)"
    by (auto simp: unionCodec_Decode_def field_decode_def [of rd sw] Let_def obind_assoc
        intro!: runs_intros runs_union_swVal sw split: prod.split)
qed

lemma runs_MakeSlice [simp]: "runs (MakeSlice G t n)"
  by (simp add: MakeSlice_def newarray_def runs_basic)

lemma runs_run_dec: "(\<And>k d. runs (D k d)) \<Longrightarrow> runs (run_dec D p d)"
proof (induction p arbitrary: d)
  case (DCall c k)
  then show ?case by (auto intro!: runs_bind DCall.IH [OF rangeI rangeI] split: prod.split)
qed (simp add: runs_basic)

lemmas enc_method_defs = boolCodec_Encode_def intCodec_Encode_def uintCodec_Encode_def
  hyperCodec_Encode_def uhyperCodec_Encode_def floatCodec_Encode_def doubleCodec_Encode_def
  complex64Codec_Encode_def complex128Codec_Encode_def fixedStringCodec_Encode_def
  varStringCodec_Encode_def fixedString_encode_def varString_encode_def opaqueArrayCodec_Encode_def
  opaqueSliceCodec_Encode_def arrayCodec_Encode_def sliceCodec_Encode_def mapCodec_Encode_def
  ptrCodec_Encode_def optCodec_Encode_def

lemmas dec_method_defs = boolCodec_Decode_def intCodec_Decode_def uintCodec_Decode_def
  hyperCodec_Decode_def uhyperCodec_Decode_def floatCodec_Decode_def doubleCodec_Decode_def
  complex64Codec_Decode_def complex128Codec_Decode_def fixedStringCodec_Decode_def
  varStringCodec_Decode_def varString_decode_def opaqueArrayCodec_Decode_def
  opaqueSliceCodec_Decode_def arrayCodec_Decode_def sliceCodec_Decode_def mapCodec_Decode_def
  ptrCodec_Decode_def optCodec_Decode_def dec_set_def

lemma enc_runs:
  assumes "resolved_env (g_real G)"
  shows "codec_ids c \<subseteq> dom (g_real G) \<Longrightarrow> runs (enc n G E c v e)"
proof (induction n arbitrary: c v e)
  case (Suc n)
  show ?case
  proof (cases c)
    case (CDeferred k)
    with Suc.prems obtain c' where c': "g_real G k = Some c'" by auto
    then have "codec_ids c' \<subseteq> dom (g_real G)" using assms by (auto simp: resolved_env_def)
    then show ?thesis using Suc.IH c' CDeferred by (simp add: deferredCodec_Encode_def)
  next
    case (CStruct name fs)
    then show ?thesis unfolding CStruct enc_unfold using Suc CStruct by (intro runs_struct) (auto simp: UN_subset_iff)
  next
    case (CUnion name sw body cases dflt sk)
    then show ?thesis unfolding CUnion enc_unfold using Suc CUnion by (intro runs_union) (auto simp: UN_subset_iff)
  next
    case (CMarshaler t)
    then show ?thesis
      by (auto simp: marshalerCodec_Encode_def runs_intros split: gvalue.split option.split)
  qed (use Suc in \<open>auto simp: enc_method_defs Let_def runs_intros intro!: runs_intros runs_case runs_elems runs_entries
      simp del: obind.simps split: prod.split\<close>)
qed (simp add: runs_def)

lemma dec_runs:
  assumes "resolved_env (g_real G)" and D: "\<And>k d. runs (D k d)"
  shows "codec_ids c \<subseteq> dom (g_real G) \<Longrightarrow> runs (dec n G D c v d)"
proof (induction n arbitrary: c v d)
  case (Suc n)
  show ?case
  proof (cases c)
    case (CDeferred k)
    with Suc.prems obtain c' where c': "g_real G k = Some c'" by auto
    then have "codec_ids c' \<subseteq> dom (g_real G)" using assms by (auto simp: resolved_env_def)
    then show ?thesis using Suc.IH c' CDeferred by (simp add: deferredCodec_Decode_def)
  next
    case (CStruct name fs)
    then show ?thesis unfolding CStruct dec_unfold using Suc CStruct by (intro runs_struct) (auto simp: UN_subset_iff)
  next
    case (CUnion name sw body cases dflt sk)
    then show ?thesis unfolding CUnion dec_unfold using Suc CUnion by (intro runs_union) (auto simp: UN_subset_iff)
  next
    case (CMarshaler t)
    then show ?thesis using runs_run_dec [OF D]
      by (auto simp: marshalerCodec_Decode_def runs_intros intro!: runs_intros split: gvalue.split option.split prod.split)
  qed (use Suc D runs_run_dec [OF D] in \<open>auto simp: dec_method_defs Let_def runs_intros intro!: runs_intros runs_case
      runs_elems runs_entries simp del: obind.simps split: prod.split\<close>)
qed (simp add: runs_def)

end
