(* ===== verification/RequestSpace.thy ===== *)
theory RequestSpace
  imports Coder
begin

text \<open>
  The types and tags that the construction of a codec can come to: those reachable from a type
  and its tag are finitely many. The parts of construction that ask for no other codec return
  or panic.
\<close>

section \<open>The types and tags a construction can reach\<close>

text \<open>\<open>closed_types\<close>: with a type also its element, key and field types.\<close>

definition closed_types :: "tenv \<Rightarrow> gtype set \<Rightarrow> bool" where
  "closed_types G T \<longleftrightarrow> (\<forall>t\<in>T. (\<forall>e. elem_type G t = Some e \<longrightarrow> e \<in> T) \<and> (\<forall>k. key_type G t = Some k \<longrightarrow> k \<in> T)
     \<and> (\<forall>fs f. struct_fields G t = Some fs \<longrightarrow> f \<in> set fs \<longrightarrow> fld_type f \<in> T))"

function subtypes :: "gtype \<Rightarrow> gtype set" where
  "subtypes (GPtr t) = insert (GPtr t) (subtypes t)"
| "subtypes (GSlice t) = insert (GSlice t) (subtypes t)"
| "subtypes (GArray n t) = insert (GArray n t) (subtypes t)"
| "subtypes (GChan t) = insert (GChan t) (subtypes t)"
| "subtypes (GMap k t) = insert (GMap k t) (subtypes k \<union> subtypes t)"
| "subtypes (GStruct fs) = insert (GStruct fs) (\<Union>f\<in>set fs. subtypes (fld_type f))"
| "subtypes GBool = {GBool}" | "subtypes GInt = {GInt}" | "subtypes GInt8 = {GInt8}"
| "subtypes GInt16 = {GInt16}" | "subtypes GInt32 = {GInt32}" | "subtypes GInt64 = {GInt64}"
| "subtypes GUint = {GUint}" | "subtypes GUint8 = {GUint8}" | "subtypes GUint16 = {GUint16}"
| "subtypes GUint32 = {GUint32}" | "subtypes GUint64 = {GUint64}" | "subtypes GUintptr = {GUintptr}"
| "subtypes GFloat32 = {GFloat32}" | "subtypes GFloat64 = {GFloat64}"
| "subtypes GComplex64 = {GComplex64}" | "subtypes GComplex128 = {GComplex128}"
| "subtypes GString = {GString}" | "subtypes GFunc = {GFunc}" | "subtypes GUnsafePointer = {GUnsafePointer}"
| "subtypes (GInterface b) = {GInterface b}" | "subtypes (GNamed n) = {GNamed n}"
  by pat_completeness auto
termination
  by (relation "measure size") (auto simp: fld_type_size)

lemma subtypes_refl: "t \<in> subtypes t"
  by (cases t) auto

lemma subtypes_finite: "finite (subtypes t)"
  by (induction t rule: subtypes.induct) auto

lemma subtypes_trans: "u \<in> subtypes t \<Longrightarrow> subtypes u \<subseteq> subtypes t"
  by (induction t rule: subtypes.induct) auto

definition reach_types :: "tenv \<Rightarrow> gtype \<Rightarrow> gtype set" where
  "reach_types G t = subtypes t \<union> (\<Union>(n, u, b)\<in>set G. subtypes u)"

lemma reach_types_sub: "u \<in> reach_types G t \<Longrightarrow> subtypes u \<subseteq> reach_types G t"
  unfolding reach_types_def using subtypes_trans by fastforce

lemma reach_types_under: "u \<in> reach_types G t \<Longrightarrow> under G u \<in> reach_types G t"
proof (cases u)
  case (GNamed n)
  assume "u \<in> reach_types G t"
  with GNamed show ?thesis using subtypes_refl
    by (auto simp: under_def reach_types_def split: option.split dest!: map_of_SomeD)
qed (simp_all add: under_def)

lemma reach_types_closed: "closed_types G (reach_types G t)"
  unfolding closed_types_def
proof (intro ballI conjI allI impI)
  fix u assume "u \<in> reach_types G t"
  then have sub: "subtypes (under G u) \<subseteq> reach_types G t"
    by (intro reach_types_sub reach_types_under)
  show "e \<in> reach_types G t" if "elem_type G u = Some e" for e
    using that sub subtypes_refl by (cases "under G u") (auto simp: elem_type_def)
  show "k \<in> reach_types G t" if "key_type G u = Some k" for k
    using that sub subtypes_refl by (cases "under G u") (auto simp: key_type_def)
  show "fld_type f \<in> reach_types G t" if "struct_fields G u = Some fs" "f \<in> set fs" for fs f
    using that sub subtypes_refl by (cases "under G u") (auto simp: struct_fields_def)
qed

lemma reach_types_finite: "finite (reach_types G t)"
  by (auto simp: reach_types_def subtypes_finite)

text \<open>A bound on the length of the tags of all struct fields among the types.\<close>

definition field_tags :: "platform \<Rightarrow> gtype set \<Rightarrow> xdrtag set" where
  "field_tags P T = {tag. \<exists>t\<in>T. \<exists>fs f u u'. struct_fields (p_types P) t = Some fs \<and> f \<in> set fs
     \<and> ParseStructTag (p_types P) (fld_type f) (fld_tag f) u = Ret (Inr tag, u')}"

lemma field_tags_finite:
  assumes "finite T"
  shows "finite (field_tags P T)"
proof -
  let ?tags = "\<lambda>f u. case ParseStructTag (p_types P) (fld_type f) (fld_tag f) u of Ret (Inr tag, _) \<Rightarrow> {tag} | _ \<Rightarrow> {}"
  let ?fs = "\<lambda>t. case struct_fields (p_types P) t of Some fs \<Rightarrow> set fs | None \<Rightarrow> {}"
  have "field_tags P T \<subseteq> (\<Union>t\<in>T. \<Union>f\<in>?fs t. \<Union>u\<in>{MaybeInUnion, NotInUnion, InUnion}. ?tags f u)"
  proof
    fix tag assume "tag \<in> field_tags P T"
    then obtain t fs f u u' where "t \<in> T" "struct_fields (p_types P) t = Some fs" "f \<in> set fs"
      "ParseStructTag (p_types P) (fld_type f) (fld_tag f) u = Ret (Inr tag, u')"
      by (auto simp: field_tags_def)
    moreover have "u \<in> {MaybeInUnion, NotInUnion, InUnion}" by (cases u) auto
    ultimately show "tag \<in> (\<Union>t\<in>T. \<Union>f\<in>?fs t. \<Union>u\<in>{MaybeInUnion, NotInUnion, InUnion}. ?tags f u)"
      by (intro UN_I [of t] UN_I [of f] UN_I [of u]) simp_all
  qed
  moreover have "finite (?tags f u)" for f u
    by (auto split: outcome.split sum.split prod.split)
  ultimately show ?thesis
    using assms by (elim finite_subset) (auto split: option.split)
qed

definition tag_bound :: "platform \<Rightarrow> gtype set \<Rightarrow> xdrtag \<Rightarrow> nat" where
  "tag_bound P T tag = Max (insert (length tag) (length ` field_tags P T))"

lemma tag_bound:
  assumes "finite T"
  shows "length tag \<le> tag_bound P T tag" and "x \<in> field_tags P T \<Longrightarrow> length x \<le> tag_bound P T tag"
  using field_tags_finite [OF assms, of P] by (auto simp: tag_bound_def)

text \<open>Tags never grow on the way down.\<close>

lemma tag_Next_length: "tag_Next t = Some t' \<Longrightarrow> length t' \<le> length t"
  by (cases "t = []") (auto dest: tag_Next_shorter)

lemma tag_Trimmed_length: "tag_Trimmed t = Some t' \<Longrightarrow> length t' \<le> length t"
  by (auto simp: tag_Trimmed_def split: option.splits if_splits)

lemma tag_Prepend_Noop: "tag_Prepend t Noop [] = Some t' \<Longrightarrow> length t' = Suc (length t)"
  by (auto simp: tag_Prepend_def tag_Append_def Noop_def)

lemma tag_Kind_Nil: "tag_Kind t \<noteq> Noop \<Longrightarrow> t \<noteq> []"
  by auto

section \<open>Nothing but the recursion uses up the bound\<close>

lemma obind_not_Spent: "m \<noteq> Spent \<Longrightarrow> (\<And>x. m = Ret x \<Longrightarrow> f x \<noteq> Spent) \<Longrightarrow> obind m f \<noteq> Spent"
  by (cases m) auto

text \<open>A call that is \<open>prompt\<close> returns or panics.\<close>

definition prompt :: "'a outcome \<Rightarrow> bool" where
  "prompt m \<longleftrightarrow> m \<noteq> Spent \<and> m \<noteq> Blocked"

lemma prompt_Ret: "prompt (Ret x)" and prompt_Panic: "prompt (Panic p)"
  and prompt_of_option: "prompt (of_option msg y)"
  by (simp_all add: prompt_def of_option_def split: option.split)

lemma prompt_bind: "prompt m \<Longrightarrow> (\<And>x. m = Ret x \<Longrightarrow> prompt (f x)) \<Longrightarrow> prompt (obind m f)"
  by (cases m) (auto simp: prompt_def)

lemma prompt_if: "(b \<Longrightarrow> prompt m) \<Longrightarrow> (\<not> b \<Longrightarrow> prompt m') \<Longrightarrow> prompt (if b then m else m')"
  by simp

lemma prompt_case_sum:
  "(\<And>a. r = Inl a \<Longrightarrow> prompt (f a)) \<Longrightarrow> (\<And>b. r = Inr b \<Longrightarrow> prompt (g b)) \<Longrightarrow>
     prompt (case r of Inl a \<Rightarrow> f a | Inr b \<Rightarrow> g b)"
  by (cases r) simp_all

lemma prompt_case_prod: "(\<And>a b. r = (a, b) \<Longrightarrow> prompt (f a b)) \<Longrightarrow> prompt (case r of (a, b) \<Rightarrow> f a b)"
  by (cases r) simp

lemmas prompt_intros = prompt_Ret prompt_Panic prompt_of_option prompt_bind prompt_if
  prompt_case_sum prompt_case_prod

lemma parse_prompt: "prompt (parse_union G t parts u)" "prompt (parse_level G t xt p)"
  unfolding parse_union_def parse_level_def Let_def by (intro prompt_intros)+

lemma parse_levels_prompt: "prompt (parse_levels G t xt ps)"
proof (induction ps arbitrary: t xt)
  case (Cons p ps)
  then show ?case unfolding parse_levels.simps by (intro prompt_intros parse_prompt)
qed (simp add: prompt_Ret)

lemma ParseStructTag_prompt: "prompt (ParseStructTag G t s u)"
  unfolding ParseStructTag_def ParseTag_def Let_def
  by (intro prompt_intros parse_prompt parse_levels_prompt)

lemma first_field_prompt: "prompt (first_field P t fs)"
proof (induction fs)
  case (Cons g fs)
  obtain i f where g: "g = (i, f)" by (cases g)
  show ?case unfolding g first_field.simps
    by (intro prompt_intros ParseStructTag_prompt Cons)
qed (simp add: prompt_Ret)

lemma make_pure_prompt:
  "prompt (next_tag tag)" "prompt (only_value tag)" "prompt (reflect_elem P t)"
  "prompt (reflect_key P t)" "prompt (reflect_len P t)"
  by (simp_all add: next_tag_def only_value_def reflect_elem_def reflect_key_def reflect_len_def
      prompt_of_option)

lemma make_tags_prompt:
  "prompt (container_max tag)" "prompt (makeStringCodec P t tag)" "prompt (union_switch_kind P t)"
  unfolding container_max_def makeStringCodec_def union_switch_kind_def
  by (intro prompt_intros make_pure_prompt)+

text \<open>
  Types and tags that are closed under what a builder asks for: \<open>T\<close> contains the inner
  types, and no field tag is longer than \<open>L\<close>.
\<close>

locale request_space =
  fixes P :: platform and T :: "gtype set" and L :: nat
  assumes closed: "closed_types (p_types P) T"
    and short_tags: "tag \<in> field_tags P T \<Longrightarrow> length tag \<le> L"
begin

lemma elem_in: "t \<in> T \<Longrightarrow> reflect_elem P t = Ret e \<Longrightarrow> e \<in> T"
  using closed unfolding closed_types_def reflect_elem_def of_option_Ret_iff by blast

lemma key_in: "t \<in> T \<Longrightarrow> reflect_key P t = Ret e \<Longrightarrow> e \<in> T"
  using closed unfolding closed_types_def reflect_key_def of_option_Ret_iff by blast

lemma next_short: "length tag \<le> L \<Longrightarrow> next_tag tag = Ret tag' \<Longrightarrow> length tag' \<le> L"
  using tag_Next_length by (fastforce simp: next_tag_def)

text \<open>Struct fields whose types are among the types.\<close>

definition fields_in :: "(nat \<times> gfield) list \<Rightarrow> bool" where
  "fields_in fs \<longleftrightarrow> (\<forall>(i, f)\<in>set fs. fld_type f \<in> T \<and>
     (\<forall>u tag u'. ParseStructTag (p_types P) (fld_type f) (fld_tag f) u = Ret (Inr tag, u') \<longrightarrow> length tag \<le> L))"

lemma first_field_in:
  assumes "fields_in fs" and "first_field P t fs = Ret (Inr (u, Some (i, f, tag), rest))"
  shows "fld_type f \<in> T \<and> length tag \<le> L \<and> fields_in rest"
  using assms
proof (induction fs)
  case (Cons g fs)
  obtain j h where g: "g = (j, h)" by (cases g)
  obtain r u' where r: "ParseStructTag (p_types P) (fld_type h) (fld_tag h) MaybeInUnion = Ret (r, u')"
    using Cons.prems(2) g by (cases "ParseStructTag (p_types P) (fld_type h) (fld_tag h) MaybeInUnion") auto
  show ?case
  proof (cases r)
    case (Inl e)
    then show ?thesis using Cons.prems(2) g r by simp
  next
    case (Inr tg)
    then show ?thesis using Cons g r by (auto simp: fields_in_def split: if_splits)
  qed
qed simp

lemma enumerate_mem: "(i, f) \<in> set (enumerate 0 fs) \<Longrightarrow> f \<in> set fs"
  by (auto simp: in_set_enumerate_eq)

lemma struct_fields_in:
  assumes "t \<in> T" and fs: "struct_fields (p_types P) t = Some fs"
  shows "fields_in (enumerate 0 fs)"
proof -
  have "fld_type f \<in> T" if "f \<in> set fs" for f
    using fs that assms closed unfolding closed_types_def by blast
  moreover have "length tag \<le> L" if "f \<in> set fs"
    "ParseStructTag (p_types P) (fld_type f) (fld_tag f) u = Ret (Inr tag, u')" for f u tag u'
    using fs that assms by (intro short_tags) (simp add: field_tags_def, blast)
  ultimately show ?thesis
    unfolding fields_in_def by (auto dest!: enumerate_mem)
qed

lemma opt_tag_short:
  assumes "length tag \<le> L" "tag_Kind tag = Opt" "next_tag tag = Ret t1"
    "of_option tag_panic (tag_Prepend t1 Noop []) = Ret t2" "of_option tag_panic (tag_Trimmed t2) = Ret t3"
  shows "length t3 \<le> L"
proof -
  have "tag \<noteq> []" using assms(2) by (auto simp: kind_defs)
  with assms(3) have "length t1 < length tag" by (simp add: next_tag_def tag_Next_shorter)
  with assms show ?thesis
    using tag_Prepend_Noop [of t1 t2] tag_Trimmed_length [of t2 t3] by simp
qed

end

end
