(* ===== verification/Requests.thy ===== *)
theory Requests
  imports Waiting RequestSpace
begin

text \<open>
  Codec construction cut at its calls of \<open>getCodec\<close>: a \<open>request\<close> is the next inner codec that
  a builder asks for, together with what it does with the answer. Several goroutines that
  construct codecs at the same time interleave at these points. The builders of \<open>Coder\<close> are
  given once more in this form; run by one goroutine they are the builders of \<open>Coder\<close>.
\<close>

section \<open>Requests\<close>

datatype 'a request = Now "'a outcome" | Ask gtype xdrtag "codec \<Rightarrow> 'a request"

primrec rbind :: "'a request \<Rightarrow> ('a \<Rightarrow> 'b request) \<Rightarrow> 'b request" where
  "rbind (Now m) f = (case m of Ret x \<Rightarrow> f x | Panic p \<Rightarrow> Now (Panic p) | Blocked \<Rightarrow> Now Blocked | Spent \<Rightarrow> Now Spent)"
| "rbind (Ask t tag k) f = Ask t tag (\<lambda>c. rbind (k c) f)"

definition answer :: "'a \<Rightarrow> 'a request" where
  "answer x = Now (Ret x)"

definition ask :: "gtype \<Rightarrow> xdrtag \<Rightarrow> codec request" where
  "ask t tag = Ask t tag answer"

text \<open>The request answered by one goroutine, which uses the coder alone.\<close>

primrec run :: "get_codec \<Rightarrow> 'a request \<Rightarrow> 'a build" where
  "run gc (Now m) cr = obind m (\<lambda>x. Ret (x, cr))"
| "run gc (Ask t tag k) cr = obind (gc t tag cr) (\<lambda>(c, cr'). run gc (k c) cr')"

section \<open>The builders as requests\<close>

definition ask_opt :: "platform \<Rightarrow> gtype \<Rightarrow> xdrtag \<Rightarrow> codec request" where
  "ask_opt P t tag =
     rbind (Now (next_tag tag)) (\<lambda>t1.
     rbind (Now (of_option tag_panic (tag_Prepend t1 Noop []))) (\<lambda>t2.
     rbind (Now (of_option tag_panic (tag_Trimmed t2))) (\<lambda>tag'.
     rbind (ask t tag') (\<lambda>c. answer (COpt c (zero_value (p_types P) t))))))"

definition ask_ptr :: "platform \<Rightarrow> gtype \<Rightarrow> xdrtag \<Rightarrow> codec request" where
  "ask_ptr P t tag =
     rbind (Now (reflect_elem P t)) (\<lambda>elemt. rbind (Now (next_tag tag)) (\<lambda>tag'.
     rbind (ask elemt tag') (\<lambda>c. answer (CPtr c elemt))))"

definition ask_array :: "platform \<Rightarrow> gtype \<Rightarrow> xdrtag \<Rightarrow> codec request" where
  "ask_array P t tag =
     (if tag_Kind tag \<noteq> Noop then answer (CError (InvalidTagForTypeError t tag))
      else rbind (Now (next_tag tag)) (\<lambda>tag'.
        if tag_Kind tag' = Opaque then rbind (Now (reflect_len P t)) (\<lambda>l. answer (COpaqueArray t l))
        else rbind (Now (reflect_elem P t)) (\<lambda>elemt. rbind (ask elemt tag') (\<lambda>c.
          rbind (Now (reflect_len P t)) (\<lambda>l. answer (CArray c l (p_size P elemt)))))))"

definition ask_slice :: "platform \<Rightarrow> gtype \<Rightarrow> xdrtag \<Rightarrow> codec request" where
  "ask_slice P t tag = rbind (Now (container_max tag)) (\<lambda>mx. case mx of
      None \<Rightarrow> answer (CError (InvalidTagForTypeError t tag))
    | Some origMax \<Rightarrow> let maxlen = unat (cap_max P origMax) in
        rbind (Now (next_tag tag)) (\<lambda>tag'.
          if tag_Kind tag' = Opaque then answer (COpaqueSlice t maxlen origMax)
          else rbind (Now (reflect_elem P t)) (\<lambda>elemt. rbind (ask elemt tag') (\<lambda>c.
            answer (CSlice c elemt maxlen (p_size P elemt) origMax)))))"

definition ask_map :: "platform \<Rightarrow> gtype \<Rightarrow> xdrtag \<Rightarrow> codec request" where
  "ask_map P t tag = rbind (Now (container_max tag)) (\<lambda>mx. case mx of
      None \<Rightarrow> answer (CError (InvalidTagForTypeError t tag))
    | Some origMax \<Rightarrow> let maxlen = unat (cap_max P origMax) in
        rbind (Now (reflect_key P t)) (\<lambda>kt. rbind (ask kt []) (\<lambda>kc.
        rbind (Now (reflect_elem P t)) (\<lambda>vt. rbind (Now (next_tag tag)) (\<lambda>tag'.
        rbind (ask vt tag') (\<lambda>vc. answer (CMap kc vc kt vt maxlen origMax)))))))"

definition ask_field :: "platform \<Rightarrow> gtype \<Rightarrow> nat \<Rightarrow> gfield \<Rightarrow> xdrtag \<Rightarrow> codec field request" where
  "ask_field P t i f tag = rbind (ask (fld_type f) tag) (\<lambda>c. answer (Field i (p_offset P t i) c (fld_name f)))"

fun ask_struct_fields ::
  "platform \<Rightarrow> gtype \<Rightarrow> (nat \<times> gfield) list \<Rightarrow> is_in_union \<Rightarrow> codec field list
    \<Rightarrow> (codec + codec field list) request" where
  "ask_struct_fields P t [] isUnion acc = answer (Inr acc)"
| "ask_struct_fields P t ((i, f) # fs) isUnion acc =
     rbind (Now (ParseStructTag (p_types P) (fld_type f) (fld_tag f) isUnion)) (\<lambda>(r, isUnion'). case r of
        Inl err \<Rightarrow> answer (Inl (tag_failure t f err))
      | Inr tag \<Rightarrow>
          if tag_Kind tag = Skip then ask_struct_fields P t fs isUnion' acc
          else rbind (ask_field P t i f tag) (\<lambda>fd. ask_struct_fields P t fs isUnion' (acc @ [fd])))"

fun ask_union_fields ::
  "platform \<Rightarrow> gtype \<Rightarrow> (nat \<times> gfield) list \<Rightarrow> is_in_union
    \<Rightarrow> codec field option list \<Rightarrow> (u32 \<times> nat) list \<Rightarrow> int
    \<Rightarrow> (codec + codec field option list \<times> (u32 \<times> nat) list \<times> int) request" where
  "ask_union_fields P t [] isUnion body cases dflt = answer (Inr (body, cases, dflt))"
| "ask_union_fields P t ((i, f) # fs) isUnion body cases dflt =
     rbind (Now (ParseStructTag (p_types P) (fld_type f) (fld_tag f) isUnion)) (\<lambda>(r, isUnion'). case r of
        Inl err \<Rightarrow> answer (Inl (tag_failure t f err))
      | Inr tag \<Rightarrow>
          if tag_Kind tag = Skip then ask_union_fields P t fs isUnion' body cases dflt
          else rbind (Now (next_tag tag)) (\<lambda>tag'. rbind (ask_field P t i f tag') (\<lambda>fd.
            let body' = body[i := Some fd] in
            if tag_Kind tag = UnionCases then
              rbind (Now (of_option tag_panic (range_values tag))) (\<lambda>vs. case add_cases i vs cases of
                  Inl v \<Rightarrow> answer (Inl (CError (UnionValueDuplicated v t)))
                | Inr cases' \<Rightarrow> ask_union_fields P t fs isUnion' body' cases' dflt)
            else if tag_Kind tag = UnionDefault then
              (if dflt \<noteq> -1 then answer (Inl (CError (DefaultCaseDuplicated t)))
               else ask_union_fields P t fs isUnion' body' cases (int i))
            else ask_union_fields P t fs isUnion' body' cases dflt)))"

definition ask_union ::
  "platform \<Rightarrow> gtype \<Rightarrow> nat \<Rightarrow> nat \<Rightarrow> gfield \<Rightarrow> xdrtag \<Rightarrow> (nat \<times> gfield) list \<Rightarrow> codec request" where
  "ask_union P t fieldCount i f tag fs =
     (if tag_Kind tag \<noteq> UnionSwitch then Now (Panic ''First element of union not switch'')
      else rbind (Now (union_switch_kind P (fld_type f))) (\<lambda>switchKind.
        rbind (Now (next_tag tag)) (\<lambda>tag'. rbind (ask_field P t i f tag') (\<lambda>sw.
        rbind (ask_union_fields P t fs InUnion (replicate fieldCount None) [] (-1)) (\<lambda>r.
          answer (case r of Inl c \<Rightarrow> c
            | Inr (body, cases, dflt) \<Rightarrow> CUnion (type_name t) sw body cases dflt switchKind))))))"

definition ask_struct ::
  "platform \<Rightarrow> gtype \<Rightarrow> nat \<Rightarrow> gfield \<Rightarrow> xdrtag \<Rightarrow> (nat \<times> gfield) list \<Rightarrow> codec request" where
  "ask_struct P t i f tag fs = rbind (ask_field P t i f tag) (\<lambda>fd.
     rbind (ask_struct_fields P t fs NotInUnion [fd]) (\<lambda>r.
       answer (case r of Inl c \<Rightarrow> c | Inr fds \<Rightarrow> CStruct (type_name t) fds)))"

definition ask_fields :: "platform \<Rightarrow> gtype \<Rightarrow> codec request" where
  "ask_fields P t =
     rbind (Now (of_option ''reflect: NumField of non-struct type'' (struct_fields (p_types P) t))) (\<lambda>fs.
     rbind (Now (first_field P t (enumerate 0 fs))) (\<lambda>r. case r of
        Inl c \<Rightarrow> answer c
      | Inr (InUnion, Some (i, f, tag), rest) \<Rightarrow> ask_union P t (length fs) i f tag rest
      | Inr (NotInUnion, Some (i, f, tag), rest) \<Rightarrow> ask_struct P t i f tag rest
      | Inr _ \<Rightarrow> answer (CStruct (type_name t) [])))"

definition ask_plain :: "platform \<Rightarrow> gtype \<Rightarrow> codec request" where
  "ask_plain P t = (case kind (p_types P) t of
      KBool \<Rightarrow> answer CBool | KInt8 \<Rightarrow> answer CInt8 | KInt16 \<Rightarrow> answer CInt16
    | KInt32 \<Rightarrow> answer CInt32 | KUint8 \<Rightarrow> answer CUint8 | KUint16 \<Rightarrow> answer CUint16
    | KUint32 \<Rightarrow> answer CUint32 | KInt64 \<Rightarrow> answer CHyper | KUint64 \<Rightarrow> answer CUhyper
    | KFloat32 \<Rightarrow> answer CFloat | KFloat64 \<Rightarrow> answer CDouble
    | KComplex64 \<Rightarrow> answer CComplex64 | KComplex128 \<Rightarrow> answer CComplex128
    | KStruct \<Rightarrow> ask_fields P t
    | _ \<Rightarrow> answer (CError (InvalidTypeError t)))"

definition ask_codec :: "platform \<Rightarrow> gtype \<Rightarrow> xdrtag \<Rightarrow> codec request" where
  "ask_codec P t tag =
     (if tag_Kind tag = Opt then ask_opt P t tag
      else case kind (p_types P) t of
        KPtr \<Rightarrow> ask_ptr P t tag
      | KString \<Rightarrow> Now (makeStringCodec P t tag)
      | KArray \<Rightarrow> ask_array P t tag
      | KSlice \<Rightarrow> ask_slice P t tag
      | KMap \<Rightarrow> ask_map P t tag
      | _ \<Rightarrow> if \<not> tag_Empty tag then answer (CError (InvalidTagForTypeError t tag))
          else if implements_marshaler (p_types P) t then answer (CMarshaler t)
          else ask_plain P t)"

section \<open>Run by one goroutine\<close>

named_theorems run_simps "requests answered by one goroutine"

lemma run_answer [run_simps]: "run gc (answer x) cr = Ret (x, cr)"
  by (simp add: answer_def)

lemma run_ask [run_simps]: "run gc (ask t tag) cr = gc t tag cr"
  by (cases "gc t tag cr") (simp_all add: ask_def answer_def split: prod.split)

lemma run_rbind: "run gc (rbind m f) cr = obind (run gc m cr) (\<lambda>(x, cr'). run gc (f x) cr')"
proof (induction m arbitrary: cr)
  case (Now m)
  then show ?case by (cases m) simp_all
next
  case (Ask t tag k)
  then show ?case by (cases "gc t tag cr") (auto split: prod.split)
qed

declare rbind.simps(1) [simp del]

lemmas run_rules = run_simps run_rbind obind_assoc

lemma run_containers:
  "run gc (ask_opt P t tag) cr = makeOptCodec P gc t tag cr"
  "run gc (ask_ptr P t tag) cr = makePtrCodec P gc t tag cr"
  "run gc (ask_array P t tag) cr = makeArrayCodec P gc t tag cr"
  "run gc (ask_slice P t tag) cr = makeSliceCodec P gc t tag cr"
  "run gc (ask_map P t tag) cr = makeMapCodec P gc t tag cr"
  by (auto simp: ask_opt_def makeOptCodec_def ask_ptr_def makePtrCodec_def ask_array_def makeArrayCodec_def
      ask_slice_def makeSliceCodec_def ask_map_def makeMapCodec_def run_rules Let_def
      intro!: obind_cong split: option.split)

lemma run_field: "run gc (ask_field P t i f tag) cr = makeField P gc t i f tag cr"
  by (simp add: ask_field_def makeField_def run_rules)

lemma run_struct_fields: "run gc (ask_struct_fields P t fs u acc) cr = struct_fields_loop P gc t fs u acc cr"
proof (induction P t fs u acc arbitrary: cr rule: ask_struct_fields.induct)
  case (2 P t i f fs u acc)
  then show ?case
    by (auto simp: run_rules run_field intro!: obind_cong split: sum.split prod.split)
qed (simp add: run_rules)

lemma run_union_fields:
  "run gc (ask_union_fields P t fs u body cases dflt) cr = union_fields_loop P gc t fs u body cases dflt cr"
proof (induction P t fs u body cases dflt arbitrary: cr rule: ask_union_fields.induct)
  case (2 P t i f fs u body cases dflt)
  then show ?case
    by (auto simp: run_rules run_field Let_def intro!: obind_cong split: sum.split prod.split)
qed (simp add: run_rules)

lemma run_fields: "run gc (ask_fields P t) cr = makeStructCodec P gc t cr"
  by (auto simp: ask_fields_def makeStructCodec_def ask_union_def make_union_def ask_struct_def make_struct_def
      run_rules run_field run_struct_fields run_union_fields intro!: obind_cong
      split: sum.split prod.split option.split is_in_union.split)

lemma run_codec: "run gc (ask_codec P t tag) cr = buildCodec P gc t tag cr"
proof -
  have "run gc (ask_plain P t) cr = plain_codec P gc t cr"
    by (simp add: ask_plain_def plain_codec_def run_simps run_fields split: gkind.split)
  then show ?thesis
    by (simp add: ask_codec_def buildCodec_def run_containers run_simps split: gkind.split)
qed

section \<open>The first field of a struct\<close>

lemma first_field_rest:
  "first_field P t fs = Ret (Inr (u, x, rest)) \<Longrightarrow> set rest \<subseteq> set fs"
proof (induction fs)
  case (Cons g fs)
  obtain i f where "g = (i, f)" by (cases g)
  with Cons show ?case
    by (cases "ParseStructTag (p_types P) (fld_type f) (fld_tag f) MaybeInUnion")
      (auto split: sum.splits if_splits)
qed simp

lemma first_field_error: "first_field P t fs = Ret (Inl c) \<Longrightarrow> \<exists>e. c = CError e"
proof (induction fs)
  case (Cons g fs)
  obtain i f where "g = (i, f)" by (cases g)
  with Cons show ?case
    by (cases "ParseStructTag (p_types P) (fld_type f) (fld_tag f) MaybeInUnion")
      (auto simp: tag_failure_def split: sum.splits if_splits)
qed simp

section \<open>What a request answers with and asks for\<close>

text \<open>
  \<open>gives ids r D\<close>: whatever the answers are, \<open>r\<close> ends with a result or a panic, and the
  deferred codecs in the result are in \<open>D\<close> or in an answer.
\<close>

primrec gives :: "('a \<Rightarrow> nat set) \<Rightarrow> 'a request \<Rightarrow> nat set \<Rightarrow> bool" where
  "gives ids (Now m) D \<longleftrightarrow> prompt m \<and> (\<forall>x. m = Ret x \<longrightarrow> ids x \<subseteq> D)"
| "gives ids (Ask t tag k) D \<longleftrightarrow> (\<forall>c. gives ids (k c) (D \<union> codec_ids c))"

lemma gives_mono: "gives ids r D \<Longrightarrow> D \<subseteq> D' \<Longrightarrow> gives ids r D'"
proof (induction r arbitrary: D D')
  case (Ask t tag k)
  have "gives ids (k c) (D' \<union> codec_ids c)" for c
  proof (rule Ask.IH)
    show "gives ids (k c) (D \<union> codec_ids c)" using Ask.prems(1) by simp
  qed (use Ask.prems(2) in auto)
  then show ?case by simp
qed auto

lemma gives_bind:
  "gives ids r D \<Longrightarrow> (\<And>x D'. D \<subseteq> D' \<Longrightarrow> ids x \<subseteq> D' \<Longrightarrow> gives ids' (f x) D') \<Longrightarrow> gives ids' (rbind r f) D"
proof (induction r arbitrary: D)
  case (Ask t tag k)
  have "gives ids' (rbind (k c) f) (D \<union> codec_ids c)" for c
    by (rule Ask.IH) (use Ask.prems in auto)
  then show ?case by simp
qed (auto simp: rbind.simps(1) prompt_def split: outcome.splits)

lemma gives_now: "prompt m \<Longrightarrow> (\<And>x. m = Ret x \<Longrightarrow> gives ids (f x) D) \<Longrightarrow> gives ids (rbind (Now m) f) D"
  by (auto simp: rbind.simps(1) prompt_def split: outcome.split)

lemma gives_answer: "ids x \<subseteq> D \<Longrightarrow> gives ids (answer x) D"
  by (simp add: answer_def prompt_Ret)

lemma gives_ask: "(\<And>c D'. D \<subseteq> D' \<Longrightarrow> codec_ids c \<subseteq> D' \<Longrightarrow> gives ids (f c) D') \<Longrightarrow> gives ids (rbind (ask t tag) f) D"
  by (rule gives_bind [of codec_ids]) (auto simp: ask_def answer_def prompt_Ret)

lemmas prompt_facts = make_pure_prompt make_tags_prompt prompt_of_option ParseStructTag_prompt
  first_field_prompt

lemma gives_containers:
  "gives codec_ids (ask_opt P t tag) D" "gives codec_ids (ask_ptr P t tag) D"
  "gives codec_ids (ask_array P t tag) D" "gives codec_ids (ask_slice P t tag) D"
  "gives codec_ids (ask_map P t tag) D"
  by (auto simp: ask_opt_def ask_ptr_def ask_array_def ask_slice_def ask_map_def Let_def
      intro!: gives_now gives_ask gives_answer prompt_facts split: option.split) (blast+)

abbreviation field_ids :: "codec field \<Rightarrow> nat set" where
  "field_ids f \<equiv> codec_ids (f_codec f)"

lemma gives_field:
  "(\<And>fd D'. D \<subseteq> D' \<Longrightarrow> field_ids fd \<subseteq> D' \<Longrightarrow> gives ids (k fd) D') \<Longrightarrow> gives ids (rbind (ask_field P t i f tag) k) D"
  by (rule gives_bind [of field_ids]) (auto simp: ask_field_def intro!: gives_ask gives_answer)

text \<open>The deferred codecs in the results of the two loops over fields.\<close>

definition struct_ids :: "codec + codec field list \<Rightarrow> nat set" where
  "struct_ids r = (case r of Inl c \<Rightarrow> codec_ids c | Inr fs \<Rightarrow> \<Union>f\<in>set fs. field_ids f)"

definition body_ids :: "codec field option list \<Rightarrow> nat set" where
  "body_ids body = (\<Union>f\<in>{f. Some f \<in> set body}. field_ids f)"

definition union_ids :: "codec + codec field option list \<times> (u32 \<times> nat) list \<times> int \<Rightarrow> nat set" where
  "union_ids r = (case r of Inl c \<Rightarrow> codec_ids c | Inr (body, _, _) \<Rightarrow> body_ids body)"

lemma body_ids_upd: "body_ids (body[i := Some fd]) \<subseteq> field_ids fd \<union> body_ids body"
  by (auto simp: body_ids_def dest!: set_update_subset_insert [THEN subsetD])

lemma gives_case_sum:
  "(\<And>a. r = Inl a \<Longrightarrow> gives ids (f a) D) \<Longrightarrow> (\<And>b. r = Inr b \<Longrightarrow> gives ids (g b) D) \<Longrightarrow>
     gives ids (case r of Inl a \<Rightarrow> f a | Inr b \<Rightarrow> g b) D"
  by (cases r) simp_all

lemma gives_if: "(b \<Longrightarrow> gives ids r D) \<Longrightarrow> (\<not> b \<Longrightarrow> gives ids r' D) \<Longrightarrow> gives ids (if b then r else r') D"
  by simp

lemma gives_struct_fields:
  "(\<Union>f\<in>set acc. field_ids f) \<subseteq> D \<Longrightarrow> gives struct_ids (ask_struct_fields P t fs u acc) D"
proof (induction fs arbitrary: D u acc)
  case (Cons g fs)
  obtain i f where g: "g = (i, f)" by (cases g)
  show ?case
    unfolding g ask_struct_fields.simps
  proof (rule gives_now [OF ParseStructTag_prompt], clarify, intro gives_case_sum gives_if gives_field)
    fix u' tag fd D' assume D': "D \<subseteq> D'" "field_ids fd \<subseteq> D'"
    have "(\<Union>f\<in>set (acc @ [fd]). field_ids f) \<subseteq> D'" using Cons.prems D' by auto
    then show "gives struct_ids (ask_struct_fields P t fs u' (acc @ [fd])) D'" by (rule Cons.IH)
  qed (auto simp: tag_failure_def struct_ids_def intro!: gives_answer Cons)
qed (simp add: gives_answer struct_ids_def)

lemma gives_union_fields:
  "body_ids body \<subseteq> D \<Longrightarrow> gives union_ids (ask_union_fields P t fs u body cases dflt) D"
proof (induction fs arbitrary: D u body cases dflt)
  case (Cons g fs)
  obtain i f where g: "g = (i, f)" by (cases g)
  have arm: "gives union_ids (ask_union_fields P t fs u' (body[i := Some fd]) cases' dflt') D'"
    if "D \<subseteq> D'" "field_ids fd \<subseteq> D'" for u' fd D' cases' dflt'
    by (rule Cons.IH) (use Cons.prems that body_ids_upd [of body i fd] in blast)
  show ?case
    unfolding g ask_union_fields.simps Let_def
    by (rule gives_now [OF ParseStructTag_prompt], clarify,
        intro gives_case_sum gives_if gives_now gives_field arm prompt_facts)
      (auto simp: tag_failure_def union_ids_def intro!: gives_answer Cons)
qed (simp add: gives_answer union_ids_def)

lemma gives_struct: "gives codec_ids (ask_struct P t i f tag fs) D"
  unfolding ask_struct_def
  by (intro gives_field gives_bind [OF gives_struct_fields] gives_answer)
    (auto simp: struct_ids_def split: sum.splits)

lemma gives_union: "gives codec_ids (ask_union P t n i f tag fs) D"
  unfolding ask_union_def
  by (intro gives_if gives_now prompt_facts gives_field gives_bind [OF gives_union_fields] gives_answer)
    (auto simp: prompt_Panic union_ids_def body_ids_def split: sum.splits)

lemma gives_fields: "gives codec_ids (ask_fields P t) D"
  unfolding ask_fields_def
proof (intro gives_now gives_case_sum prompt_facts)
  fix fs r c assume "first_field P t (enumerate 0 fs) = Ret r" "r = Inl c"
  then show "gives codec_ids (answer c) D"
    using first_field_error [of P t "enumerate 0 fs" c] by (auto intro!: gives_answer)
qed (auto intro: gives_struct gives_union gives_answer split: prod.split option.split is_in_union.split)

lemma string_ids: "makeStringCodec P t tag = Ret c \<Longrightarrow> codec_ids c = {}"
  by (auto simp: makeStringCodec_def split: if_splits)

lemma gives_codec: "gives codec_ids (ask_codec P t tag) D"
proof -
  have "gives codec_ids (ask_plain P t) D"
    by (auto simp: ask_plain_def intro: gives_answer gives_fields split: gkind.split)
  moreover have "gives codec_ids (Now (makeStringCodec P t tag)) D"
    using string_ids [of P t tag] by (auto intro: prompt_facts)
  ultimately show ?thesis
    by (auto simp: ask_codec_def intro: gives_containers gives_answer split: gkind.split)
qed

text \<open>\<open>within Q r n\<close>: a request that asks at most \<open>n\<close> times, and for keys with \<open>Q\<close> only.\<close>

primrec within :: "(xtype \<Rightarrow> bool) \<Rightarrow> 'a request \<Rightarrow> nat \<Rightarrow> bool" where
  "within Q (Now m) n \<longleftrightarrow> True"
| "within Q (Ask t tag k) n \<longleftrightarrow> 0 < n \<and> Q (t, tag) \<and> (\<forall>c. within Q (k c) (n - 1))"

lemma within_mono: "within Q r n \<Longrightarrow> n \<le> m \<Longrightarrow> within Q r m"
proof (induction r arbitrary: n m)
  case (Ask t tag k)
  have "within Q (k c) (m - 1)" for c
    by (rule Ask.IH [of _ "n - 1"]) (use Ask.prems in auto)
  then show ?case using Ask.prems by simp
qed simp

lemma within_bind: "within Q r n \<Longrightarrow> (\<And>x. within Q (f x) m) \<Longrightarrow> within Q (rbind r f) (n + m)"
proof (induction r arbitrary: n)
  case (Now x)
  have "within Q (f y) (n + m)" for y by (rule within_mono [OF Now.prems(2)]) simp
  then show ?case by (simp add: rbind.simps(1) split: outcome.split)
next
  case (Ask t tag k)
  have "within Q (rbind (k c) f) (n - 1 + m)" for c
    by (rule Ask.IH) (use Ask.prems in auto)
  then show ?case using Ask.prems by simp
qed

lemma within_now: "(\<And>x. m = Ret x \<Longrightarrow> within Q (f x) n) \<Longrightarrow> within Q (rbind (Now m) f) n"
  by (simp add: rbind.simps(1) split: outcome.split)

lemma within_answer: "within Q (answer x) n"
  by (simp add: answer_def)

lemma within_ask: "Q (t, tag) \<Longrightarrow> (\<And>c. within Q (f c) n) \<Longrightarrow> within Q (rbind (ask t tag) f) (Suc n)"
  by (simp add: ask_def answer_def rbind.simps(1))

lemma within_field:
  "Q (fld_type f, tag) \<Longrightarrow> (\<And>c. within Q (k c) n) \<Longrightarrow> within Q (rbind (ask_field P t i f tag) k) (Suc n)"
  by (simp add: ask_field_def ask_def answer_def rbind.simps(1))

lemma within_if: "(b \<Longrightarrow> within Q r n) \<Longrightarrow> (\<not> b \<Longrightarrow> within Q r' n) \<Longrightarrow> within Q (if b then r else r') n"
  by simp

lemma within_case_sum:
  "(\<And>a. r = Inl a \<Longrightarrow> within Q (f a) n) \<Longrightarrow> (\<And>b. r = Inr b \<Longrightarrow> within Q (g b) n) \<Longrightarrow>
     within Q (case r of Inl a \<Rightarrow> f a | Inr b \<Rightarrow> g b) n"
  by (cases r) simp_all

lemmas within_intros = within_now within_answer within_if within_case_sum

definition request_width :: "platform \<Rightarrow> gtype \<Rightarrow> nat" where
  "request_width P t = (case struct_fields (p_types P) t of Some fs \<Rightarrow> length fs | None \<Rightarrow> 0) + 2"

lemma first_field_length: "first_field P t fs = Ret (Inr (u, x, rest)) \<Longrightarrow> length rest \<le> length fs"
proof (induction fs)
  case (Cons g fs)
  obtain i f where "g = (i, f)" by (cases g)
  with Cons show ?case
    by (cases "ParseStructTag (p_types P) (fld_type f) (fld_tag f) MaybeInUnion")
      (auto split: sum.splits if_splits)
qed simp

context request_space
begin

definition asked :: "xtype \<Rightarrow> bool" where
  "asked xt \<longleftrightarrow> fst xt \<in> T \<and> length (snd xt) \<le> L"

lemma asked_iff: "asked (t, tag) \<longleftrightarrow> t \<in> T \<and> length tag \<le> L"
  by (simp add: asked_def)

lemma fields_in_Cons:
  assumes "fields_in ((i, f) # fs)"
  shows "fields_in fs" and "fld_type f \<in> T"
    and "ParseStructTag (p_types P) (fld_type f) (fld_tag f) u = Ret (Inr tag, u') \<Longrightarrow> length tag \<le> L"
  using assms by (auto simp: fields_in_def)

lemma within_struct_fields: "fields_in fs \<Longrightarrow> within asked (ask_struct_fields P t fs u acc) (length fs)"
proof (induction fs arbitrary: u acc)
  case (Cons g fs)
  obtain i f where g: "g = (i, f)" by (cases g)
  note f = fields_in_Cons [OF Cons.prems [unfolded g]]
  note loop = Cons.IH [OF f(1)]
  show ?case
    unfolding g ask_struct_fields.simps list.size(4) add_Suc_right add_0_right
    by (rule within_now, clarify, intro within_intros within_field)
      (simp_all add: asked_iff f loop within_mono [OF loop])
qed (simp add: within_answer)

lemma within_union_fields:
  "fields_in fs \<Longrightarrow> within asked (ask_union_fields P t fs u body cases dflt) (length fs)"
proof (induction fs arbitrary: u body cases dflt)
  case (Cons g fs)
  obtain i f where g: "g = (i, f)" by (cases g)
  note f = fields_in_Cons [OF Cons.prems [unfolded g]]
  note loop = Cons.IH [OF f(1)]
  show ?case
    unfolding g ask_union_fields.simps Let_def list.size(4) add_Suc_right add_0_right
    by (rule within_now, clarify, intro within_intros within_field)
      (simp_all add: asked_iff f loop within_mono [OF loop] next_short [OF f(3)])
qed (simp add: within_answer)

lemma within_fields:
  assumes "t \<in> T"
  shows "within asked (ask_fields P t) (request_width P t)"
  unfolding ask_fields_def
proof (intro within_now)
  fix fs r
  assume fs: "of_option ''reflect: NumField of non-struct type'' (struct_fields (p_types P) t) = Ret fs"
    and r: "first_field P t (enumerate 0 fs) = Ret r"
  show "within asked (case r of
        Inl c \<Rightarrow> answer c
      | Inr (InUnion, Some (i, f, tag), rest) \<Rightarrow> ask_union P t (length fs) i f tag rest
      | Inr (NotInUnion, Some (i, f, tag), rest) \<Rightarrow> ask_struct P t i f tag rest
      | Inr _ \<Rightarrow> answer (CStruct (type_name t) [])) (request_width P t)"
  proof (cases "\<exists>u i f tag rest. r = Inr (u, Some (i, f, tag), rest)")
    case True
    then obtain u i f tag rest where ri: "r = Inr (u, Some (i, f, tag), rest)" by blast
    have "fields_in (enumerate 0 fs)" using fs by (intro struct_fields_in [OF assms]) simp
    from first_field_in [OF this r [unfolded ri]]
    have f: "fld_type f \<in> T" "length tag \<le> L" and rest: "fields_in rest" by auto
    have len: "length rest + 0 \<le> Suc (length fs)"
      using first_field_length [OF r [unfolded ri]] by simp
    have w: "within asked (rbind m (\<lambda>x. answer (h x))) (Suc (length fs))"
      if "within asked m (length rest)" for m and h :: "'a \<Rightarrow> codec"
      by (rule within_mono [OF _ len], rule within_bind [OF that], rule within_answer)
    have n: "request_width P t = Suc (Suc (length fs))" using fs by (simp add: request_width_def)
    have "within asked (ask_struct P t i f tag rest) (request_width P t)"
      "within asked (ask_union P t (length fs) i f tag rest) (request_width P t)"
      unfolding ask_struct_def ask_union_def n
      by (intro within_field within_if within_now w within_struct_fields within_union_fields rest;
          simp add: asked_iff f next_short [OF f(2)])+
    then show ?thesis by (cases u) (simp_all add: ri within_answer)
  qed (auto intro: within_answer split: sum.split prod.split is_in_union.split option.split)
qed

lemma within_containers:
  assumes "t \<in> T" "length tag \<le> L"
  shows "within asked (ask_ptr P t tag) (request_width P t)" "within asked (ask_array P t tag) (request_width P t)"
    "within asked (ask_slice P t tag) (request_width P t)" "within asked (ask_map P t tag) (request_width P t)"
    "tag_Kind tag = Opt \<Longrightarrow> within asked (ask_opt P t tag) (request_width P t)"
proof -
  obtain n where n: "request_width P t = Suc (Suc n)" by (simp add: request_width_def)
  note arg = elem_in [OF assms(1)] key_in [OF assms(1)] next_short [OF assms(2)]
  show "within asked (ask_ptr P t tag) (request_width P t)" "within asked (ask_array P t tag) (request_width P t)"
    "within asked (ask_slice P t tag) (request_width P t)" "within asked (ask_map P t tag) (request_width P t)"
    unfolding n ask_ptr_def ask_array_def ask_slice_def ask_map_def Let_def
    by (auto simp: asked_iff arg intro!: within_now within_ask within_answer split: option.split)
  show "within asked (ask_opt P t tag) (request_width P t)" if "tag_Kind tag = Opt"
    unfolding n ask_opt_def
    by (intro within_now within_ask within_answer) (simp add: asked_iff assms(1) opt_tag_short [OF assms(2) that])
qed

lemma within_codec:
  assumes "t \<in> T" "length tag \<le> L"
  shows "within asked (ask_codec P t tag) (request_width P t)"
proof -
  have "within asked (ask_plain P t) (request_width P t)"
    by (auto simp: ask_plain_def intro: within_answer within_fields [OF assms(1)] split: gkind.split)
  then show ?thesis
    by (auto simp: ask_codec_def intro: within_containers [OF assms] within_answer split: gkind.split)
qed

end

end
