(* ===== verification/CoderInv.thy ===== *)
theory CoderInv
  imports Requests
begin

text \<open>
  The contract of codec construction. \<open>coder_ok U\<close> says that the registry only refers to
  published deferred codecs and that exactly those in \<open>U\<close> (the constructions in progress) are
  unresolved. The locale \<open>codec_getter\<close> is what the builders rely on when they ask for inner
  codecs, and \<open>getCodec\<close> provides it.
\<close>

section \<open>The registry invariant\<close>

definition entries_below :: "nat \<Rightarrow> ('k \<Rightarrow> codec option) \<Rightarrow> bool" where
  "entries_below N m \<longleftrightarrow> (\<forall>x c. m x = Some c \<longrightarrow> codec_ids c \<subseteq> {..<N})"

lemma entries_belowD: "entries_below N m \<Longrightarrow> m x = Some c \<Longrightarrow> codec_ids c \<subseteq> {..<N}"
  unfolding entries_below_def by blast

lemma entries_below_upd:
  "entries_below N m \<Longrightarrow> codec_ids c \<subseteq> {..<N} \<Longrightarrow> entries_below N (m(x \<mapsto> c))"
  by (simp add: entries_below_def)

lemma entries_below_mono: "entries_below N m \<Longrightarrow> N \<le> N' \<Longrightarrow> entries_below N' m"
  unfolding entries_below_def by (meson lessThan_subset_iff order_trans)

lemma entries_below_Suc: "entries_below N m \<Longrightarrow> entries_below (Suc N) m"
  by (erule entries_below_mono) simp

definition coder_ok :: "nat set \<Rightarrow> coder \<Rightarrow> bool" where
  "coder_ok U cr \<longleftrightarrow>
     entries_below (cr_next cr) (cr_known cr) \<and> entries_below (cr_next cr) (cr_base cr) \<and>
     entries_below (cr_next cr) (cr_real cr) \<and>
     U \<subseteq> {..<cr_next cr} \<and> dom (cr_real cr) = {..<cr_next cr} - U \<and>
     (\<forall>t c. cr_base cr t = Some c \<longrightarrow> cr_known cr (t, []) = Some c)"

lemma coder_ok_known: "coder_ok U cr \<Longrightarrow> cr_known cr xt = Some c \<Longrightarrow> codec_ids c \<subseteq> {..<cr_next cr}"
  unfolding coder_ok_def by (blast dest: entries_belowD)

lemma coder_ok_base: "coder_ok U cr \<Longrightarrow> cr_base cr t = Some c \<Longrightarrow> codec_ids c \<subseteq> {..<cr_next cr}"
  unfolding coder_ok_def by (blast dest: entries_belowD)

definition extends :: "coder \<Rightarrow> coder \<Rightarrow> bool" where
  "extends cr cr' \<longleftrightarrow> cr_next cr \<le> cr_next cr' \<and> cr_real cr \<subseteq>\<^sub>m cr_real cr'
     \<and> cr_known cr \<subseteq>\<^sub>m cr_known cr' \<and> cr_base cr \<subseteq>\<^sub>m cr_base cr'"

text \<open>What a construction step guarantees: \<open>S\<close> collects the deferred codecs of its result.\<close>

definition keeps_ok :: "('a \<Rightarrow> nat set) \<Rightarrow> 'a build \<Rightarrow> bool" where
  "keeps_ok S b \<longleftrightarrow> (\<forall>U cr x cr'. coder_ok U cr \<longrightarrow> b cr = Ret (x, cr') \<longrightarrow>
     coder_ok U cr' \<and> extends cr cr' \<and> S x \<subseteq> {..<cr_next cr'})"

lemma extends_refl [simp]: "extends cr cr"
  by (simp add: extends_def)

lemma extends_trans: "extends a b \<Longrightarrow> extends b c \<Longrightarrow> extends a c"
  by (auto simp: extends_def intro: map_le_trans)

lemma keeps_okD:
  assumes "keeps_ok S b" "coder_ok U cr" "b cr = Ret (x, cr')"
  shows "coder_ok U cr'" "extends cr cr'" "S x \<subseteq> {..<cr_next cr'}"
  using assms unfolding keeps_ok_def by blast+

lemma publish_ok:
  assumes "coder_ok U cr" "cr_known cr xt = None"
  shows "coder_ok (insert (cr_next cr) U)
    (cr\<lparr>cr_next := Suc (cr_next cr), cr_known := (cr_known cr)(xt \<mapsto> CDeferred (cr_next cr))\<rparr>)"
proof -
  have "{..<Suc (cr_next cr)} - insert (cr_next cr) U = {..<cr_next cr} - U" by auto
  then show ?thesis
    using assms by (simp add: coder_ok_def entries_below_upd entries_below_Suc subset_iff less_Suc_eq)
      force
qed

section \<open>The builders keep it\<close>

lemma run_build: "run gc (ask_codec P t tag) = buildCodec P gc t tag"
  by (rule ext) (rule run_codec)

locale codec_getter =
  fixes P :: platform and gc :: get_codec
  assumes get_ok: "keeps_ok codec_ids (gc t tag)"
begin

lemma run_keeps:
  "gives ids r D \<Longrightarrow> coder_ok U cr \<Longrightarrow> D \<subseteq> {..<cr_next cr} \<Longrightarrow> run gc r cr = Ret (x, cr') \<Longrightarrow>
     coder_ok U cr' \<and> extends cr cr' \<and> ids x \<subseteq> {..<cr_next cr'}"
proof (induction r arbitrary: D cr)
  case (Ask t tag k)
  obtain c cr1 where 1: "gc t tag cr = Ret (c, cr1)" and 2: "run gc (k c) cr1 = Ret (x, cr')"
    using Ask.prems(4) by auto
  note g = keeps_okD [OF get_ok Ask.prems(2) 1]
  have "D \<union> codec_ids c \<subseteq> {..<cr_next cr1}" using Ask.prems(3) g(2,3) by (auto simp: extends_def)
  moreover have "gives ids (k c) (D \<union> codec_ids c)" using Ask.prems(1) by simp
  ultimately have r: "coder_ok U cr' \<and> extends cr1 cr' \<and> ids x \<subseteq> {..<cr_next cr'}"
    using Ask.IH [of "k c" "D \<union> codec_ids c" cr1] g(1) 2 by simp
  then have "extends cr cr'" by (intro extends_trans [OF g(2)]) simp
  with r show ?case by simp
qed auto

lemma run_ok: "gives ids r {} \<Longrightarrow> keeps_ok ids (run gc r)"
  unfolding keeps_ok_def by (auto dest: run_keeps)

lemma build_ok: "keeps_ok codec_ids (buildCodec P gc t tag)"
  using run_ok [OF gives_codec] by (simp add: run_build)

text \<open>Publishing a deferred codec, building, and resolving it.\<close>

lemma codec_ids_toXCodec [simp]: "codec_ids (toXCodec Q c t) = codec_ids c"
  by (simp add: toXCodec_def)

lemma resolved_ok:
  assumes ok: "coder_ok U cr" and None: "cr_known cr (t, tag) = None"
    and k: "coder_ok (insert (cr_next cr) U) cr2"
      "extends (cr\<lparr>cr_next := Suc (cr_next cr), cr_known := (cr_known cr)((t, tag) \<mapsto> CDeferred (cr_next cr))\<rparr>) cr2"
    and ids: "codec_ids c \<subseteq> {..<cr_next cr2}"
    and cr': "cr_next cr' = cr_next cr2" "cr_known cr' = (cr_known cr2)((t, tag) \<mapsto> c)"
      "cr_base cr' = (if tag_Empty tag then (cr_base cr2)(t \<mapsto> c) else cr_base cr2)"
      "cr_real cr' = (cr_real cr2)(cr_next cr \<mapsto> c)"
  shows "coder_ok U cr' \<and> extends cr cr'"
proof -
  have ext: "cr_real cr \<subseteq>\<^sub>m cr_real cr2" "cr_next cr < cr_next cr2" "cr_base cr \<subseteq>\<^sub>m cr_base cr2"
    "(cr_known cr)((t, tag) \<mapsto> CDeferred (cr_next cr)) \<subseteq>\<^sub>m cr_known cr2"
    using k(2) by (auto simp: extends_def)
  have fresh: "cr_real cr (cr_next cr) = None" "cr_next cr \<notin> U" using ok by (auto simp: coder_ok_def domIff)
  have base: "cr_base cr t = None" if "tag_Empty tag"
    using that None ok by (cases "cr_base cr t") (auto simp: coder_ok_def tag_Empty_def)
  have "dom (cr_real cr') = {..<cr_next cr'} - U"
    using k(1) ext(2) fresh cr' by (auto simp: coder_ok_def)
  then have "coder_ok U cr'"
    using k(1) ids cr' by (auto simp: coder_ok_def tag_Empty_def intro!: entries_below_upd)
  moreover have "cr_real cr \<subseteq>\<^sub>m cr_real cr'"
    using ext(1) fresh(1) unfolding cr' map_le_def by (auto simp: domIff)
  moreover have "cr_known cr x = cr_known cr' x" if "x \<in> dom (cr_known cr)" for x
    using that None bspec [OF ext(4) [unfolded map_le_def], of x] unfolding cr' by (cases "x = (t, tag)") auto
  moreover have "cr_base cr \<subseteq>\<^sub>m cr_base cr'"
    using ext(3) base unfolding cr' map_le_def by (auto simp: domIff)
  ultimately show ?thesis using cr' ext(2) by (simp add: extends_def map_le_def)
qed

lemma new_ok: "keeps_ok codec_ids (getNewCodec P gc (t, tag) tag)"
  unfolding keeps_ok_def
proof (intro allI impI)
  fix U cr c cr'
  assume ok: "coder_ok U cr" and r: "getNewCodec P gc (t, tag) tag cr = Ret (c, cr')"
  show "coder_ok U cr' \<and> extends cr cr' \<and> codec_ids c \<subseteq> {..<cr_next cr'}"
  proof (cases "cr_known cr (t, tag)")
    case (Some c0)
    with r have "c = c0" "cr' = cr" by (auto simp: getNewCodec_def as_xCodec_def split: if_splits)
    with ok Some show ?thesis using coder_ok_known coder_ok_base by simp
  next
    case None
    let ?cr1 = "cr\<lparr>cr_next := Suc (cr_next cr), cr_known := (cr_known cr)((t, tag) \<mapsto> CDeferred (cr_next cr))\<rparr>"
    from r None obtain c0 cr2 where b: "buildCodec P gc t tag ?cr1 = Ret (c0, cr2)"
      and c: "c = toXCodec P c0 t"
      and cr': "cr_next cr' = cr_next cr2" "cr_known cr' = (cr_known cr2)((t, tag) \<mapsto> c)"
        "cr_base cr' = (if tag_Empty tag then (cr_base cr2)(t \<mapsto> c) else cr_base cr2)"
        "cr_real cr' = (cr_real cr2)(cr_next cr \<mapsto> c)"
      by (cases "tag_Empty tag") (auto simp: getNewCodec_def Let_def)
    note k = keeps_okD [OF build_ok publish_ok [OF ok None] b]
    show ?thesis using resolved_ok [OF ok None k(1,2) _ cr'] k(3) c cr'(1) by simp
  qed
qed

end

lemma getCodec_ok: "keeps_ok codec_ids (getCodec n P t tag)"
proof (induction n arbitrary: t tag)
  case 0
  then show ?case by (simp add: keeps_ok_def)
next
  case (Suc n)
  have new: "keeps_ok codec_ids (getNewCodec P (getCodec n P) (t, ByteString tag) tag)"
    unfolding ByteString_def by (rule codec_getter.new_ok) (simp add: codec_getter_def Suc)
  show ?case
    unfolding keeps_ok_def
  proof (intro allI impI)
    fix U cr c cr'
    assume ok: "coder_ok U cr" and r: "getCodec (Suc n) P t tag cr = Ret (c, cr')"
    show "coder_ok U cr' \<and> extends cr cr' \<and> codec_ids c \<subseteq> {..<cr_next cr'}"
    proof (cases "cr_known cr (t, ByteString tag)")
      case (Some c0)
      with r have "c = c0" "cr' = cr" by (auto simp: as_xCodec_def split: if_splits)
      with ok Some show ?thesis using coder_ok_known coder_ok_base by simp
    next
      case None
      with r keeps_okD [OF new ok] show ?thesis by simp
    qed
  qed
qed

interpretation getter: codec_getter P "getCodec n P" for P n
  by unfold_locales (rule getCodec_ok)

lemma getBaseCodec_ok: "keeps_ok codec_ids (getBaseCodec n P t)"
  unfolding keeps_ok_def
proof (intro allI impI)
  fix U cr c cr'
  assume ok: "coder_ok U cr" and r: "getBaseCodec n P t cr = Ret (c, cr')"
  show "coder_ok U cr' \<and> extends cr cr' \<and> codec_ids c \<subseteq> {..<cr_next cr'}"
  proof (cases "cr_base cr t")
    case (Some c0)
    with r have "c = c0" "cr' = cr" by (auto simp: getBaseCodec_def as_xCodec_def split: if_splits)
    with ok Some show ?thesis using coder_ok_known coder_ok_base by simp
  next
    case None
    with r keeps_okD [OF getter.new_ok ok] show ?thesis by (simp add: getBaseCodec_def)
  qed
qed

end
