(* ===== verification/CoderTerm.thy ===== *)
theory CoderTerm
  imports CoderInv
begin

text \<open>
  Codec construction ends for every type, recursive ones included. A request descends to
  inner types and shorter tags, so all requests stay within a finite set of keys; each
  level of the recursion publishes a new key of that set before it descends.
\<close>

section \<open>Nothing but the recursion uses up the bound\<close>

text \<open>\<open>total_in V N b\<close>: with fewer than \<open>N\<close> keys of \<open>V\<close> left to publish, \<open>b\<close> is not cut short.\<close>

definition left :: "xtype set \<Rightarrow> coder \<Rightarrow> nat" where
  "left V cr = card (V - dom (cr_known cr))"

definition total_in :: "xtype set \<Rightarrow> nat \<Rightarrow> 'a build \<Rightarrow> bool" where
  "total_in V N b \<longleftrightarrow> (\<forall>U cr. coder_ok U cr \<longrightarrow> left V cr < N \<longrightarrow> b cr \<noteq> Spent)"

locale total_getter = codec_getter P gc + request_space P T L
  for P :: platform and gc :: get_codec and V :: "xtype set" and N :: nat and T :: "gtype set" and L :: nat +
  assumes finite_V: "finite V"
    and get_total: "t \<in> T \<Longrightarrow> length tag \<le> L \<Longrightarrow> total_in V N (gc t tag)"
begin

lemma run_total:
  "within asked r n \<Longrightarrow> gives ids r D \<Longrightarrow> coder_ok U cr \<Longrightarrow> left V cr < N \<Longrightarrow> run gc r cr \<noteq> Spent"
proof (induction r arbitrary: n D cr)
  case (Now m)
  then show ?case by (cases m) (auto simp: prompt_def)
next
  case (Ask t tag k)
  then have key: "t \<in> T" "length tag \<le> L" by (auto simp: asked_iff)
  show ?case unfolding run.simps
  proof (rule obind_not_Spent)
    show "gc t tag cr \<noteq> Spent" using get_total [OF key] Ask.prems(3,4) by (simp add: total_in_def)
  next
    fix y assume y: "gc t tag cr = Ret y"
    obtain c cr1 where c: "y = (c, cr1)" by (cases y)
    note k = keeps_okD [OF get_ok Ask.prems(3) y [unfolded c]]
    have "left V cr1 \<le> left V cr"
      unfolding left_def using k(2) finite_V by (intro card_mono) (auto simp: extends_def dest: map_le_implies_dom_le)
    moreover have "within asked (k c) (n - 1)" "gives ids (k c) (D \<union> codec_ids c)" using Ask.prems(1,2) by simp_all
    ultimately show "(case y of (c, cr') \<Rightarrow> run gc (k c) cr') \<noteq> Spent"
      using Ask.IH [of "k c" "n - 1" "D \<union> codec_ids c" cr1] k(1) Ask.prems(4) by (simp add: c)
  qed
qed

lemma build_total:
  assumes "t \<in> T" "length tag \<le> L"
  shows "total_in V N (buildCodec P gc t tag)"
  unfolding total_in_def run_build [symmetric]
  by (auto dest: run_total [OF within_codec [OF assms] gives_codec])

end

section \<open>Every request is answered\<close>

lemma getCodec_total:
  assumes "finite V" and "closed_types (p_types P) T" and "\<And>tag. tag \<in> field_tags P T \<Longrightarrow> length tag \<le> L"
    and V: "\<And>t tag. t \<in> T \<Longrightarrow> length tag \<le> L \<Longrightarrow> (t, tag) \<in> V"
  shows "t \<in> T \<Longrightarrow> length tag \<le> L \<Longrightarrow> total_in V n (getCodec n P t tag)"
proof (induction n arbitrary: t tag)
  case (Suc n)
  have tg: "total_getter P (getCodec n P) V n T L"
    by unfold_locales (use assms Suc.IH getCodec_ok in auto)
  show ?case unfolding total_in_def
  proof (intro allI impI)
    fix U cr assume ok: "coder_ok U cr" and lt: "left V cr < Suc n"
    show "getCodec (Suc n) P t tag cr \<noteq> Spent"
    proof (cases "cr_known cr (t, tag)")
      case (Some c)
      then show ?thesis by (simp add: ByteString_def as_xCodec_def)
    next
      case None
      let ?cr1 = "cr\<lparr>cr_next := Suc (cr_next cr), cr_known := (cr_known cr)((t, tag) \<mapsto> CDeferred (cr_next cr))\<rparr>"
      have "V - dom (cr_known ?cr1) \<subset> V - dom (cr_known cr)"
        using V [OF Suc.prems] None by auto
      then have "left V ?cr1 < left V cr"
        unfolding left_def using assms(1) by (intro psubset_card_mono) auto
      then have "buildCodec P (getCodec n P) t tag ?cr1 \<noteq> Spent"
        using total_getter.build_total [OF tg Suc.prems] publish_ok [OF ok None] lt
        unfolding total_in_def by (meson less_Suc_eq_le order_less_le_trans)
      then show ?thesis
        using None by (cases "buildCodec P (getCodec n P) t tag ?cr1")
          (auto simp: ByteString_def getNewCodec_def Let_def)
    qed
  qed
qed (simp add: total_in_def)

text \<open>A bound on the nesting of requests that start from type \<open>t\<close> and a tag.\<close>

definition build_bound :: "platform \<Rightarrow> gtype \<Rightarrow> xdrtag \<Rightarrow> nat" where
  "build_bound P t tag = (let T = reach_types (p_types P) t in
     Suc (card (T \<times> {x :: u8 list. length x \<le> tag_bound P T tag})))"

lemma short_lists_finite: "finite {x :: u8 list. length x \<le> L}"
  using finite_lists_length_le [of "UNIV :: u8 set" L] by simp

text \<open>
  The requests in question: types that can be reached from \<open>t\<close>, and tags no longer than any
  tag those types mention. For them \<open>getCodec\<close> satisfies the contract of a total getter.
\<close>

definition build_types :: "platform \<Rightarrow> gtype \<Rightarrow> gtype set" where
  "build_types P t = reach_types (p_types P) t"

definition build_requests :: "platform \<Rightarrow> gtype \<Rightarrow> xdrtag \<Rightarrow> xtype set" where
  "build_requests P t tag = build_types P t \<times> {x. length x \<le> tag_bound P (build_types P t) tag}"

lemma build_requests_finite: "finite (build_requests P t tag)"
  unfolding build_requests_def build_types_def
  by (intro finite_cartesian_product reach_types_finite short_lists_finite)

lemma build_types_closed: "closed_types (p_types P) (build_types P t)"
  unfolding build_types_def by (rule reach_types_closed)

lemma build_tags_short: "x \<in> field_tags P (build_types P t) \<Longrightarrow> length x \<le> tag_bound P (build_types P t) tag"
  unfolding build_types_def by (rule tag_bound(2) [OF reach_types_finite])

lemma build_get_total:
  "u \<in> build_types P t \<Longrightarrow> length x \<le> tag_bound P (build_types P t) tag
    \<Longrightarrow> total_in (build_requests P t tag) n (getCodec n P u x)"
  by (rule getCodec_total [OF build_requests_finite build_types_closed build_tags_short])
    (auto simp: build_requests_def)

interpretation total: total_getter P "getCodec n P" "build_requests P t tag" n "build_types P t"
    "tag_bound P (build_types P t) tag" for P n t tag
  by unfold_locales (use build_requests_finite build_types_closed build_tags_short build_get_total in blast)+

lemma getCodec_returns:
  assumes "coder_ok U cr" and "build_bound P t tag \<le> n"
  shows "getCodec n P t tag cr \<noteq> Spent"
proof -
  have "t \<in> build_types P t" by (simp add: build_types_def reach_types_def subtypes_refl)
  moreover have "length tag \<le> tag_bound P (build_types P t) tag"
    unfolding build_types_def by (rule tag_bound(1) [OF reach_types_finite])
  ultimately have "total_in (build_requests P t tag) n (getCodec n P t tag)"
    by (rule total.get_total)
  moreover have "left (build_requests P t tag) cr < n"
    using assms(2) card_mono [OF build_requests_finite, of "build_requests P t tag - dom (cr_known cr)" P t tag]
    by (auto simp: left_def build_bound_def build_requests_def build_types_def Let_def)
  ultimately show ?thesis using assms(1) by (simp add: total_in_def)
qed

end
