(* ===== verification/TypedRequests.thy ===== *)
theory TypedRequests
  imports Requests
begin

text \<open>
  What the builders make of the codecs they ask for: if the answers fit the types that were
  asked for, the codec that is built fits its type. \<open>yields\<close> is the contract of a request; the
  locale \<open>fit_platform\<close> has what it takes.
\<close>

section \<open>The arms of a union\<close>

lemma arm_ok_upd:
  "f_index fd = i \<Longrightarrow> i < length body \<Longrightarrow> arm_ok (body[i := Some fd]) i"
  "f_index fd = i \<Longrightarrow> arm_ok body j \<Longrightarrow> arm_ok (body[i := Some fd]) j"
  by (auto simp: arm_ok_def nth_list_update) (cases "j = i"; simp)

lemma add_cases_ok:
  "add_cases i vs cases = Inr cases' \<Longrightarrow> arm_ok body i \<Longrightarrow> \<forall>(w, i)\<in>set cases. arm_ok body i \<Longrightarrow>
     distinct (map fst cases) \<Longrightarrow> (\<forall>(w, i)\<in>set cases'. arm_ok body i) \<and> distinct (map fst cases')"
proof (induction i vs cases rule: add_cases.induct)
  case (2 i v vs cases)
  then show ?case by (auto simp: map_of_eq_None_iff split: if_splits)
qed simp

lemma arms_ok_upd:
  assumes "arms_ok body cases dflt" "f_index fd = i" "i < length body"
  shows "arms_ok (body[i := Some fd]) cases dflt"
    and "arms_ok (body[i := Some fd]) cases (int i)"
    and "add_cases i vs cases = Inr cases' \<Longrightarrow> arms_ok (body[i := Some fd]) cases' dflt"
  using assms arm_ok_upd [of fd i body] add_cases_ok [of i vs cases cases' "body[i := Some fd]"]
  by (auto simp: arms_ok_def)

section \<open>Fields\<close>

definition field_at :: "genv \<Rightarrow> gtype \<Rightarrow> gfield list \<Rightarrow> (nat \<Rightarrow> gtype) \<Rightarrow> codec field \<Rightarrow> bool" where
  "field_at G t fs dt f \<longleftrightarrow> f_index f < length fs \<and> f_offset f = field_offset (g_word G) (g_types G) t (f_index f)
     \<and> fits G dt (fld_type (fs ! f_index f)) (f_codec f) \<and> callable G (f_codec f)"

lemma struct_of_fields:
  "struct_fields (g_types G) t = Some fs \<Longrightarrow> \<forall>f\<in>set fds. field_at G t fs dt f \<Longrightarrow> fits G dt t (CStruct name fds)"
  by (rule fit_struct) (auto simp: field_at_def)

lemma union_of_fields:
  "struct_fields (g_types G) t = Some fs \<Longrightarrow> arms_ok body cases dflt \<Longrightarrow>
     \<forall>f\<in>insert sw {f. Some f \<in> set body}. field_at G t fs dt f \<Longrightarrow>
     (sk, kind (g_types G) (fld_type (fs ! f_index sw))) \<in> set switch_kinds \<Longrightarrow>
     fits G dt t (CUnion name sw body cases dflt sk)"
  by (rule fit_union) (auto simp: field_at_def)

text \<open>The fields still to be handled are fields of the struct, under their index.\<close>

definition fields_of :: "gfield list \<Rightarrow> (nat \<times> gfield) list \<Rightarrow> bool" where
  "fields_of fs rest \<longleftrightarrow> (\<forall>(i, f)\<in>set rest. i < length fs \<and> fs ! i = f)"

lemma fields_of_Cons [simp]: "fields_of fs ((i, f) # rest) \<longleftrightarrow> i < length fs \<and> fs ! i = f \<and> fields_of fs rest"
  by (auto simp: fields_of_def)

lemma first_field_of:
  "first_field P t fs' = Ret (Inr (u, Some (i, f, tag), rest)) \<Longrightarrow> fields_of fs fs' \<Longrightarrow>
     i < length fs \<and> fs ! i = f \<and> fields_of fs rest"
proof (induction P t fs' rule: first_field.induct)
  case (2 P t j g gs)
  then show ?case
    by (cases "ParseStructTag (p_types P) (fld_type g) (fld_tag g) MaybeInUnion")
      (auto split: sum.splits if_splits)
qed simp

section \<open>Requests and the answers they get\<close>

lemmas fit_rules = fit_fixed_string fit_var_string fit_opaque_array fit_array fit_opaque_slice fit_slice
  fit_ptr fit_opt fit_map fit_error fit_marshaler fit_foreign fit_wrapper

text \<open>
  \<open>yields T S r h\<close>: after the answers \<open>h\<close>, \<open>r\<close> asks for types of \<open>T\<close> only, and a result \<open>x\<close> that
  comes with the answers \<open>h'\<close> satisfies \<open>S h' x\<close>.
\<close>

type_synonym answers = "(gtype \<times> codec) set"

primrec yields :: "gtype set \<Rightarrow> (answers \<Rightarrow> 'a \<Rightarrow> bool) \<Rightarrow> 'a request \<Rightarrow> answers \<Rightarrow> bool" where
  "yields T S (Now m) h \<longleftrightarrow> (\<forall>x. m = Ret x \<longrightarrow> S h x)"
| "yields T S (Ask u tag k) h \<longleftrightarrow> u \<in> T \<and> (\<forall>c. yields T S (k c) (insert (u, c) h))"

lemma yields_bind:
  "yields T S r h \<Longrightarrow> (\<And>x h'. h \<subseteq> h' \<Longrightarrow> S h' x \<Longrightarrow> yields T S' (f x) h') \<Longrightarrow> yields T S' (rbind r f) h"
proof (induction r arbitrary: h)
  case (Now m)
  then show ?case by (cases m) (auto simp: rbind.simps(1))
next
  case (Ask u tag k)
  have "yields T S' (rbind (k c) f) (insert (u, c) h)" for c
    by (rule Ask.IH) (use Ask.prems in auto)
  then show ?case using Ask.prems(1) by simp
qed

lemma yields_mono: "yields T S r h \<Longrightarrow> (\<And>h' x. S h' x \<Longrightarrow> S' h' x) \<Longrightarrow> yields T S' r h"
  by (induction r arbitrary: h) auto

lemma yields_now: "(\<And>x. m = Ret x \<Longrightarrow> yields T S (f x) h) \<Longrightarrow> yields T S (rbind (Now m) f) h"
  by (auto simp: rbind.simps(1) split: outcome.split)

lemma yields_answer: "S h x \<Longrightarrow> yields T S (answer x) h"
  by (simp add: answer_def)

lemma yields_ask: "u \<in> T \<Longrightarrow> (\<And>c. yields T S (f c) (insert (u, c) h)) \<Longrightarrow> yields T S (rbind (ask u tag) f) h"
  by (simp add: ask_def answer_def rbind.simps(1))

lemma yields_field:
  "fld_type f \<in> T \<Longrightarrow> (\<And>c. yields T S (k (Field i (p_offset P t i) c (fld_name f))) (insert (fld_type f, c) h)) \<Longrightarrow>
     yields T S (rbind (ask_field P t i f tag) k) h"
  by (simp add: ask_field_def ask_def answer_def rbind.simps(1))

lemma yields_if: "(b \<Longrightarrow> yields T S r h) \<Longrightarrow> (\<not> b \<Longrightarrow> yields T S r' h) \<Longrightarrow> yields T S (if b then r else r') h"
  by simp

lemma yields_case_sum:
  "(\<And>a. r = Inl a \<Longrightarrow> yields T S (f a) h) \<Longrightarrow> (\<And>b. r = Inr b \<Longrightarrow> yields T S (g b) h) \<Longrightarrow>
     yields T S (case r of Inl a \<Rightarrow> f a | Inr b \<Rightarrow> g b) h"
  by (cases r) simp_all

lemma yields_case_option:
  "(r = None \<Longrightarrow> yields T S f h) \<Longrightarrow> (\<And>b. r = Some b \<Longrightarrow> yields T S (g b) h) \<Longrightarrow>
     yields T S (case r of None \<Rightarrow> f | Some b \<Rightarrow> g b) h"
  by (cases r) simp_all

lemmas yields_intros = yields_now yields_if yields_case_sum yields_case_option yields_ask yields_answer

lemma run_yields: "yields T S r h \<Longrightarrow> run gc r cr = Ret (x, cr') \<Longrightarrow> \<exists>h'. S h' x"
proof (induction r arbitrary: h cr)
  case (Now m)
  then show ?case by (cases m) auto
next
  case (Ask u tag k)
  obtain c cr1 where "gc u tag cr = Ret (c, cr1)" "run gc (k c) cr1 = Ret (x, cr')"
    using Ask.prems(2) by auto
  then show ?case using Ask.IH [of "k c"] Ask.prems(1) by auto
qed

section \<open>Codecs that fit if the answers do\<close>

definition answers_fit :: "genv \<Rightarrow> (nat \<Rightarrow> gtype) \<Rightarrow> answers \<Rightarrow> bool" where
  "answers_fit G dt h \<longleftrightarrow> (\<forall>(u, c)\<in>h. fits G dt u c \<and> callable G c)"

lemma answers_fit_insert [simp]:
  "answers_fit G dt (insert (u, c) h) \<longleftrightarrow> fits G dt u c \<and> callable G c \<and> answers_fit G dt h"
  by (simp add: answers_fit_def)

lemma answers_fit_mono: "answers_fit G dt h' \<Longrightarrow> h \<subseteq> h' \<Longrightarrow> answers_fit G dt h"
  by (auto simp: answers_fit_def)

definition fitting :: "genv \<Rightarrow> gtype \<Rightarrow> answers \<Rightarrow> codec \<Rightarrow> bool" where
  "fitting G t h c \<longleftrightarrow> (\<forall>dt. answers_fit G dt h \<longrightarrow> fits G dt t c)"

lemma fitting_error [simp]: "fitting G t h (CError e)"
  by (simp add: fitting_def fit_error)

text \<open>The fields that a loop over the struct has collected, and what the loop ends with.\<close>

definition fields_fit :: "genv \<Rightarrow> gtype \<Rightarrow> gfield list \<Rightarrow> answers \<Rightarrow> codec field set \<Rightarrow> bool" where
  "fields_fit G t fs h F \<longleftrightarrow> (\<forall>dt. answers_fit G dt h \<longrightarrow> (\<forall>f\<in>F. field_at G t fs dt f))"

lemma fields_fit_mono: "fields_fit G t fs h F \<Longrightarrow> h \<subseteq> h' \<Longrightarrow> F' \<subseteq> F \<Longrightarrow> fields_fit G t fs h' F'"
  unfolding fields_fit_def by (blast dest: answers_fit_mono)

lemma fields_fit_insert: "fields_fit G t fs h F \<Longrightarrow> fields_fit G t fs h {f} \<Longrightarrow> fields_fit G t fs h (insert f F)"
  by (simp add: fields_fit_def)

fun struct_result :: "genv \<Rightarrow> gtype \<Rightarrow> gfield list \<Rightarrow> answers \<Rightarrow> codec + codec field list \<Rightarrow> bool" where
  "struct_result G t fs h (Inl c) \<longleftrightarrow> (\<exists>e. c = CError e)"
| "struct_result G t fs h (Inr fds) \<longleftrightarrow> fields_fit G t fs h (set fds)"

definition arms_in :: "codec field option list \<Rightarrow> codec field set" where
  "arms_in body = {f. Some f \<in> set body}"

lemma arms_in_upd: "arms_in (body[i := Some fd]) \<subseteq> insert fd (arms_in body)"
  by (auto simp: arms_in_def dest!: set_update_subset_insert [THEN subsetD])

fun union_result :: "genv \<Rightarrow> gtype \<Rightarrow> gfield list \<Rightarrow> answers
    \<Rightarrow> codec + codec field option list \<times> (u32 \<times> nat) list \<times> int \<Rightarrow> bool" where
  "union_result G t fs h (Inl c) \<longleftrightarrow> (\<exists>e. c = CError e)"
| "union_result G t fs h (Inr (body, cases, dflt)) \<longleftrightarrow> fields_fit G t fs h (arms_in body) \<and> arms_ok body cases dflt"

text \<open>A codec that fits, with an arm for every selected case.\<close>

definition well_built :: "genv \<Rightarrow> gtype \<Rightarrow> answers \<Rightarrow> codec \<Rightarrow> bool" where
  "well_built G t h c \<longleftrightarrow> fitting G t h c
     \<and> (\<forall>name sw body cases dflt sk. c = CUnion name sw body cases dflt sk \<longrightarrow> arms_ok body cases dflt)"

lemma well_built_error [simp]: "well_built G t h (CError e)"
  by (simp add: well_built_def)

lemma well_built_marshaler: "well_built G t h (CMarshaler t)"
  by (simp add: well_built_def fitting_def fit_marshaler)

lemma well_built_struct:
  "struct_fields (g_types G) t = Some fs \<Longrightarrow> fields_fit G t fs h (set fds) \<Longrightarrow> well_built G t h (CStruct name fds)"
  by (auto simp: well_built_def fitting_def fields_fit_def intro: struct_of_fields)

lemma well_built_union:
  assumes "struct_fields (g_types G) t = Some fs" "fields_fit G t fs h (insert sw (arms_in body))" "arms_ok body cases dflt"
    and "(sk, kind (g_types G) (fld_type (fs ! f_index sw))) \<in> set switch_kinds"
  shows "well_built G t h (CUnion name sw body cases dflt sk)"
  using assms by (auto simp: well_built_def fitting_def fields_fit_def arms_in_def intro!: union_of_fields)


section \<open>The builders\<close>

locale fit_platform =
  fixes P :: platform and G :: genv and T :: "gtype set"
  assumes link: "p_types P = g_types G" "p_maxInt P = g_maxInt G" and closed: "closed_types (g_types G) T"
begin

abbreviation builds :: "gtype \<Rightarrow> codec request \<Rightarrow> answers \<Rightarrow> bool" where
  "builds t r h \<equiv> yields T (well_built G t) r h"

lemma parts_in:
  "t \<in> T \<Longrightarrow> elem_type (g_types G) t = Some e \<Longrightarrow> e \<in> T"
  "t \<in> T \<Longrightarrow> key_type (g_types G) t = Some k \<Longrightarrow> k \<in> T"
  "t \<in> T \<Longrightarrow> struct_fields (g_types G) t = Some fs \<Longrightarrow> i < length fs \<and> fs ! i = f \<Longrightarrow> fld_type f \<in> T"
  using closed unfolding closed_types_def by (blast, blast, blast intro: nth_mem)

lemma reflect_facts:
  "reflect_elem P t = Ret e \<longleftrightarrow> elem_type (g_types G) t = Some e"
  "reflect_key P t = Ret e \<longleftrightarrow> key_type (g_types G) t = Some e"
  "reflect_len P t = Ret l \<longleftrightarrow> array_len (g_types G) t = Some l"
  "p_size P t = size_of (g_word G) (g_types G) t"
  "p_offset P t i = field_offset (g_word G) (g_types G) t i"
  by (simp_all add: reflect_elem_def reflect_key_def reflect_len_def p_size_def p_offset_def link)

lemma builds_containers:
  assumes "t \<in> T"
  shows "builds t (ask_opt P t tag) h"
    and "kind (g_types G) t = KPtr \<Longrightarrow> builds t (ask_ptr P t tag) h"
    and "kind (g_types G) t = KArray \<Longrightarrow> builds t (ask_array P t tag) h"
    and "kind (g_types G) t = KSlice \<Longrightarrow> builds t (ask_slice P t tag) h"
    and "kind (g_types G) t = KMap \<Longrightarrow> builds t (ask_map P t tag) h"
    and "kind (g_types G) t = KString \<Longrightarrow> builds t (Now (makeStringCodec P t tag)) h"
proof -
  show "kind (g_types G) t = KString \<Longrightarrow> builds t (Now (makeStringCodec P t tag)) h"
    by (auto simp: makeStringCodec_def well_built_def fitting_def intro: fits.intros split: if_splits)
qed (unfold ask_opt_def ask_ptr_def ask_array_def ask_slice_def ask_map_def Let_def,
    (intro yields_intros;
      auto simp: reflect_facts link well_built_def fitting_def intro: assms parts_in [OF assms] fit_rules)+)

lemma field_in:
  "i < length fs \<and> fs ! i = f \<Longrightarrow> fields_fit G t fs (insert (fld_type f, c) h) {Field i (p_offset P t i) c (fld_name f)}"
  by (auto simp: fields_fit_def field_at_def reflect_facts)

lemma yields_struct_fields:
  assumes t: "t \<in> T" "struct_fields (g_types G) t = Some fs"
  shows "fields_of fs rest \<Longrightarrow> fields_fit G t fs h (set acc) \<Longrightarrow>
    yields T (struct_result G t fs) (ask_struct_fields P t rest u acc) h"
proof (induction rest arbitrary: u acc h)
  case (Cons g rest)
  obtain i f where g: "g = (i, f)" by (cases g)
  have f: "i < length fs \<and> fs ! i = f" "fields_of fs rest" using Cons.prems(1) g by auto
  have more: "fields_fit G t fs (insert (fld_type f, c) h) (set (acc @ [Field i (p_offset P t i) c (fld_name f)]))" for c
    using fields_fit_insert [OF fields_fit_mono [OF Cons.prems(2) subset_insertI order_refl] field_in [OF f(1)]] by simp
  show ?case
    unfolding g ask_struct_fields.simps
    by (rule yields_now, clarify, intro yields_intros yields_field parts_in(3) [OF t f(1)] Cons.IH f(2) more Cons.prems(2))
      (simp add: tag_failure_def)
qed (simp add: yields_answer)

lemma yields_union_fields:
  assumes t: "t \<in> T" "struct_fields (g_types G) t = Some fs"
  shows "fields_of fs rest \<Longrightarrow> fields_fit G t fs h (arms_in body) \<Longrightarrow> arms_ok body cases dflt \<Longrightarrow> length body = length fs \<Longrightarrow>
    yields T (union_result G t fs) (ask_union_fields P t rest u body cases dflt) h"
proof (induction rest arbitrary: u body cases dflt h)
  case (Cons g rest)
  obtain i f where g: "g = (i, f)" by (cases g)
  have f: "i < length fs \<and> fs ! i = f" "fields_of fs rest" using Cons.prems(1) g by auto
  let ?fd = "\<lambda>c. Field i (p_offset P t i) c (fld_name f)"
  have more: "fields_fit G t fs (insert (fld_type f, c) h) (arms_in (body[i := Some (?fd c)]))" for c
    using fields_fit_insert [OF fields_fit_mono [OF Cons.prems(2) subset_insertI order_refl] field_in [OF f(1)]]
    by (rule fields_fit_mono) (use arms_in_upd in auto)
  note arms = arms_ok_upd [OF Cons.prems(3), of "?fd c" i for c]
  show ?case
    unfolding g ask_union_fields.simps Let_def
    by (rule yields_now, clarify, intro yields_intros yields_field parts_in(3) [OF t f(1)] Cons.IH f(2) more Cons.prems arms)
      (use f(1) Cons.prems(4) in \<open>simp_all add: tag_failure_def\<close>)
qed (simp add: yields_answer)

lemma builds_struct:
  assumes t: "t \<in> T" "struct_fields (g_types G) t = Some fs" and f: "i < length fs \<and> fs ! i = f" "fields_of fs rest"
  shows "builds t (ask_struct P t i f tag rest) h"
  unfolding ask_struct_def
proof (intro yields_field parts_in(3) [OF t f(1)])
  fix c
  show "builds t (rbind (ask_struct_fields P t rest NotInUnion [Field i (p_offset P t i) c (fld_name f)])
      (\<lambda>r. answer (case r of Inl c \<Rightarrow> c | Inr fds \<Rightarrow> CStruct (type_name t) fds))) (insert (fld_type f, c) h)"
    by (rule yields_bind [OF yields_struct_fields [OF t f(2)]], simp add: field_in [OF f(1)], rule yields_answer)
      (auto split: sum.split intro: well_built_struct [OF t(2)])
qed

lemma builds_union:
  assumes t: "t \<in> T" "struct_fields (g_types G) t = Some fs" and f: "i < length fs \<and> fs ! i = f" "fields_of fs rest"
  shows "builds t (ask_union P t (length fs) i f tag rest) h"
  unfolding ask_union_def
proof (intro yields_if yields_now yields_field parts_in(3) [OF t f(1)])
  fix sk tag' and c :: codec
  assume "union_switch_kind P (fld_type f) = Ret sk"
  then have sk: "(sk, kind (g_types G) (fld_type f)) \<in> set switch_kinds"
    by (auto simp: union_switch_kind_def switch_kinds_def link split: if_splits)
  let ?sw = "Field i (p_offset P t i) c (fld_name f)" and ?none = "replicate (length fs) None :: codec field option list"
  have none: "arms_in ?none = {}" "arms_ok ?none [] (-1)" by (auto simp: arms_in_def arms_ok_def)
  show "builds t (rbind (ask_union_fields P t rest InUnion ?none [] (-1)) (\<lambda>r.
      answer (case r of Inl c \<Rightarrow> c | Inr (body, cases, dflt) \<Rightarrow> CUnion (type_name t) ?sw body cases dflt sk)))
      (insert (fld_type f, c) h)"
  proof (rule yields_bind [OF yields_union_fields [OF t f(2)]])
    show "fields_fit G t fs (insert (fld_type f, c) h) (arms_in ?none)" by (simp add: none fields_fit_def)
    fix r h' assume h': "insert (fld_type f, c) h \<subseteq> h'" and r: "union_result G t fs h' r"
    have "fields_fit G t fs h' {?sw}" by (rule fields_fit_mono [OF field_in [OF f(1)] h']) simp
    then have "well_built G t h' (CUnion (type_name t) ?sw body cases dflt sk)" if "r = Inr (body, cases, dflt)" for body cases dflt
      using r sk f(1) unfolding that by (intro well_built_union [OF t(2) fields_fit_insert]) simp_all
    then show "builds t (answer (case r of Inl c \<Rightarrow> c
        | Inr (body, cases, dflt) \<Rightarrow> CUnion (type_name t) ?sw body cases dflt sk)) h'"
      using r by (intro yields_answer) (auto split: sum.split)
  qed (simp_all add: none)
qed simp

lemma builds_fields:
  assumes "t \<in> T"
  shows "builds t (ask_fields P t) h"
  unfolding ask_fields_def
proof (intro yields_now yields_case_sum)
  fix fs r
  assume "of_option ''reflect: NumField of non-struct type'' (struct_fields (p_types P) t) = Ret fs"
    and r: "first_field P t (enumerate 0 fs) = Ret r"
  then have fs: "struct_fields (g_types G) t = Some fs" by (simp add: link)
  show "builds t (answer c) h" if "r = Inl c" for c
    using first_field_error [OF r [unfolded that]] by (auto intro: yields_answer)
  have all: "fields_of fs (enumerate 0 fs)" by (auto simp: fields_of_def in_set_enumerate_eq)
  have empty: "builds t (answer (CStruct (type_name t) [])) h"
    by (intro yields_answer well_built_struct [OF fs]) (simp add: fields_fit_def)
  show "builds t (case x of (InUnion, Some (i, f, tag), rest) \<Rightarrow> ask_union P t (length fs) i f tag rest
      | (NotInUnion, Some (i, f, tag), rest) \<Rightarrow> ask_struct P t i f tag rest
      | _ \<Rightarrow> answer (CStruct (type_name t) [])) h" if x: "r = Inr x" for x
  proof (cases "\<exists>u i f tag rest. x = (u, Some (i, f, tag), rest)")
    case True
    then obtain u i f tag rest where xi: "x = (u, Some (i, f, tag), rest)" by blast
    note f = first_field_of [OF r [unfolded x xi] all]
    show ?thesis using empty builds_union [OF assms fs, of i f rest] builds_struct [OF assms fs, of i f rest] f
      by (cases u) (simp_all add: xi)
  qed (use empty in \<open>auto split: prod.split option.split is_in_union.split\<close>)
qed

lemma builds_codec:
  assumes "t \<in> T"
  shows "builds t (ask_codec P t tag) h"
proof -
  have "builds t (ask_plain P t) h"
    unfolding ask_plain_def link
    by (cases "kind (g_types G) t") (simp_all add: yields_answer well_built_def fitting_def fit_prim fit_error builds_fields [OF assms])
  then show ?thesis
    unfolding ask_codec_def link
    by (cases "kind (g_types G) t") (auto simp del: yields.simps simp: well_built_marshaler
        intro: builds_containers [OF assms] yields_answer)
qed

end
text \<open>The types that are asked for may be any at all; nothing else of an environment matters.\<close>

definition bare_env :: "platform \<Rightarrow> genv" where
  "bare_env P = \<lparr>g_maxInt = p_maxInt P, g_maxAlloc = 2 ^ 48, g_types = p_types P, g_nounsafe = p_nounsafe P, g_real = Map.empty,
     g_marshal = \<lambda>_ _. EDone None, g_unmarshal = \<lambda>_ v. DDone None v, g_foreign_enc = \<lambda>_ _. EDone None,
     g_foreign_dec = \<lambda>_ v. DDone None v\<rparr>"

interpretation any_types: fit_platform P "bare_env P" UNIV for P
  by unfold_locales (simp_all add: bare_env_def closed_types_def)

lemma struct_union_arms:
  assumes "makeStructCodec P gc t cr = Ret (CUnion name sw body cases dflt sk, cr')"
  shows "arms_ok body cases dflt"
  using run_yields [OF any_types.builds_fields [OF UNIV_I], of gc P t cr] assms
  by (auto simp: run_fields well_built_def)

end
