(* ===== verification/Registry.thy ===== *)
theory Registry
  imports CoderTerm TypedRequests Decoder
begin

text \<open>
  The coder as a state machine: its registry after any history of requests and
  registrations, and the properties of the codecs it hands out.
\<close>

section \<open>Reachable registries\<close>

text \<open>Requests are for types of the program: \<open>go_type\<close> says that every name is declared.\<close>

inductive coder_step :: "platform \<Rightarrow> coder \<Rightarrow> coder \<Rightarrow> bool" for P :: platform where
  step_get: "go_type (p_types P) t \<Longrightarrow> getCodec n P t tag cr = Ret (c, cr') \<Longrightarrow> coder_step P cr cr'"
| step_base: "go_type (p_types P) t \<Longrightarrow> getBaseCodec n P t cr = Ret (c, cr') \<Longrightarrow> coder_step P cr cr'"
| step_register: "RegisterCodecReflect P t (CForeign k) cr = Ret ((), cr') \<Longrightarrow> coder_step P cr cr'"

inductive_cases coder_stepE: "coder_step P cr cr'"

definition later :: "platform \<Rightarrow> coder \<Rightarrow> coder \<Rightarrow> bool" where
  "later P = (coder_step P)\<^sup>*\<^sup>*"

definition reachable :: "platform \<Rightarrow> coder \<Rightarrow> bool" where
  "reachable P cr \<longleftrightarrow> later P NewCoder cr"

lemma NewCoder_ok: "coder_ok {} NewCoder"
  by (simp add: coder_ok_def NewCoder_def entries_below_def)

lemma register_effect:
  assumes "RegisterCodecReflect P t (CForeign k) cr = Ret ((), cr')"
  shows "cr' = cr \<or> cr_known cr (t, []) = None \<and> cr' = cr\<lparr>cr_known := (cr_known cr)((t, []) \<mapsto> CForeign k)\<rparr>"
  using assms by (auto simp: RegisterCodecReflect_def split: if_splits option.splits)

lemma step_ok:
  assumes "coder_step P cr cr'" and "coder_ok {} cr"
  shows "coder_ok {} cr' \<and> extends cr cr'"
  using assms(1)
proof (cases rule: coder_step.cases)
  case (step_get n t tag c)
  from keeps_okD [OF getCodec_ok assms(2) step_get(2)] show ?thesis by simp
next
  case (step_base n t c)
  from keeps_okD [OF getBaseCodec_ok assms(2) step_base(2)] show ?thesis by simp
next
  case (step_register t k)
  from register_effect [OF step_register] show ?thesis
  proof
    assume "cr_known cr (t, []) = None \<and> cr' = cr\<lparr>cr_known := (cr_known cr)((t, []) \<mapsto> CForeign k)\<rparr>"
    then show ?thesis using assms(2)
      by (auto simp: coder_ok_def extends_def map_le_def intro!: entries_below_upd)
  qed (use assms(2) in simp)
qed

lemma later_ok: "later P cr cr' \<Longrightarrow> coder_ok {} cr \<Longrightarrow> coder_ok {} cr' \<and> extends cr cr'"
  unfolding later_def
proof (induction rule: rtranclp_induct)
  case (step b c)
  then show ?case using step_ok [of P b c] extends_trans [of cr b c] by simp
qed simp

lemma reachable_ok: "reachable P cr \<Longrightarrow> coder_ok {} cr"
  using later_ok NewCoder_ok by (auto simp: reachable_def)

lemma ok_resolved: "coder_ok {} cr \<Longrightarrow> resolved_env (cr_real cr)"
  by (auto simp: coder_ok_def resolved_env_def entries_below_def)

section \<open>Requests\<close>

lemma toXCodec_xCodec: "xCodec P (toXCodec P c t)"
  by (simp add: xCodec_def toXCodec_def)

lemma getBaseCodec_get: "cr_base cr t = None \<Longrightarrow> getBaseCodec n P t cr = getCodec (Suc n) P t [] cr"
  by (simp add: getBaseCodec_def getNewCodec_def ByteString_def Let_def split: option.split)

lemma unat_cap_max: "unat (cap_max P m) = min (unat m) (p_maxInt P)"
proof (cases "unat m > p_maxInt P")
  case True
  have "unat m < 2 ^ 32" using unsigned_less [of m, where ?'a = nat] by simp
  with True have "unat (word_of_nat (p_maxInt P) :: u32) = p_maxInt P" by (simp add: unat_of_nat)
  with True show ?thesis by (simp add: cap_max_def)
qed (simp add: cap_max_def)

lemma new_known:
  "getNewCodec P gc xt tag cr = Ret (c, cr') \<Longrightarrow> cr_known cr' xt = Some c \<and> xCodec P c"
  by (cases "tag_Empty tag")
    (auto simp: getNewCodec_def Let_def as_xCodec_def toXCodec_xCodec split: option.splits if_splits)

lemma get_known: "getCodec n P t tag cr = Ret (c, cr') \<Longrightarrow> cr_known cr' (t, tag) = Some c \<and> xCodec P c"
  by (cases n) (auto simp: ByteString_def as_xCodec_def Let_def dest: new_known split: option.splits if_splits)

section \<open>Properties\<close>

text \<open>
  C14. Construction ends: in every registry that requests and registrations can lead to, a
  request for any type and tag, recursive types included, is answered within a nesting
  depth that only depends on the type, the declared types and the tag.
\<close>

theorem construction_ends:
  assumes "reachable P cr" and "build_bound P t tag \<le> n"
  shows "getCodec n P t tag cr \<noteq> Spent"
  using getCodec_returns [OF reachable_ok [OF assms(1)] assms(2)] .

theorem construction_ends_witness:
  "\<exists>n. getCodec n \<lparr>p_maxInt = 2 ^ 63 - 1, p_types = [(''T'', GPtr (GNamed ''T''), False)], p_nounsafe = True\<rparr>
     (GNamed ''T'') [] NewCoder \<noteq> Spent"
  using construction_ends [of _ NewCoder, OF _ order_refl] by (auto simp: reachable_def later_def)

text \<open>
  C15. No codec that a coder hands out ever waits for a deferred codec: with the registry
  of that moment, or any later one, encoding never blocks, on any encoder, and decoding
  never blocks on a decoder whose calls return. (Within one goroutine; recursion through
  types under construction is complete when the request returns.)
\<close>

theorem codecs_never_wait:
  assumes "reachable P cr" and "getCodec n P t tag cr = Ret (c, cr1)" and "later P cr1 cr2"
    and "g_real G = cr_real cr2" and "\<And>k d. D k d \<noteq> Blocked"
  shows "enc m G E c v e \<noteq> Blocked \<and> dec m G D c v d \<noteq> Blocked"
proof -
  note k = keeps_okD [OF getCodec_ok reachable_ok [OF assms(1)] assms(2)]
  have l: "coder_ok {} cr2" "extends cr1 cr2" using later_ok [OF assms(3) k(1)] by auto
  have "codec_ids c \<subseteq> dom (g_real G)"
    using k(3) l assms(4) by (auto simp: coder_ok_def extends_def)
  moreover have "resolved_env (g_real G)" using ok_resolved [OF l(1)] assms(4) by simp
  ultimately show ?thesis
    using enc_runs [of G c m E v e] dec_runs [of G D c m v d] assms(5) by (simp add: runs_def)
qed

theorem codecs_never_wait_witness:
  "\<exists>c cr'. getCodec 2 \<lparr>p_maxInt = 2 ^ 63 - 1, p_types = [(''T'', GPtr (GNamed ''T''), False)], p_nounsafe = True\<rparr>
     (GNamed ''T'') [] NewCoder = Ret (c, cr') \<and> c = CPtr (CDeferred 0) (GNamed ''T'')
   \<and> (\<forall>m. enc m \<lparr>g_maxInt = 2 ^ 63 - 1, g_maxAlloc = 2 ^ 48, g_types = [], g_nounsafe = True, g_real = cr_real cr', g_marshal = \<lambda>_ _. EDone None,
       g_unmarshal = \<lambda>_ v. DDone None v, g_foreign_enc = \<lambda>_ _. EDone None, g_foreign_dec = \<lambda>_ v. DDone None v\<rparr>
       (\<lambda>_ s. (None, s)) c (VPtr (Some (VPtr None))) () \<noteq> Blocked)"
proof -
  let ?P = "\<lparr>p_maxInt = 2 ^ 63 - 1, p_types = [(''T'', GPtr (GNamed ''T''), False)], p_nounsafe = True\<rparr>"
  have "\<exists>cr'. getCodec 2 ?P (GNamed ''T'') [] NewCoder = Ret (CPtr (CDeferred 0) (GNamed ''T''), cr')"
    by (simp add: numeral_2_eq_2 NewCoder_def getNewCodec_def buildCodec_def makePtrCodec_def kind_def
        under_def reflect_elem_def elem_type_def next_tag_def ByteString_def as_xCodec_def xCodec_def
        toXCodec_def Let_def kind_defs)
  then obtain cr' where g: "getCodec 2 ?P (GNamed ''T'') [] NewCoder = Ret (CPtr (CDeferred 0) (GNamed ''T''), cr')"
    by blast
  have "reachable ?P NewCoder" "later ?P cr' cr'" by (auto simp: reachable_def later_def)
  from codecs_never_wait [OF this(1) g this(2), of "\<lparr>g_maxInt = 2 ^ 63 - 1, g_maxAlloc = 2 ^ 48, g_types = [], g_nounsafe = True, g_real = cr_real cr',
       g_marshal = \<lambda>_ _. EDone None, g_unmarshal = \<lambda>_ v. DDone None v, g_foreign_enc = \<lambda>_ _. EDone None,
       g_foreign_dec = \<lambda>_ v. DDone None v\<rparr>" "(\<lambda>_ _. Panic '''') :: unit decoder_fn" _ "(\<lambda>_ s. (None, s)) :: unit encoder_fn"]
  show ?thesis using g by auto
qed

text \<open>
  C16. Memoisation: repeating a request returns the codec that the first request built and
  leaves the registry alone, immediately and after any later requests and registrations.
\<close>

theorem repeated_request:
  assumes "reachable P cr" and "getCodec n P t tag cr = Ret (c, cr1)" and "later P cr1 cr2"
  shows "getCodec (Suc m) P t tag cr2 = Ret (c, cr2)"
proof -
  have "coder_ok {} cr1" using keeps_okD [OF getCodec_ok reachable_ok [OF assms(1)] assms(2)] by simp
  then have "cr_known cr1 \<subseteq>\<^sub>m cr_known cr2" using later_ok [OF assms(3)] by (simp add: extends_def)
  with get_known [OF assms(2)] have "cr_known cr2 (t, tag) = Some c" "xCodec P c"
    unfolding map_le_def by (metis domI)+
  then show ?thesis by (simp add: ByteString_def as_xCodec_def)
qed

theorem repeated_request_witness:
  "\<exists>c cr'. getCodec 1 \<lparr>p_maxInt = 2 ^ 63 - 1, p_types = [], p_nounsafe = False\<rparr> GUint16 [] NewCoder = Ret (c, cr')
     \<and> c = CUint16
     \<and> getCodec 5 \<lparr>p_maxInt = 2 ^ 63 - 1, p_types = [], p_nounsafe = False\<rparr> GUint16 [] cr' = Ret (CUint16, cr')"
proof -
  let ?P = "\<lparr>p_maxInt = 2 ^ 63 - 1, p_types = [], p_nounsafe = False\<rparr>"
  have "\<exists>cr'. getCodec 1 ?P GUint16 [] NewCoder = Ret (CUint16, cr')"
    by (simp add: NewCoder_def getNewCodec_def buildCodec_def plain_codec_def kind_def under_def
        implements_marshaler_def ByteString_def toXCodec_def Let_def kind_defs tag_Empty_def)
  then obtain cr' where "getCodec 1 ?P GUint16 [] NewCoder = Ret (CUint16, cr')" by blast
  with repeated_request [OF _ this, of cr' 4] show ?thesis by (auto simp: reachable_def later_def)
qed

text \<open>
  C17. Registering a codec: it is refused (a panic) for kinds and primitive types on the two
  lists; accepted for an unknown type, from then on the \<open>nounsafe\<close> build uses it for that
  type; but the default build panics at the first use, because the registry stores the
  codec without wrapping it as an \<open>xCodec\<close>.
\<close>

theorem registered_codec:
  assumes "cr_known cr (t, []) = None"
  shows "if kind (p_types P) t \<in> prohibitedCustomCodecKinds \<or> t \<in> prohibitedPrimitives
    then \<exists>msg. RegisterCodecReflect P t (CForeign k) cr = Panic msg
    else \<exists>cr'. RegisterCodecReflect P t (CForeign k) cr = Ret ((), cr')
      \<and> (if p_nounsafe P then getCodec (Suc n) P t [] cr' = Ret (CForeign k, cr')
         else \<exists>msg. getCodec (Suc n) P t [] cr' = Panic msg)"
  using assms by (simp add: RegisterCodecReflect_def ByteString_def as_xCodec_def xCodec_def)

theorem registered_codec_witness:
  "\<exists>cr'. RegisterCodecReflect \<lparr>p_maxInt = 2 ^ 63 - 1, p_types = [(''T'', GStruct [], False)], p_nounsafe = False\<rparr>
       (GNamed ''T'') (CForeign 0) NewCoder = Ret ((), cr')
     \<and> (\<exists>msg. getCodec 1 \<lparr>p_maxInt = 2 ^ 63 - 1, p_types = [(''T'', GStruct [], False)], p_nounsafe = False\<rparr>
          (GNamed ''T'') [] cr' = Panic msg)"
  using registered_codec [of NewCoder "GNamed ''T''"
      "\<lparr>p_maxInt = 2 ^ 63 - 1, p_types = [(''T'', GStruct [], False)], p_nounsafe = False\<rparr>" 0 0]
  by (simp add: NewCoder_def kind_def under_def prohibitedCustomCodecKinds_def prohibitedPrimitives_def)

text \<open>
  C18. In every union codec built from a struct type, the case values are pairwise
  different, and every switch value selects either the undefined arm or an arm that has a
  codec, for the struct field of that index: encoding and decoding a union never index out
  of range and never call a nil codec.
\<close>

theorem union_arms_defined:
  assumes "makeStructCodec P gc t cr = Ret (CUnion name sw body cases dflt sk, cr')"
    and "union_case cases dflt w = i" and "i \<noteq> -1"
  shows "distinct (map fst cases) \<and> (\<exists>f. body_field body i = Ret f \<and> int (f_index f) = i)"
proof -
  note arms = struct_union_arms [OF assms(1)]
  have "0 \<le> i \<and> arm_ok body (nat i)"
    using arms assms(2,3) unfolding arms_ok_def union_case_def
    by (auto split: option.splits dest!: map_of_SomeD)
  then show ?thesis using arms by (auto simp: arm_ok_def body_field_def arms_ok_def)
qed

theorem union_arms_defined_witness:
  "\<exists>name sw body cases dflt sk cr'.
     makeStructCodec \<lparr>p_maxInt = 2 ^ 63 - 1, p_types = [], p_nounsafe = True\<rparr> (\<lambda>t tag cr. Ret (CBool, cr))
       (GStruct [GField ''A'' GBool ''union:switch'', GField ''B'' GBool ''union:true'']) NewCoder
       = Ret (CUnion name sw body cases dflt sk, cr')
     \<and> (\<exists>f. body_field body (union_case cases dflt 1) = Ret f \<and> f_index f = 1)"
proof -
  let ?P = "\<lparr>p_maxInt = 2 ^ 63 - 1, p_types = [], p_nounsafe = True\<rparr>"
  let ?t = "GStruct [GField ''A'' GBool ''union:switch'', GField ''B'' GBool ''union:true'']"
  have ts: "TrimSpace ''union:switch'' = ''union:switch''" "TrimSpace ''union:true'' = ''union:true''"
    by (rule trim_first_last; simp add: ascii_not_space)+
  have "tag_Trimmed [UnionSwitch] = Some [UnionSwitch]"
    using Trimmed_rep [of "[Flag UnionSwitch]"] by (simp add: trim_entries_Cons kind_defs)
  then have p1: "ParseStructTag [] GBool ''union:switch'' MaybeInUnion = Ret (Inr [UnionSwitch], InUnion)"
    by (simp add: ParseStructTag_def ParseTag_def ts parse_union_def validForUnionSwitch_def kind_def under_def
        tag_Append_def UnionSwitch_def)
  have "tag_Trimmed (tag_bytes [Multi UnionCases [1]]) = Some (tag_bytes [Multi UnionCases [1]])"
    using Trimmed_rep [of "[Multi UnionCases [1]]"] by (simp add: trim_entries_Cons kind_defs)
  then have p2: "ParseStructTag [] GBool ''union:true'' InUnion = Ret (Inr (tag_bytes [Multi UnionCases [1]]), InUnion)"
    by (simp add: ParseStructTag_def ParseTag_def ts parse_union_def Append_mk_entry mk_entry_kinds)
  have rv: "range_values (tag_bytes [Multi UnionCases [1]]) = Some [1]"
    by code_simp
  have nt: "tag_Next (tag_bytes [Multi UnionCases [1]]) = Some []" "tag_Next [UnionSwitch] = Some []"
    "tag_Kind (tag_bytes [Multi UnionCases [1]]) = UnionCases" "tag_Kind [UnionSwitch] = UnionSwitch"
    "UnionCases \<noteq> Skip" "UnionSwitch \<noteq> Skip" "UnionSwitch \<noteq> UnionCases" by code_simp+
  have off: "p_offset \<lparr>p_maxInt = M, p_types = [], p_nounsafe = True\<rparr> ?t 0 = 0"
    "p_offset \<lparr>p_maxInt = M, p_types = [], p_nounsafe = True\<rparr> ?t (Suc 0) = Suc 0" for M
    by (simp_all add: p_offset_def field_offset_def struct_fields_def under_def align_up_def Let_def)
  have "makeStructCodec ?P (\<lambda>t tag cr. Ret (CBool, cr)) ?t NewCoder
    = Ret (CUnion '''' (Field 0 0 CBool ''A'') [None, Some (Field 1 1 CBool ''B'')] [(1, 1)] (-1) SwitchBool, NewCoder)"
    by (simp add: makeStructCodec_def struct_fields_def under_def p1 make_union_def union_switch_kind_def
        kind_def next_tag_def nt makeField_def off p2 rv type_name_def numeral_2_eq_2 Let_def
        del: tag_bytes_simps entry_bytes.simps)
  from union_arms_defined [OF this refl, of 1] this show ?thesis
    by (auto simp: union_case_def)
qed

lemma doc_tags:
  "tag_Kind (tag_bytes [Single MaxLen m, Flag Opaque]) = MaxLen"
  "tag_Next (tag_bytes [Single MaxLen m, Flag Opaque]) = Some (tag_bytes [Flag Opaque])"
  "OnlyValue (tag_bytes [Single MaxLen m, Flag Opaque]) = Some m"
  "tag_Kind (tag_bytes [Flag Noop, Flag Opaque]) = Noop"
  "tag_Next (tag_bytes [Flag Noop, Flag Opaque]) = Some (tag_bytes [Flag Opaque])"
  "tag_Kind (tag_bytes [Flag Opaque]) = Opaque"
  "tag_Kind (tag_bytes [Single MaxLen m]) = MaxLen" "tag_Next (tag_bytes [Single MaxLen m]) = Some []"
  "OnlyValue (tag_bytes [Single MaxLen m]) = Some m"
  "tag_Kind (tag_bytes [Single Len m]) = Len" "tag_Next (tag_bytes [Single Len m]) = Some []"
  "OnlyValue (tag_bytes [Single Len m]) = Some m"
  using Kind_rep [of "Single MaxLen m" "tag_bytes [Flag Opaque]"] Next_rep [of "Single MaxLen m" "tag_bytes [Flag Opaque]"]
    OnlyValue_rep [of MaxLen m "tag_bytes [Flag Opaque]"] Kind_rep [of "Flag Noop" "tag_bytes [Flag Opaque]"]
    Next_rep [of "Flag Noop" "tag_bytes [Flag Opaque]"] Kind_rep [of "Flag Opaque" "[]"]
    Kind_rep [of "Single MaxLen m" "[]"] Next_rep [of "Single MaxLen m" "[]"] OnlyValue_rep [of MaxLen m "[]"]
    Kind_rep [of "Single Len m" "[]"] Next_rep [of "Single Len m" "[]"] OnlyValue_rep [of Len m "[]"]
  by (simp_all del: entry_bytes.simps) (simp_all add: kind_defs del: entry_bytes.simps)

lemma doc_kinds: "MaxLen \<noteq> Opt" "Noop \<noteq> Opt" "Len \<noteq> Opt" "MaxLen \<noteq> Len" "Noop \<noteq> Len" "Noop \<noteq> MaxLen"
  "tag_Empty []"
  by (simp_all add: kind_defs tag_Empty_def)

text \<open>
  C19. The table of the package documentation, from tags to codecs: byte slices with
  \<open>maxlen:N/opaque\<close> and \<open>opaque\<close>, byte arrays with \<open>opaque\<close>, strings with \<open>len:N\<close>, \<open>maxlen:N\<close>
  and no tag. A maximum beyond the platform's largest int is capped for decoding but kept
  for error messages; a fixed length beyond it is an error.
\<close>

theorem documented_codecs:
  assumes "kind (p_types P) t = KSlice" and "kind (p_types P) s = KString"
    and "kind (p_types P) a = KArray" and "array_len (p_types P) a = Some l"
  shows "buildCodec P gc t (tag_bytes [Single MaxLen m, Flag Opaque]) cr
      = Ret (COpaqueSlice t (min (unat m) (p_maxInt P)) m, cr)
    \<and> buildCodec P gc t (tag_bytes [Flag Noop, Flag Opaque]) cr
      = Ret (COpaqueSlice t (min (unat no_max) (p_maxInt P)) no_max, cr)
    \<and> buildCodec P gc a (tag_bytes [Flag Noop, Flag Opaque]) cr = Ret (COpaqueArray a l, cr)
    \<and> buildCodec P gc s (tag_bytes [Single Len m]) cr
      = Ret (if unat m \<le> p_maxInt P then CFixedString (unat m) else CError (LengthError (ucast m) (ucast m)), cr)
    \<and> buildCodec P gc s (tag_bytes [Single MaxLen m]) cr
      = Ret (CVarString (min (unat m) (p_maxInt P)) m, cr)
    \<and> buildCodec P gc s [] cr = Ret (CVarString (min (unat no_max) (p_maxInt P)) no_max, cr)"
  using assms
  by (simp add: buildCodec_def doc_tags doc_kinds makeSliceCodec_def container_max_def next_tag_def
      only_value_def unat_cap_max makeArrayCodec_def reflect_len_def makeStringCodec_def Let_def not_less
      del: tag_bytes_simps)

theorem documented_codecs_witness:
  "buildCodec \<lparr>p_maxInt = 2 ^ 31 - 1, p_types = [], p_nounsafe = True\<rparr> (\<lambda>t tag cr. Ret (CBool, cr)) (GSlice GUint8)
     (tag_bytes [Single MaxLen 0xC0000000, Flag Opaque]) NewCoder
   = Ret (COpaqueSlice (GSlice GUint8) (2 ^ 31 - 1) 0xC0000000, NewCoder)"
  using documented_codecs [of "\<lparr>p_maxInt = 2 ^ 31 - 1, p_types = [], p_nounsafe = True\<rparr>" "GSlice GUint8"
      GString "GArray 4 GUint8" 4 "\<lambda>t tag cr. Ret (CBool, cr)" "0xC0000000" NewCoder]
  by (simp add: kind_def under_def array_len_def del: tag_bytes_simps)

end
