(* ===== verification/FitsCoder.thy ===== *)
theory FitsCoder
  imports Registry TypeSafe
begin

text \<open>
  The codecs a coder builds fit the types they are built for: kinds, element types, field
  indices and offsets, element sizes, arms of unions. \<open>fit_step\<close> is the contract of a
  construction step, with \<open>dt\<close> the type of each deferred codec, which grows as deferred
  codecs are made; the locale \<open>fit_getter\<close> is what builders rely on, and \<open>getCodec\<close>
  provides it.
\<close>

section \<open>Steps that build fitting codecs\<close>

lemma xCodec_callable: "g_nounsafe G = p_nounsafe P \<Longrightarrow> xCodec P c = callable G c"
  by (simp add: xCodec_def callable_def)

lemma toXCodec_callable: "g_nounsafe G = p_nounsafe P \<Longrightarrow> callable G (toXCodec P c t)"
  by (simp add: toXCodec_def callable_def)

lemma fits_agree:
  "fits G dt t c \<Longrightarrow> \<forall>k\<in>codec_ids c. dt' k = dt k \<Longrightarrow> fits G dt' t c"
proof (induction rule: fits.induct)
  case (fit_prim t c)
  then show ?case by (intro fits.fit_prim)
next
  case (fit_deferred k)
  then show ?case using fits.fit_deferred [of G dt' k] by simp
next
  case (fit_struct t fs fds name)
  then show ?case by (intro fits.fit_struct) auto
next
  case (fit_union t fs body cases dflt sw sk name)
  have "\<forall>k\<in>codec_ids (f_codec f). dt' k = dt k" if "f \<in> insert sw {f. Some f \<in> set body}" for f
    using fit_union(5) that by auto
  then show ?case using fit_union(1-4) by (intro fits.fit_union) blast+
qed (auto intro: fit_rules)

definition typed_coder :: "genv \<Rightarrow> (nat \<Rightarrow> gtype) \<Rightarrow> coder \<Rightarrow> bool" where
  "typed_coder G dt cr \<longleftrightarrow> (\<forall>t tag c. cr_known cr (t, tag) = Some c \<longrightarrow> fits G dt t c)
     \<and> (\<forall>t c. cr_base cr t = Some c \<longrightarrow> fits G dt t c)
     \<and> (\<forall>k c. cr_real cr k = Some c \<longrightarrow> fits G dt (dt k) c \<and> callable G c \<and> go_type (g_types G) (dt k))"

definition agree :: "nat \<Rightarrow> (nat \<Rightarrow> gtype) \<Rightarrow> (nat \<Rightarrow> gtype) \<Rightarrow> bool" where
  "agree N dt dt' \<longleftrightarrow> (\<forall>k<N. dt' k = dt k)"

definition fit_step :: "genv \<Rightarrow> ((nat \<Rightarrow> gtype) \<Rightarrow> 'a \<Rightarrow> bool) \<Rightarrow> 'a build \<Rightarrow> bool" where
  "fit_step G S b \<longleftrightarrow> (\<forall>U dt cr x cr'. coder_ok U cr \<longrightarrow> typed_coder G dt cr \<longrightarrow> b cr = Ret (x, cr') \<longrightarrow>
     (\<exists>dt'. agree (cr_next cr) dt dt' \<and> typed_coder G dt' cr' \<and> S dt' x))"

lemma fit_stepD:
  assumes "fit_step G S b" "coder_ok U cr" "typed_coder G dt cr" "b cr = Ret (x, cr')"
  obtains dt' where "agree (cr_next cr) dt dt'" "typed_coder G dt' cr'" "S dt' x"
  using assms unfolding fit_step_def by blast

text \<open>Changes of the registry.\<close>

lemma fits_grow: "fits G dt t c \<Longrightarrow> codec_ids c \<subseteq> {..<N} \<Longrightarrow> agree N dt dt' \<Longrightarrow> fits G dt' t c"
  by (erule fits_agree) (auto simp: agree_def)

lemma typed_coderD:
  assumes "typed_coder G dt cr"
  shows "cr_known cr xt = Some c \<Longrightarrow> fits G dt (fst xt) c" "cr_base cr t = Some c \<Longrightarrow> fits G dt t c"
    "cr_real cr k = Some c \<Longrightarrow> fits G dt (dt k) c"
  using assms by (cases xt; simp add: typed_coder_def)+

lemma typed_upd:
  assumes "typed_coder G dt cr" "fits G dt t c"
  shows "typed_coder G dt (cr\<lparr>cr_known := (cr_known cr)((t, tag) \<mapsto> c)\<rparr>)"
    and "typed_coder G dt (cr\<lparr>cr_base := (cr_base cr)(t \<mapsto> c)\<rparr>)"
    and "dt dc = t \<Longrightarrow> callable G c \<Longrightarrow> go_type (g_types G) t \<Longrightarrow> typed_coder G dt (cr\<lparr>cr_real := (cr_real cr)(dc \<mapsto> c)\<rparr>)"
  using assms by (simp_all add: typed_coder_def)

lemma typed_open:
  assumes "typed_coder G dt cr" and "N = cr_next cr" and "entries_below N (cr_known cr)" "entries_below N (cr_base cr)"
    "entries_below N (cr_real cr)" "N \<notin> dom (cr_real cr)"
  shows "typed_coder G (dt(N := t)) (cr\<lparr>cr_next := Suc N, cr_known := (cr_known cr)((t, tag) \<mapsto> CDeferred N)\<rparr>)"
proof -
  have same: "fits G (dt(N := t)) u c" if "fits G dt u c" "m x = Some c" "entries_below N m" for u c x and m :: "'k \<Rightarrow> codec option"
    by (rule fits_grow [OF that(1) entries_belowD [OF that(3,2)]]) (simp add: agree_def)
  have "fits G (dt(N := t)) ((dt(N := t)) k) c \<and> callable G c \<and> go_type (g_types G) ((dt(N := t)) k)"
    if "cr_real cr k = Some c" for k c
    using assms(1,6) that same [OF _ that assms(5), of "dt k"] by (cases "k = N") (auto simp: typed_coder_def)
  then show ?thesis
    using assms(1) same [OF _ _ assms(3)] same [OF _ _ assms(4)] fit_deferred [of G "dt(N := t)" N]
    by (simp add: typed_coder_def)
qed

section \<open>The builders\<close>

text \<open>Answers that refer to known deferred codecs keep fitting.\<close>

definition answers_below :: "nat \<Rightarrow> answers \<Rightarrow> bool" where
  "answers_below N h \<longleftrightarrow> (\<forall>(u, c)\<in>h. codec_ids c \<subseteq> {..<N})"

lemma answers_below_insert [simp]:
  "answers_below N (insert (u, c) h) \<longleftrightarrow> codec_ids c \<subseteq> {..<N} \<and> answers_below N h"
  by (simp add: answers_below_def)

lemma answers_grow:
  assumes "answers_fit G dt h" "answers_below N h" "agree N dt dt'"
  shows "answers_fit G dt' h"
proof -
  have "fits G dt' u c \<and> callable G c" if h: "(u, c) \<in> h" for u c
    using bspec [OF assms(1) [unfolded answers_fit_def] h] bspec [OF assms(2) [unfolded answers_below_def] h]
      fits_grow [OF _ _ assms(3)] by simp
  then show ?thesis by (auto simp: answers_fit_def)
qed

lemma answers_below_mono: "answers_below N h \<Longrightarrow> N \<le> N' \<Longrightarrow> answers_below N' h"
  unfolding answers_below_def by fastforce

lemma agree_trans: "agree N dt dt' \<Longrightarrow> agree N' dt' dt'' \<Longrightarrow> N \<le> N' \<Longrightarrow> agree N dt dt''"
  by (simp add: agree_def)

lemma go_types_closed: "go_env G \<Longrightarrow> closed_types G (Collect (go_type G))"
  unfolding closed_types_def using go_parts by blast

locale fit_getter = codec_getter P gc + fit_platform P G "Collect (go_type (g_types G))"
  for P :: platform and gc :: get_codec and G :: genv +
  assumes env: "go_env (g_types G)" and build: "g_nounsafe G = p_nounsafe P"
    and get_callable: "gc t tag cr = Ret (c, cr') \<Longrightarrow> callable G c"
    and get_fits: "go_type (g_types G) t \<Longrightarrow> fit_step G (\<lambda>dt c. fits G dt t c) (gc t tag)"
begin

lemma run_fits:
  "yields (Collect (go_type (g_types G))) S r h \<Longrightarrow> coder_ok U cr \<Longrightarrow> typed_coder G dt cr \<Longrightarrow>
     answers_fit G dt h \<Longrightarrow> answers_below (cr_next cr) h \<Longrightarrow> run gc r cr = Ret (x, cr') \<Longrightarrow>
     \<exists>dt' h'. agree (cr_next cr) dt dt' \<and> typed_coder G dt' cr' \<and> answers_fit G dt' h' \<and> S h' x"
proof (induction r arbitrary: h cr dt)
  case (Now m)
  then show ?case by (cases m) (auto simp: agree_def)
next
  case (Ask t tag k)
  obtain c cr1 where 1: "gc t tag cr = Ret (c, cr1)" and 2: "run gc (k c) cr1 = Ret (x, cr')"
    using Ask.prems(6) by auto
  note g = keeps_okD [OF get_ok Ask.prems(2) 1]
  have t: "go_type (g_types G) t" and k: "yields (Collect (go_type (g_types G))) S (k c) (insert (t, c) h)"
    using Ask.prems(1) by auto
  have N: "cr_next cr \<le> cr_next cr1" using g(2) by (simp add: extends_def)
  from fit_stepD [OF get_fits [OF t] Ask.prems(2,3) 1] obtain dt1 where
    d1: "agree (cr_next cr) dt dt1" "typed_coder G dt1 cr1" "fits G dt1 t c" .
  have "answers_fit G dt1 (insert (t, c) h)"
    using d1(3) get_callable [OF 1] answers_grow [OF Ask.prems(4,5) d1(1)] by simp
  moreover have "answers_below (cr_next cr1) (insert (t, c) h)"
    using g(3) answers_below_mono [OF Ask.prems(5) N] by simp
  ultimately obtain dt2 h2 where "agree (cr_next cr1) dt1 dt2" "typed_coder G dt2 cr'" "answers_fit G dt2 h2" "S h2 x"
    using Ask.IH [OF _ k g(1) d1(2) _ _ 2] by blast
  then show ?case using agree_trans [OF d1(1) _ N] by blast
qed

lemma build_fits:
  assumes "go_type (g_types G) t"
  shows "fit_step G (\<lambda>dt c. fits G dt t c) (buildCodec P gc t tag)"
  unfolding fit_step_def run_build [symmetric]
proof (intro allI impI)
  fix U dt cr c cr'
  assume ok: "coder_ok U cr" "typed_coder G dt cr" and r: "run gc (ask_codec P t tag) cr = Ret (c, cr')"
  have "yields (Collect (go_type (g_types G))) (well_built G t) (ask_codec P t tag) {}"
    using builds_codec assms by simp
  from run_fits [OF this ok _ _ r] show "\<exists>dt'. agree (cr_next cr) dt dt' \<and> typed_coder G dt' cr' \<and> fits G dt' t c"
    by (auto simp: answers_fit_def answers_below_def well_built_def fitting_def)
qed

lemma new_fits:
  assumes t: "go_type (g_types G) t"
  shows "fit_step G (\<lambda>dt c. fits G dt t c) (getNewCodec P gc (t, tag) tag)"
  unfolding fit_step_def
proof (intro allI impI)
  fix U dt cr c cr'
  assume ok: "coder_ok U cr" and ty: "typed_coder G dt cr" and r: "getNewCodec P gc (t, tag) tag cr = Ret (c, cr')"
  let ?xt = "(t, tag)"
  show "\<exists>dt'. agree (cr_next cr) dt dt' \<and> typed_coder G dt' cr' \<and> fits G dt' t c"
  proof (cases "cr_known cr ?xt")
    case (Some c0)
    with r have "c = c0" "cr' = cr" by (auto simp: getNewCodec_def as_xCodec_def split: if_splits)
    with ty Some show ?thesis by (intro exI [of _ dt]) (auto simp: agree_def typed_coder_def)
  next
    case None
    let ?dc = "cr_next cr"
    let ?cr1 = "cr\<lparr>cr_next := Suc ?dc, cr_known := (cr_known cr)(?xt \<mapsto> CDeferred ?dc)\<rparr>"
    let ?dt1 = "dt(?dc := t)"
    have "?dc \<notin> dom (cr_real cr)" using ok by (auto simp: coder_ok_def)
    then have ty1: "typed_coder G ?dt1 ?cr1"
      using typed_open [OF ty refl] ok by (simp add: coder_ok_def)
    from r None obtain c0 cr2 where b: "buildCodec P gc t tag ?cr1 = Ret (c0, cr2)"
      and c: "c = toXCodec P c0 t"
      and cr': "cr_known cr' = (cr_known cr2)(?xt \<mapsto> c)"
        "cr_base cr' = (if tag_Empty tag then (cr_base cr2)(t \<mapsto> c) else cr_base cr2)"
        "cr_real cr' = (cr_real cr2)(?dc \<mapsto> c)"
      by (cases "tag_Empty tag") (auto simp: getNewCodec_def Let_def)
    from fit_stepD [OF build_fits [OF t] publish_ok [OF ok None] ty1 b] obtain dt2 where
      d2: "agree (Suc ?dc) ?dt1 dt2" "typed_coder G dt2 cr2" "fits G dt2 t c0" by auto
    have fc: "fits G dt2 t c" using d2(3) by (auto simp: c toXCodec_def intro: fit_wrapper)
    have "dt2 ?dc = t" using d2(1) by (simp add: agree_def)
    then have "typed_coder G dt2 cr'"
      using d2(2) fc t toXCodec_callable [OF build, of c0 t] by (auto simp: typed_coder_def cr' c)
    moreover have "agree ?dc dt dt2" using d2(1) by (auto simp: agree_def)
    ultimately show ?thesis using fc by blast
  qed
qed

end

section \<open>Every codec fits\<close>

definition same_platform :: "platform \<Rightarrow> genv \<Rightarrow> bool" where
  "same_platform P G \<longleftrightarrow> p_types P = g_types G \<and> p_maxInt P = g_maxInt G \<and> go_env (g_types G)
     \<and> g_nounsafe G = p_nounsafe P"

lemma getCodec_callable:
  assumes "g_nounsafe G = p_nounsafe P" "getCodec n P t tag cr = Ret (c, cr')"
  shows "callable G c"
  using assms(2) by (cases n)
    (auto simp: as_xCodec_def xCodec_callable [OF assms(1)] getNewCodec_def Let_def
      toXCodec_callable [OF assms(1)] split: option.splits if_splits)

lemma getCodec_fits:
  assumes "same_platform P G"
  shows "go_type (g_types G) t \<Longrightarrow> fit_step G (\<lambda>dt c. fits G dt t c) (getCodec n P t tag)"
proof (induction n arbitrary: t tag)
  case 0
  then show ?case by (simp add: fit_step_def)
next
  case (Suc n)
  have fg: "fit_getter P (getCodec n P) G"
    using assms Suc.IH getCodec_ok getCodec_callable go_types_closed
    by unfold_locales (auto simp: same_platform_def)
  note new = fit_getter.new_fits [OF fg Suc.prems]
  show ?case unfolding fit_step_def
  proof (intro allI impI)
    fix U dt cr c cr'
    assume ok: "coder_ok U cr" and ty: "typed_coder G dt cr" and r: "getCodec (Suc n) P t tag cr = Ret (c, cr')"
    show "\<exists>dt'. agree (cr_next cr) dt dt' \<and> typed_coder G dt' cr' \<and> fits G dt' t c"
    proof (cases "cr_known cr (t, tag)")
      case (Some c0)
      with r have "c = c0" "cr' = cr" by (auto simp: as_xCodec_def ByteString_def split: if_splits)
      with ty Some show ?thesis by (intro exI [of _ dt]) (auto simp: agree_def typed_coder_def)
    next
      case None
      with r have "getNewCodec P (getCodec n P) (t, tag) tag cr = Ret (c, cr')" by (simp add: ByteString_def)
      from fit_stepD [OF new ok ty this] show ?thesis by blast
    qed
  qed
qed

text \<open>Well-formed platforms as a type, for which \<open>getCodec\<close> is a fitting getter.\<close>

typedef go_platform = "{(P, G). same_platform P G}"
  by (rule exI [of _ "(\<lparr>p_maxInt = 2 ^ 63 - 1, p_types = [], p_nounsafe = False\<rparr>,
      \<lparr>g_maxInt = 2 ^ 63 - 1, g_maxAlloc = 2 ^ 48, g_types = [], g_nounsafe = False, g_real = Map.empty, g_marshal = \<lambda>_ _. EDone None,
        g_unmarshal = \<lambda>_ v. DDone None v, g_foreign_enc = \<lambda>_ _. EDone None, g_foreign_dec = \<lambda>_ v. DDone None v\<rparr>)"])
    (simp add: same_platform_def go_env_def)

definition the_platform :: "go_platform \<Rightarrow> platform" where "the_platform Q = fst (Rep_go_platform Q)"
definition the_genv :: "go_platform \<Rightarrow> genv" where "the_genv Q = snd (Rep_go_platform Q)"

lemma the_platform_ok: "same_platform (the_platform Q) (the_genv Q)"
  using Rep_go_platform [of Q] by (auto simp: the_platform_def the_genv_def)

lemma platform_obtain:
  assumes "same_platform P G"
  obtains Q where "the_platform Q = P" "the_genv Q = G"
  using Abs_go_platform_inverse [of "(P, G)"] assms that [of "Abs_go_platform (P, G)"]
  by (simp add: the_platform_def the_genv_def)

interpretation fitter: fit_getter "the_platform Q" "getCodec n (the_platform Q)" "the_genv Q" for Q n
  using the_platform_ok [of Q] getCodec_fits [OF the_platform_ok] getCodec_ok getCodec_callable go_types_closed
  by unfold_locales (auto simp: same_platform_def)

lemma getBaseCodec_fits:
  assumes "same_platform P G" "go_type (g_types G) t"
  shows "fit_step G (\<lambda>dt c. fits G dt t c) (getBaseCodec n P t)"
  unfolding fit_step_def
proof (intro allI impI)
  fix U dt cr c cr'
  assume ok: "coder_ok U cr" and ty: "typed_coder G dt cr" and r: "getBaseCodec n P t cr = Ret (c, cr')"
  obtain Q where Q: "the_platform Q = P" "the_genv Q = G" using assms(1) by (rule platform_obtain)
  show "\<exists>dt'. agree (cr_next cr) dt dt' \<and> typed_coder G dt' cr' \<and> fits G dt' t c"
  proof (cases "cr_base cr t")
    case (Some c0)
    with r have "c = c0" "cr' = cr" by (auto simp: as_xCodec_def getBaseCodec_def split: if_splits)
    with ty Some show ?thesis by (intro exI [of _ dt]) (auto simp: agree_def typed_coder_def)
  next
    case None
    with r have "getNewCodec P (getCodec n P) (t, []) [] cr = Ret (c, cr')" by (simp add: getBaseCodec_def)
    from fit_stepD [OF fitter.new_fits [of Q, unfolded Q, OF assms(2)] ok ty this] show ?thesis by blast
  qed
qed

lemma step_typed:
  assumes "same_platform P G" "coder_step P cr cr'" "coder_ok {} cr" "typed_coder G dt cr"
  shows "\<exists>dt'. agree (cr_next cr) dt dt' \<and> typed_coder G dt' cr'"
  using assms(2)
proof (cases rule: coder_step.cases)
  case (step_get t n tag c)
  then have "go_type (g_types G) t" using assms(1) by (simp add: same_platform_def)
  from fit_stepD [OF getCodec_fits [OF assms(1) this] assms(3,4) step_get(2)] show ?thesis by blast
next
  case (step_base t n c)
  then have "go_type (g_types G) t" using assms(1) by (simp add: same_platform_def)
  from fit_stepD [OF getBaseCodec_fits [OF assms(1) this] assms(3,4) step_base(2)] show ?thesis by blast
next
  case (step_register t k)
  from register_effect [OF step_register] have "typed_coder G dt cr'"
    using assms(4) fit_foreign by (auto simp: typed_coder_def split: if_splits)
  then show ?thesis by (auto simp: agree_def)
qed

lemma later_typed:
  assumes "same_platform P G"
  shows "later P cr cr' \<Longrightarrow> coder_ok {} cr \<Longrightarrow> typed_coder G dt cr \<Longrightarrow>
    \<exists>dt'. agree (cr_next cr) dt dt' \<and> typed_coder G dt' cr'"
  unfolding later_def
proof (induction rule: rtranclp_induct)
  case base
  then show ?case by (auto simp: agree_def)
next
  case (step b c)
  then obtain dt1 where 1: "agree (cr_next cr) dt dt1" "typed_coder G dt1 b" by blast
  have b: "coder_ok {} b" "extends cr b" using later_ok [of P cr b] step(1,4) by (auto simp: later_def)
  from step_typed [OF assms step(2) b(1) 1(2)] obtain dt2 where
    "agree (cr_next b) dt1 dt2" "typed_coder G dt2 c" by blast
  moreover from this(1) have "agree (cr_next cr) dt dt2" using 1(1) b(2) by (simp add: agree_def extends_def)
  ultimately show ?case by blast
qed

lemma reachable_typed:
  assumes "same_platform P G" "reachable P cr"
  shows "\<exists>dt. typed_coder G dt cr"
proof -
  have "typed_coder G dt NewCoder" for dt by (simp add: typed_coder_def NewCoder_def)
  then show ?thesis using later_typed [OF assms(1) assms(2) [unfolded reachable_def] NewCoder_ok] by blast
qed

text \<open>A codec that was handed out fits in every later registry.\<close>

lemma answered_fits:
  assumes "same_platform P G" "reachable P cr" "later P cr1 cr2"
    and b: "keeps_ok codec_ids b" "fit_step G (\<lambda>dt c. fits G dt t c) b" "b cr = Ret (c, cr1)"
  shows "\<exists>dt. typed_coder G dt cr2 \<and> fits G dt t c"
proof -
  note ok = reachable_ok [OF assms(2)]
  obtain dt where "typed_coder G dt cr" using reachable_typed [OF assms(1,2)] by blast
  from fit_stepD [OF b(2) ok this b(3)] obtain dt1 where 1: "typed_coder G dt1 cr1" "fits G dt1 t c" by blast
  note k = keeps_okD [OF b(1) ok b(3)]
  from later_typed [OF assms(1,3) k(1) 1(1)] obtain dt2 where "agree (cr_next cr1) dt1 dt2" "typed_coder G dt2 cr2" by blast
  then show ?thesis using fits_grow [OF 1(2) k(3)] by blast
qed

lemma typed_env_of:
  assumes "same_platform P G" "typed_coder G dt cr" "g_real G = cr_real cr" "\<forall>c\<in>ran (cr_real cr). plain G c"
  shows "typed_env G dt"
  using assms unfolding typed_env_def typed_coder_def same_platform_def by (auto simp: ran_def)

section \<open>Example\<close>

text \<open>A recursive type, the environment of its coder, and the coder after one request.\<close>

definition list_platform :: platform where
  "list_platform = \<lparr>p_maxInt = 2 ^ 63 - 1, p_types = [(''T'', GPtr (GNamed ''T''), False)], p_nounsafe = True\<rparr>"

definition list_coder :: coder where
  "list_coder = \<lparr>cr_base = [GNamed ''T'' \<mapsto> CPtr (CDeferred 0) (GNamed ''T'')],
     cr_known = [(GNamed ''T'', []) \<mapsto> CPtr (CDeferred 0) (GNamed ''T'')], cr_next = 1,
     cr_real = [0 \<mapsto> CPtr (CDeferred 0) (GNamed ''T'')]\<rparr>"

definition list_env :: genv where
  "list_env = \<lparr>g_maxInt = 2 ^ 63 - 1, g_maxAlloc = 2 ^ 48, g_types = [(''T'', GPtr (GNamed ''T''), False)], g_nounsafe = True,
     g_real = cr_real list_coder, g_marshal = \<lambda>_ _. EDone None, g_unmarshal = \<lambda>_ v. DDone None v, g_foreign_enc = \<lambda>_ _. EDone None,
     g_foreign_dec = \<lambda>_ v. DDone None v\<rparr>"

lemma list_request:
  "getCodec 2 list_platform (GNamed ''T'') [] NewCoder = Ret (CPtr (CDeferred 0) (GNamed ''T''), list_coder)"
  by (simp add: numeral_2_eq_2 NewCoder_def getNewCodec_def buildCodec_def makePtrCodec_def kind_def
      under_def reflect_elem_def elem_type_def next_tag_def ByteString_def as_xCodec_def xCodec_def
      toXCodec_def Let_def kind_defs list_platform_def list_coder_def tag_Empty_def)

lemma list_types:
  "same_platform list_platform list_env" "go_type (g_types list_env) (GNamed ''T'')"
  "reachable list_platform NewCoder" "later list_platform list_coder list_coder"
proof -
  have "solid 0 [(''T'', GPtr (GNamed ''T''), False)] (GPtr (GNamed ''T''))" by simp
  then have "solid_type [(''T'', GPtr (GNamed ''T''), False)] (GPtr (GNamed ''T''))"
    unfolding solid_type_def by blast
  then show "same_platform list_platform list_env"
    by (simp add: same_platform_def list_platform_def list_env_def go_env_def go_type_def type_name_def)
qed (simp_all add: list_env_def go_type_def reachable_def later_def)

end
