(* ===== verification/Goroutines.thy ===== *)
theory Goroutines
  imports Registry
begin

text \<open>
  Several goroutines on one coder. Each access to the two \<open>sync.Map\<close>s and each operation on
  a deferred codec (\<open>real\<close>, an \<open>atomic.Value\<close>, and \<open>wg\<close>, a \<open>sync.WaitGroup\<close>) is one atomic
  step, and the steps of the goroutines interleave in any order. A goroutine is what it does
  next, with the constructions it has begun around that, innermost first.
\<close>

section \<open>Goroutines\<close>

text \<open>A construction in progress: the key and tag it is for and its deferred codec.\<close>

record job =
  j_key :: xtype
  j_tag :: xdrtag
  j_dc :: nat

text \<open>
  The next step: \<open>LoadBase\<close> in \<open>getBaseCodec\<close>, \<open>LoadKnown\<close> in \<open>getCodec\<close>, \<open>LoadOrStore\<close> to \<open>SignalDone\<close>
  in \<open>getNewCodec\<close> (\<open>StoreReal\<close> and \<open>SignalDone\<close> are \<open>deferredCodec.resolve\<close>), \<open>Registering\<close> in
  \<open>RegisterCodecReflect\<close>, \<open>CallDeferred\<close> and \<open>Waiting\<close> in the methods \<open>Encode\<close> and \<open>Decode\<close> of a
  deferred codec. \<open>Returned\<close>: a codec goes to the caller. \<open>Crashed\<close> lists the constructions
  that a panic has unwound.
\<close>

datatype control =
    LoadBase gtype
  | LoadKnown gtype xdrtag
  | LoadOrStore xtype xdrtag
  | Constructing job "codec request"
  | StoreBase job codec
  | StoreReal job codec
  | SignalDone job codec
  | Returned codec
  | Registering gtype codec
  | CallDeferred nat
  | Waiting nat
  | Finished
  | Crashed "job list" string

type_synonym frame = "job \<times> (codec \<Rightarrow> codec request)"

record goroutine =
  g_next :: control
  g_frames :: "frame list"

definition unwind :: "frame list \<Rightarrow> string \<Rightarrow> goroutine" where
  "unwind fs msg = \<lparr>g_next = Crashed (List.map fst fs) msg, g_frames = []\<rparr>"

text \<open>The type assertion on what a map or \<open>real\<close> held.\<close>

definition hand_over :: "platform \<Rightarrow> codec \<Rightarrow> frame list \<Rightarrow> goroutine" where
  "hand_over P c fs =
     (if xCodec P c then \<lparr>g_next = Returned c, g_frames = fs\<rparr>
      else unwind fs ''interface conversion: missing method encodeUnsafe'')"

text \<open>What the goroutines share: the registry, and the deferred codecs with \<open>wg.Done\<close> called.\<close>

record shared =
  sh_coder :: coder
  sh_done :: "nat set"

definition set_coder :: "coder \<Rightarrow> shared \<Rightarrow> shared" where
  "set_coder cr sh = sh\<lparr>sh_coder := cr\<rparr>"

text \<open>
  \<open>codec_special.go\<close>: a new deferred codec, and the two halves of \<open>resolve\<close>. The deferred codec
  of a goroutine that then finds the key taken is dropped unseen, so it gets no number here.
\<close>

definition newDeferredCodec :: "coder \<Rightarrow> nat \<times> coder" where
  [simp]: "newDeferredCodec cr = (cr_next cr, cr\<lparr>cr_next := Suc (cr_next cr)\<rparr>)"

definition resolve_store :: "nat \<Rightarrow> codec \<Rightarrow> coder \<Rightarrow> coder" where
  [simp]: "resolve_store dc cc cr = cr\<lparr>cr_real := (cr_real cr)(dc \<mapsto> cc)\<rparr>"

definition resolve_done :: "nat \<Rightarrow> shared \<Rightarrow> shared outcome" where
  "resolve_done dc sh =
     (if dc \<in> sh_done sh then Panic ''sync: negative WaitGroup counter''
      else Ret (sh\<lparr>sh_done := insert dc (sh_done sh)\<rparr>))"

section \<open>Steps\<close>

text \<open>\<open>getBaseCodec\<close> and \<open>getCodec\<close> up to the call of \<open>getNewCodec\<close>.\<close>

definition load_base :: "platform \<Rightarrow> gtype \<Rightarrow> frame list \<Rightarrow> shared \<Rightarrow> goroutine" where
  [simp]: "load_base P t fs sh = (case cr_base (sh_coder sh) t of
      Some c \<Rightarrow> hand_over P c fs
    | None \<Rightarrow> \<lparr>g_next = LoadOrStore (t, []) [], g_frames = fs\<rparr>)"

definition load_known :: "platform \<Rightarrow> gtype \<Rightarrow> xdrtag \<Rightarrow> frame list \<Rightarrow> shared \<Rightarrow> goroutine" where
  [simp]: "load_known P t tag fs sh = (let xt = (t, ByteString tag) in
     case cr_known (sh_coder sh) xt of
      Some c \<Rightarrow> hand_over P c fs
    | None \<Rightarrow> \<lparr>g_next = LoadOrStore xt tag, g_frames = fs\<rparr>)"

text \<open>\<open>getNewCodec\<close>: \<open>LoadOrStore\<close>, then the two \<open>Store\<close>s of the finished codec.\<close>

definition load_or_store :: "platform \<Rightarrow> xtype \<Rightarrow> xdrtag \<Rightarrow> frame list \<Rightarrow> shared \<Rightarrow> goroutine \<times> shared" where
  [simp]: "load_or_store P xt tag fs sh = (case cr_known (sh_coder sh) xt of
      Some c \<Rightarrow> (hand_over P c fs, sh)
    | None \<Rightarrow> (case newDeferredCodec (sh_coder sh) of (dc, cr) \<Rightarrow>
        (\<lparr>g_next = Constructing \<lparr>j_key = xt, j_tag = tag, j_dc = dc\<rparr> (ask_codec P (fst xt) tag), g_frames = fs\<rparr>,
          set_coder (cr\<lparr>cr_known := (cr_known cr)(xt \<mapsto> CDeferred dc)\<rparr>) sh)))"

definition store_known :: "job \<Rightarrow> codec \<Rightarrow> coder \<Rightarrow> coder" where
  [simp]: "store_known j cc cr = cr\<lparr>cr_known := (cr_known cr)(j_key j \<mapsto> cc)\<rparr>"

definition store_base :: "job \<Rightarrow> codec \<Rightarrow> shared \<Rightarrow> shared" where
  [simp]: "store_base j cc sh = (let cr = sh_coder sh in
     if tag_Empty (j_tag j) then set_coder (cr\<lparr>cr_base := (cr_base cr)(fst (j_key j) \<mapsto> cc)\<rparr>) sh else sh)"

text \<open>The methods \<open>Encode\<close> and \<open>Decode\<close> of a deferred codec: load \<open>real\<close>, or wait and load it then.\<close>

definition call_deferred :: "platform \<Rightarrow> nat \<Rightarrow> frame list \<Rightarrow> shared \<Rightarrow> goroutine" where
  [simp]: "call_deferred P dc fs sh = (case cr_real (sh_coder sh) dc of
      Some c \<Rightarrow> hand_over P c fs
    | None \<Rightarrow> \<lparr>g_next = Waiting dc, g_frames = fs\<rparr>)"

definition wait_deferred :: "platform \<Rightarrow> nat \<Rightarrow> frame list \<Rightarrow> shared \<Rightarrow> goroutine option" where
  [simp]: "wait_deferred P dc fs sh = (if dc \<in> sh_done sh then Some (case cr_real (sh_coder sh) dc of
      Some c \<Rightarrow> hand_over P c fs
    | None \<Rightarrow> unwind fs ''interface conversion: interface is nil'') else None)"

text \<open>One step of a goroutine; \<open>None\<close>: it is at its end, or waits.\<close>

fun act :: "platform \<Rightarrow> control \<Rightarrow> frame list \<Rightarrow> shared \<Rightarrow> (goroutine \<times> shared) option" where
  "act P (LoadBase t) fs sh = Some (load_base P t fs sh, sh)"
| "act P (LoadKnown t tag) fs sh = Some (load_known P t tag fs sh, sh)"
| "act P (LoadOrStore xt tag) fs sh = Some (load_or_store P xt tag fs sh)"
| "act P (Constructing j (Ask t tag k)) fs sh = Some (\<lparr>g_next = LoadKnown t tag, g_frames = (j, k) # fs\<rparr>, sh)"
| "act P (Constructing j (Now m)) fs sh = (case m of
      Ret c \<Rightarrow> let cc = toXCodec P c (fst (j_key j)) in
        Some (\<lparr>g_next = StoreBase j cc, g_frames = fs\<rparr>, set_coder (store_known j cc (sh_coder sh)) sh)
    | Panic msg \<Rightarrow> Some (\<lparr>g_next = Crashed (j # List.map fst fs) msg, g_frames = []\<rparr>, sh)
    | _ \<Rightarrow> None)"
| "act P (StoreBase j cc) fs sh = Some (\<lparr>g_next = StoreReal j cc, g_frames = fs\<rparr>, store_base j cc sh)"
| "act P (StoreReal j cc) fs sh =
     Some (\<lparr>g_next = SignalDone j cc, g_frames = fs\<rparr>, set_coder (resolve_store (j_dc j) cc (sh_coder sh)) sh)"
| "act P (SignalDone j cc) fs sh = (case resolve_done (j_dc j) sh of
      Ret sh' \<Rightarrow> Some (\<lparr>g_next = Returned cc, g_frames = fs\<rparr>, sh')
    | Panic msg \<Rightarrow> Some (unwind fs msg, sh)
    | _ \<Rightarrow> None)"
| "act P (Returned c) ((j, k) # fs) sh = Some (\<lparr>g_next = Constructing j (k c), g_frames = fs\<rparr>, sh)"
| "act P (Returned c) [] sh = None"
| "act P (Registering t c) fs sh = (case RegisterCodecReflect P t c (sh_coder sh) of
      Ret (_, cr) \<Rightarrow> Some (\<lparr>g_next = Finished, g_frames = fs\<rparr>, set_coder cr sh)
    | Panic msg \<Rightarrow> Some (unwind fs msg, sh)
    | _ \<Rightarrow> None)"
| "act P (CallDeferred dc) fs sh = Some (call_deferred P dc fs sh, sh)"
| "act P (Waiting dc) fs sh = map_option (\<lambda>g. (g, sh)) (wait_deferred P dc fs sh)"
| "act P Finished fs sh = None"
| "act P (Crashed js msg) fs sh = None"

lemma act_SignalDone [simp]:
  "act P (SignalDone j cc) fs sh = Some (
     if j_dc j \<in> sh_done sh then (unwind fs ''sync: negative WaitGroup counter'', sh)
     else (\<lparr>g_next = Returned cc, g_frames = fs\<rparr>, sh\<lparr>sh_done := insert (j_dc j) (sh_done sh)\<rparr>))"
  by (simp add: resolve_done_def)

declare act.simps(8) [simp del]

text \<open>
  The goroutines of a program take turns, and new ones may start: with a request for a type of
  the program, a registration or a call of a codec they have been given.
\<close>

record system =
  s_shared :: shared
  s_go :: "goroutine list"

definition starts :: "platform \<Rightarrow> system \<Rightarrow> control \<Rightarrow> bool" where
  "starts P s a = (case a of
      LoadBase t \<Rightarrow> go_type (p_types P) t | LoadKnown t tag \<Rightarrow> go_type (p_types P) t
    | Registering t (CForeign k) \<Rightarrow> True
    | CallDeferred dc \<Rightarrow> dc < cr_next (sh_coder (s_shared s))
    | _ \<Rightarrow> False)"

inductive go_step :: "platform \<Rightarrow> system \<Rightarrow> system \<Rightarrow> bool" for P :: platform where
  go_act: "i < length gs \<Longrightarrow> act P (g_next (gs ! i)) (g_frames (gs ! i)) sh = Some (g', sh') \<Longrightarrow>
     go_step P \<lparr>s_shared = sh, s_go = gs\<rparr> \<lparr>s_shared = sh', s_go = gs[i := g']\<rparr>"

inductive sys_step :: "platform \<Rightarrow> system \<Rightarrow> system \<Rightarrow> bool" for P :: platform where
  sys_go: "go_step P s s' \<Longrightarrow> sys_step P s s'"
| sys_start: "starts P s a \<Longrightarrow>
     sys_step P s (s\<lparr>s_go := s_go s @ [\<lparr>g_next = a, g_frames = []\<rparr>]\<rparr>)"

definition fresh_system :: system where
  "fresh_system = \<lparr>s_shared = \<lparr>sh_coder = NewCoder, sh_done = {}\<rparr>, s_go = []\<rparr>"

definition sys_later :: "platform \<Rightarrow> system \<Rightarrow> system \<Rightarrow> bool" where
  "sys_later P = (sys_step P)\<^sup>*\<^sup>*"

definition sys_reachable :: "platform \<Rightarrow> system \<Rightarrow> bool" where
  "sys_reachable P s \<longleftrightarrow> sys_later P fresh_system s"

end
