(* ===== verification/GoInv.thy ===== *)
theory GoInv
  imports Goroutines
begin

text \<open>
  The invariant of a coder that several goroutines use: every deferred codec is finished, or
  belongs to exactly one construction, and no two constructions are for the same key.
\<close>

section \<open>Who owns which deferred codec\<close>

text \<open>How far a construction has come: nothing stored, the codec stored, \<open>real\<close> stored.\<close>

datatype stage = Unpublished | Published codec | RealSet codec

type_synonym claim = "job \<times> stage"

definition unpublished :: "job list \<Rightarrow> claim list" where
  "unpublished js = List.map (\<lambda>j. (j, Unpublished)) js"

fun own :: "control \<Rightarrow> claim list" where
  "own (Constructing j r) = [(j, Unpublished)]"
| "own (StoreBase j c) = [(j, Published c)]"
| "own (StoreReal j c) = [(j, Published c)]"
| "own (SignalDone j c) = [(j, RealSet c)]"
| "own (Crashed js msg) = unpublished js"
| "own _ = []"

definition claims :: "goroutine \<Rightarrow> claim list" where
  "claims g = own (g_next g) @ unpublished (List.map fst (g_frames g))"

definition all_claims :: "goroutine list \<Rightarrow> claim list" where
  "all_claims gs = concat (List.map claims gs)"

definition claim_dc :: "claim \<Rightarrow> nat" where "claim_dc x = j_dc (fst x)"
definition claim_key :: "claim \<Rightarrow> xtype" where "claim_key x = j_key (fst x)"

text \<open>What the tables hold for a construction of each stage: at its key, and in \<open>real\<close>.\<close>

fun stage_ok :: "nat \<Rightarrow> stage \<Rightarrow> codec option \<Rightarrow> codec option \<Rightarrow> bool" where
  "stage_ok dc Unpublished known real \<longleftrightarrow> known = Some (CDeferred dc) \<and> real = None"
| "stage_ok dc (Published c) known real \<longleftrightarrow> known = Some c \<and> real = None"
| "stage_ok dc (RealSet c) known real \<longleftrightarrow> known = Some c \<and> real = Some c"

definition claim_ok :: "shared \<Rightarrow> claim \<Rightarrow> bool" where
  "claim_ok sh x \<longleftrightarrow> (let cr = sh_coder sh; dc = claim_dc x in
     dc < cr_next cr \<and> dc \<notin> sh_done sh \<and> stage_ok dc (snd x) (cr_known cr (claim_key x)) (cr_real cr dc))"

definition claims_ok :: "shared \<Rightarrow> claim list \<Rightarrow> bool" where
  "claims_ok sh xs \<longleftrightarrow> (\<forall>x\<in>set xs. claim_ok sh x) \<and> distinct (List.map claim_dc xs) \<and> distinct (List.map claim_key xs)
     \<and> {..<cr_next (sh_coder sh)} \<subseteq> sh_done sh \<union> claim_dc ` set xs"

definition shared_ok :: "shared \<Rightarrow> bool" where
  "shared_ok sh \<longleftrightarrow> (let cr = sh_coder sh; N = cr_next cr in
     entries_below N (cr_base cr) \<and> entries_below N (cr_known cr) \<and> entries_below N (cr_real cr)
     \<and> sh_done sh \<subseteq> dom (cr_real cr) \<and> dom (cr_real cr) \<subseteq> {..<N})"

text \<open>The codecs a goroutine holds only refer to deferred codecs below \<open>N\<close>.\<close>

fun next_ok :: "nat \<Rightarrow> control \<Rightarrow> bool" where
  "next_ok N (Constructing j r) \<longleftrightarrow> gives codec_ids r {..<N}"
| "next_ok N (StoreBase j c) \<longleftrightarrow> codec_ids c \<subseteq> {..<N}"
| "next_ok N (StoreReal j c) \<longleftrightarrow> codec_ids c \<subseteq> {..<N}"
| "next_ok N (SignalDone j c) \<longleftrightarrow> codec_ids c \<subseteq> {..<N}"
| "next_ok N (Returned c) \<longleftrightarrow> codec_ids c \<subseteq> {..<N}"
| "next_ok N (Registering t c) \<longleftrightarrow> codec_ids c = {}"
| "next_ok N (CallDeferred dc) \<longleftrightarrow> dc < N"
| "next_ok N (Waiting dc) \<longleftrightarrow> dc < N"
| "next_ok N _ \<longleftrightarrow> True"

definition frame_ok :: "nat \<Rightarrow> frame \<Rightarrow> bool" where
  "frame_ok N f \<longleftrightarrow> (\<forall>c. gives codec_ids (snd f c) ({..<N} \<union> codec_ids c))"

text \<open>Only a request for a codec is made inside a construction.\<close>

fun nested :: "control \<Rightarrow> bool" where
  "nested (LoadKnown t tag) = True"
| "nested (LoadOrStore xt tag) = True"
| "nested (Constructing j r) = True"
| "nested (StoreBase j c) = True"
| "nested (StoreReal j c) = True"
| "nested (SignalDone j c) = True"
| "nested (Returned c) = True"
| "nested _ = False"

definition go_ok :: "nat \<Rightarrow> goroutine \<Rightarrow> bool" where
  "go_ok N g \<longleftrightarrow> next_ok N (g_next g) \<and> (\<forall>f\<in>set (g_frames g). frame_ok N f)
     \<and> (nested (g_next g) \<or> g_frames g = [])"

definition sys_ok :: "system \<Rightarrow> bool" where
  "sys_ok s \<longleftrightarrow> (let sh = s_shared s in
     shared_ok sh \<and> claims_ok sh (all_claims (s_go s)) \<and> (\<forall>g\<in>set (s_go s). go_ok (cr_next (sh_coder sh)) g))"

section \<open>Growth\<close>

lemma next_ok_mono: "next_ok N a \<Longrightarrow> N \<le> N' \<Longrightarrow> next_ok N' a"
  by (cases a) (auto elim!: gives_mono)

lemma frame_ok_mono:
  assumes "frame_ok N f" "N \<le> N'"
  shows "frame_ok N' f"
  unfolding frame_ok_def
proof
  fix c
  have "gives codec_ids (snd f c) ({..<N} \<union> codec_ids c)" using assms(1) by (simp add: frame_ok_def)
  then show "gives codec_ids (snd f c) ({..<N'} \<union> codec_ids c)"
    by (rule gives_mono) (use assms(2) in auto)
qed

lemma go_ok_mono: "go_ok N g \<Longrightarrow> N \<le> N' \<Longrightarrow> go_ok N' g"
  by (auto simp: go_ok_def intro: next_ok_mono frame_ok_mono)

lemma all_claims_split:
  "i < length gs \<Longrightarrow> all_claims gs = all_claims (take i gs) @ claims (gs ! i) @ all_claims (drop (Suc i) gs)"
  "i < length gs \<Longrightarrow> all_claims (gs[i := g]) = all_claims (take i gs) @ claims g @ all_claims (drop (Suc i) gs)"
  by (simp add: all_claims_def, metis concat.simps(2) concat_append id_take_nth_drop list.simps(9) map_append)
    (simp add: all_claims_def upd_conv_take_nth_drop)

section \<open>Effects on the claims\<close>

text \<open>A claim at work, with all others around it.\<close>

lemma distinct_map_split:
  "distinct (List.map f (A @ x # B)) \<longleftrightarrow> (\<forall>y\<in>set A \<union> set B. f y \<noteq> f x) \<and> distinct (List.map f (A @ B))"
proof -
  have "f x \<notin> f ` S \<longleftrightarrow> (\<forall>y\<in>S. f y \<noteq> f x)" for S
    by (metis imageE imageI)
  then show ?thesis by (simp add: ball_Un) blast
qed

lemma claims_split:
  "claims_ok sh (A @ x # B) \<longleftrightarrow> claim_ok sh x \<and> (\<forall>y\<in>set A \<union> set B. claim_ok sh y \<and> claim_dc y \<noteq> claim_dc x \<and> claim_key y \<noteq> claim_key x)
     \<and> distinct (List.map claim_dc (A @ B)) \<and> distinct (List.map claim_key (A @ B))
     \<and> {..<cr_next (sh_coder sh)} \<subseteq> sh_done sh \<union> claim_dc ` set (A @ B) \<union> {claim_dc x}"
  unfolding claims_ok_def distinct_map_split by auto

lemma claim_simps [simp]: "claim_dc (j, st) = j_dc j" "claim_key (j, st) = j_key j"
  by (simp_all add: claim_dc_def claim_key_def)

lemma coder_simps [simp]: "sh_coder (set_coder cr sh) = cr" "sh_done (set_coder cr sh) = sh_done sh"
  by (simp_all add: set_coder_def)

lemma claim_okD:
  assumes "claim_ok sh x"
  shows "claim_dc x < cr_next (sh_coder sh)" "claim_dc x \<notin> sh_done sh" "cr_known (sh_coder sh) (claim_key x) \<noteq> None"
  using assms by (cases "snd x"; simp add: claim_ok_def Let_def)+

lemma claim_ok_frame:
  assumes "claim_ok sh x"
    and "cr_known (sh_coder sh') (claim_key x) = cr_known (sh_coder sh) (claim_key x)"
    and "cr_real (sh_coder sh') (claim_dc x) = cr_real (sh_coder sh) (claim_dc x)"
    and "claim_dc x \<notin> sh_done sh'" "cr_next (sh_coder sh) \<le> cr_next (sh_coder sh')"
  shows "claim_ok sh' x"
  using assms by (simp add: claim_ok_def Let_def)

lemma claims_same:
  assumes "claims_ok sh xs" "cr_known (sh_coder sh') = cr_known (sh_coder sh)" "cr_real (sh_coder sh') = cr_real (sh_coder sh)"
    "cr_next (sh_coder sh') = cr_next (sh_coder sh)" "sh_done sh' = sh_done sh"
  shows "claims_ok sh' xs"
  using assms by (simp add: claims_ok_def claim_ok_def Let_def)

lemma claims_open:
  assumes "claims_ok sh (A @ B)" and "cr_known (sh_coder sh) xt = None" and "shared_ok sh"
    and "cr = sh_coder sh" "j_key j = xt" "j_dc j = cr_next cr"
  shows "claims_ok (set_coder (cr\<lparr>cr_next := Suc (cr_next cr), cr_known := (cr_known cr)(xt \<mapsto> CDeferred (cr_next cr))\<rparr>) sh)
    (A @ (j, Unpublished) # B)"
proof -
  let ?sh = "set_coder (cr\<lparr>cr_next := Suc (cr_next cr), cr_known := (cr_known cr)(xt \<mapsto> CDeferred (cr_next cr))\<rparr>) sh"
  have ok: "claim_ok sh y" if "y \<in> set A \<union> set B" for y using that assms(1) by (auto simp: claims_ok_def)
  have "claim_ok ?sh y \<and> claim_dc y \<noteq> j_dc j \<and> claim_key y \<noteq> j_key j" if y: "y \<in> set A \<union> set B" for y
    using claim_okD [OF ok [OF y]] assms(2,4,5,6)
    by (auto intro!: claim_ok_frame [OF ok [OF y]])
  moreover have "claim_ok ?sh (j, Unpublished)"
    using assms(3-6) by (auto simp: claim_ok_def shared_ok_def Let_def domIff)
  ultimately show ?thesis
    using assms(1,4,6) unfolding claims_split by (auto simp: claims_ok_def less_Suc_eq)
qed

lemma claims_publish:
  assumes "claims_ok sh (A @ (j, Unpublished) # B)" and "cr = sh_coder sh"
  shows "claims_ok (set_coder (cr\<lparr>cr_known := (cr_known cr)(j_key j \<mapsto> c)\<rparr>) sh) (A @ (j, Published c) # B)"
  using assms unfolding claims_split
  by (auto simp: claim_ok_def Let_def)

lemma claims_real:
  assumes "claims_ok sh (A @ (j, Published c) # B)" and "cr = sh_coder sh"
  shows "claims_ok (set_coder (cr\<lparr>cr_real := (cr_real cr)(j_dc j \<mapsto> c)\<rparr>) sh) (A @ (j, RealSet c) # B)"
  using assms unfolding claims_split
  by (auto simp: claim_ok_def Let_def)

lemma claims_done:
  assumes "claims_ok sh (A @ (j, RealSet c) # B)"
  shows "claims_ok (sh\<lparr>sh_done := insert (j_dc j) (sh_done sh)\<rparr>) (A @ B)"
  using assms unfolding claims_split
  by (auto simp: claims_ok_def claim_ok_def Let_def)

lemma claims_register:
  assumes "claims_ok sh xs" and "cr_known (sh_coder sh) xt = None" and "cr = sh_coder sh"
  shows "claims_ok (set_coder (cr\<lparr>cr_known := (cr_known cr)(xt \<mapsto> c)\<rparr>) sh) xs"
proof -
  have "claim_ok (set_coder (cr\<lparr>cr_known := (cr_known cr)(xt \<mapsto> c)\<rparr>) sh) x" if x: "x \<in> set xs" for x
  proof -
    have ok: "claim_ok sh x" using x assms(1) by (simp add: claims_ok_def)
    show ?thesis
      by (rule claim_ok_frame [OF ok]) (use claim_okD [OF ok] assms(2,3) in auto)
  qed
  then show ?thesis using assms(1,3) by (simp add: claims_ok_def)
qed

section \<open>Every step keeps the invariant\<close>

lemma shared_okD:
  assumes "shared_ok sh"
  shows "cr_base (sh_coder sh) t = Some c \<Longrightarrow> codec_ids c \<subseteq> {..<cr_next (sh_coder sh)}"
    and "cr_known (sh_coder sh) xt = Some c \<Longrightarrow> codec_ids c \<subseteq> {..<cr_next (sh_coder sh)}"
    and "cr_real (sh_coder sh) dc = Some c \<Longrightarrow> codec_ids c \<subseteq> {..<cr_next (sh_coder sh)}"
    and "dc \<in> sh_done sh \<Longrightarrow> \<exists>c. cr_real (sh_coder sh) dc = Some c"
  using assms by (auto simp: shared_ok_def Let_def dest: entries_belowD)

lemma claims_rec:
  "claims \<lparr>g_next = a, g_frames = fs\<rparr> = own a @ unpublished (List.map fst fs)"
  "unpublished [] = []" "unpublished (j # js) = (j, Unpublished) # unpublished js"
  by (simp_all add: claims_def unpublished_def)

lemma go_rec: "go_ok N \<lparr>g_next = a, g_frames = fs\<rparr> \<longleftrightarrow> next_ok N a \<and> (\<forall>f\<in>set fs. frame_ok N f) \<and> (nested a \<or> fs = [])"
  by (simp add: go_ok_def)

lemma unwind_simps: "claims (unwind fs msg) = unpublished (List.map fst fs)" "go_ok N (unwind fs msg)"
  by (simp_all add: unwind_def claims_rec go_rec)

lemma hand_over_simps [simp]:
  "claims (hand_over P c fs) = unpublished (List.map fst fs)"
  "codec_ids c \<subseteq> {..<N} \<Longrightarrow> \<forall>f\<in>set fs. frame_ok N f \<Longrightarrow> go_ok N (hand_over P c fs)"
  by (auto simp: hand_over_def unwind_simps claims_rec go_rec)

lemma shared_ok_upd:
  assumes "shared_ok sh" "cr = sh_coder sh" "codec_ids c \<subseteq> {..<cr_next cr}"
  shows "shared_ok (set_coder (cr\<lparr>cr_known := (cr_known cr)(xt \<mapsto> c)\<rparr>) sh)"
    and "shared_ok (set_coder (cr\<lparr>cr_base := (cr_base cr)(t \<mapsto> c)\<rparr>) sh)"
    and "dc < cr_next cr \<Longrightarrow> shared_ok (set_coder (cr\<lparr>cr_real := (cr_real cr)(dc \<mapsto> c)\<rparr>) sh)"
  using assms by (simp_all add: shared_ok_def Let_def entries_below_upd subset_insertI2)

lemma shared_ok_open:
  assumes "shared_ok sh" "cr = sh_coder sh"
  shows "shared_ok (set_coder (cr\<lparr>cr_next := Suc (cr_next cr), cr_known := (cr_known cr)(xt \<mapsto> CDeferred (cr_next cr))\<rparr>) sh)"
  using assms by (auto simp: shared_ok_def Let_def entries_below_upd entries_below_Suc domIff less_SucI subset_eq)

text \<open>What a step must leave behind, for the goroutine that takes it and all others.\<close>

definition step_ok :: "claim list \<Rightarrow> claim list \<Rightarrow> shared \<Rightarrow> goroutine \<times> shared \<Rightarrow> bool" where
  "step_ok A B sh r = (case r of (g', sh') \<Rightarrow> shared_ok sh' \<and> claims_ok sh' (A @ claims g' @ B)
     \<and> go_ok (cr_next (sh_coder sh')) g' \<and> cr_next (sh_coder sh) \<le> cr_next (sh_coder sh'))"

lemma step_ok_same: "shared_ok sh \<Longrightarrow> claims_ok sh (A @ claims g @ B) \<Longrightarrow> go_ok (cr_next (sh_coder sh)) g \<Longrightarrow> step_ok A B sh (g, sh)"
  by (simp add: step_ok_def)

definition steps_ok :: "platform \<Rightarrow> control \<Rightarrow> frame list \<Rightarrow> shared \<Rightarrow> bool" where
  "steps_ok P a fs sh \<longleftrightarrow> (\<forall>A B r. act P a fs sh = Some r \<longrightarrow> shared_ok sh \<longrightarrow> claims_ok sh (A @ claims \<lparr>g_next = a, g_frames = fs\<rparr> @ B)
     \<longrightarrow> go_ok (cr_next (sh_coder sh)) \<lparr>g_next = a, g_frames = fs\<rparr> \<longrightarrow> step_ok A B sh r)"

lemma load_ok: "steps_ok P (LoadBase t) fs sh" "steps_ok P (LoadKnown t tag) fs sh"
  "steps_ok P (CallDeferred dc) fs sh" "steps_ok P (Waiting dc) fs sh"
  by (auto simp: steps_ok_def claims_rec go_rec unwind_simps Let_def intro!: step_ok_same dest: shared_okD
      split: option.splits if_splits)

lemma load_or_store_ok: "steps_ok P (LoadOrStore xt tag) fs sh"
proof (cases "cr_known (sh_coder sh) xt")
  case None
  let ?cr = "sh_coder sh"
  let ?j = "\<lparr>j_key = xt, j_tag = tag, j_dc = cr_next ?cr\<rparr>"
  let ?sh = "set_coder (?cr\<lparr>cr_next := Suc (cr_next ?cr), cr_known := (cr_known ?cr)(xt \<mapsto> CDeferred (cr_next ?cr))\<rparr>) sh"
  have "claims_ok ?sh (A @ (?j, Unpublished) # unpublished (List.map fst fs) @ B)"
    if "shared_ok sh" "claims_ok sh (A @ unpublished (List.map fst fs) @ B)" for A B
    by (rule claims_open) (use that None in auto)
  then show ?thesis
    using None shared_ok_open [OF _ refl, of sh xt] gives_codec [of P "fst xt" tag]
    by (auto simp: steps_ok_def step_ok_def claims_rec go_rec Let_def intro: frame_ok_mono)
qed (auto simp: steps_ok_def claims_rec go_rec Let_def intro!: step_ok_same dest: shared_okD)

lemma constructing_ok: "steps_ok P (Constructing j r) fs sh"
proof (cases r)
  case (Now m)
  show ?thesis
  proof (cases m)
    case (Ret c)
    then show ?thesis
      using shared_ok_upd(1) [of sh _ _ "j_key j"] claims_publish [of sh _ j "unpublished (List.map fst fs) @ _"]
      by (auto simp: steps_ok_def Now step_ok_def claims_rec go_rec Let_def)
  qed (auto simp: steps_ok_def Now claims_rec go_rec Let_def intro!: step_ok_same)
qed (auto simp: steps_ok_def claims_rec go_rec frame_ok_def intro!: step_ok_same)

lemma publish_steps_ok: "steps_ok P (StoreBase j cc) fs sh" "steps_ok P (StoreReal j cc) fs sh"
  "steps_ok P (SignalDone j cc) fs sh"
proof -
  show "steps_ok P (StoreBase j cc) fs sh"
    using shared_ok_upd(2) [of sh]
    by (auto simp: steps_ok_def step_ok_def claims_rec go_rec Let_def elim!: claims_same)
  have "j_dc j < cr_next (sh_coder sh)" if "claims_ok sh (A @ (j, st) # B)" for A B st
    using that by (auto simp: claims_split claim_ok_def Let_def)
  then show "steps_ok P (StoreReal j cc) fs sh"
    using shared_ok_upd(3) [of sh] claims_real [of sh _ j cc "unpublished (List.map fst fs) @ _"]
    by (auto simp: steps_ok_def step_ok_def claims_rec go_rec Let_def)
  have "j_dc j \<notin> sh_done sh \<and> cr_real (sh_coder sh) (j_dc j) = Some cc" if "claims_ok sh (A @ (j, RealSet cc) # B)" for A B
    using that by (auto simp: claims_split claim_ok_def Let_def)
  moreover have "shared_ok (sh\<lparr>sh_done := insert (j_dc j) (sh_done sh)\<rparr>)"
    if "shared_ok sh" "cr_real (sh_coder sh) (j_dc j) = Some cc"
    using that by (auto simp: shared_ok_def Let_def)
  ultimately show "steps_ok P (SignalDone j cc) fs sh"
    using claims_done [of sh _ j cc "unpublished (List.map fst fs) @ _"]
    by (auto simp: steps_ok_def step_ok_def claims_rec go_rec Let_def)
qed

lemma returned_ok: "steps_ok P (Returned c) fs sh"
proof (cases fs)
  case (Cons f rest)
  obtain j k where f: "f = (j, k)" by (cases f)
  have "gives codec_ids (k c) {..<N}" if "frame_ok N (j, k)" "codec_ids c \<subseteq> {..<N}" for N
    using that by (auto simp: frame_ok_def dest!: spec [of _ c] simp: Un_absorb2)
  then show ?thesis
    by (auto simp: steps_ok_def Cons f claims_rec go_rec intro!: step_ok_same)
qed (simp add: steps_ok_def)

lemma register_known:
  "RegisterCodecReflect P t c cr = Ret (u, cr') \<Longrightarrow> cr' = cr \<or> cr_known cr (t, []) = None \<and> cr' = cr\<lparr>cr_known := (cr_known cr)((t, []) \<mapsto> c)\<rparr>"
  by (auto simp: RegisterCodecReflect_def split: if_splits option.splits)

lemma registering_ok: "steps_ok P (Registering t c) fs sh"
proof (cases "RegisterCodecReflect P t c (sh_coder sh)")
  case (Ret x)
  obtain u cr' where x: "x = (u, cr')" by (cases x)
  from register_known [OF Ret [unfolded x]] Ret x show ?thesis
    using shared_ok_upd(1) [of sh _ c "(t, [])"] claims_register [of sh _ "(t, [])" _ c]
    by (auto simp: steps_ok_def step_ok_def claims_rec go_rec set_coder_def)
qed (auto simp: steps_ok_def claims_rec go_rec unwind_simps intro!: step_ok_same)

lemma act_ok:
  assumes "act P a fs sh = Some r" "shared_ok sh" "claims_ok sh (A @ claims \<lparr>g_next = a, g_frames = fs\<rparr> @ B)"
    "go_ok (cr_next (sh_coder sh)) \<lparr>g_next = a, g_frames = fs\<rparr>"
  shows "step_ok A B sh r"
proof -
  have "steps_ok P a fs sh"
    by (cases a) (simp_all only: load_ok load_or_store_ok constructing_ok publish_steps_ok returned_ok
        registering_ok, simp_all add: steps_ok_def)
  then show ?thesis using assms by (auto simp: steps_ok_def)
qed

lemma goroutine_eta: "\<lparr>g_next = g_next g, g_frames = g_frames g\<rparr> = g"
  by (cases g) simp

lemma fresh_system_ok: "sys_ok fresh_system"
  by (simp add: sys_ok_def fresh_system_def shared_ok_def claims_ok_def all_claims_def NewCoder_def entries_below_def)

lemma go_step_ok:
  assumes "go_step P s s'" and "sys_ok s"
  shows "sys_ok s'"
  using assms
proof (cases rule: go_step.cases)
  case (go_act i gs sh g' sh')
  let ?A = "all_claims (take i gs)" and ?B = "all_claims (drop (Suc i) gs)"
  have ok: "shared_ok sh" "claims_ok sh (?A @ claims (gs ! i) @ ?B)" "\<forall>g\<in>set gs. go_ok (cr_next (sh_coder sh)) g"
    using assms(2) go_act(1,3) by (auto simp: sys_ok_def Let_def all_claims_split(1) [symmetric])
  have "step_ok ?A ?B sh (g', sh')"
    using ok go_act(3) by (intro act_ok [OF go_act(4)]) (simp_all add: goroutine_eta)
  then have r: "shared_ok sh'" "claims_ok sh' (?A @ claims g' @ ?B)" "go_ok (cr_next (sh_coder sh')) g'"
    "cr_next (sh_coder sh) \<le> cr_next (sh_coder sh')"
    by (simp_all add: step_ok_def)
  have "\<forall>g\<in>set (gs[i := g']). go_ok (cr_next (sh_coder sh')) g"
    using ok(3) r(3,4) set_update_subset_insert [of gs i g'] by (auto intro: go_ok_mono)
  then show ?thesis
    using r(1,2) go_act(2,3) by (simp add: sys_ok_def Let_def all_claims_split(2))
qed

lemma sys_step_ok:
  assumes "sys_step P s s'" and "sys_ok s"
  shows "sys_ok s'"
  using assms(1)
proof (cases rule: sys_step.cases)
  case sys_go
  then show ?thesis using assms(2) by (rule go_step_ok)
next
  case (sys_start a)
  then have "own a = []" "next_ok (cr_next (sh_coder (s_shared s))) a"
    by (auto simp: starts_def split: control.splits codec.splits)
  then show ?thesis
    using assms(2) sys_start(1) by (auto simp: sys_ok_def Let_def all_claims_def claims_rec go_rec)
qed

lemma sys_later_ok: "sys_later P s s' \<Longrightarrow> sys_ok s \<Longrightarrow> sys_ok s'"
  unfolding sys_later_def by (induction rule: rtranclp_induct) (auto intro: sys_step_ok)

lemma sys_reachable_ok: "sys_reachable P s \<Longrightarrow> sys_ok s"
  unfolding sys_reachable_def by (rule sys_later_ok [OF _ fresh_system_ok])

end
