(* ===== verification/GoSteps.thy ===== *)
theory GoSteps
  imports GoInv
begin

text \<open>
  What the steps of interleaved goroutines change: which goroutines can be stuck, what
  becomes of claims, and how entries of the table evolve.
\<close>

section \<open>Schedules\<close>

text \<open>A turn of goroutine \<open>i\<close>, and the turns a scheduler gives.\<close>

definition turn :: "platform \<Rightarrow> nat \<Rightarrow> system \<Rightarrow> system" where
  "turn P i s = (if i < length (s_go s)
     then case act P (g_next (s_go s ! i)) (g_frames (s_go s ! i)) (s_shared s) of
         Some (g', sh') \<Rightarrow> \<lparr>s_shared = sh', s_go = (s_go s)[i := g']\<rparr>
       | None \<Rightarrow> s
     else s)"

definition begins :: "control \<Rightarrow> system \<Rightarrow> system" where
  "begins a s = s\<lparr>s_go := s_go s @ [\<lparr>g_next = a, g_frames = []\<rparr>]\<rparr>"

lemma turn_later: "sys_later P s (turn P i s)"
proof (cases "i < length (s_go s)")
  case True
  obtain sh gs where s: "s = \<lparr>s_shared = sh, s_go = gs\<rparr>" by (cases s)
  show ?thesis
  proof (cases "act P (g_next (gs ! i)) (g_frames (gs ! i)) sh")
    case (Some x)
    obtain g' sh' where x: "x = (g', sh')" by (cases x)
    have "go_step P s (turn P i s)"
      using go_act [of i gs P sh g' sh'] True by (simp add: s turn_def Some x)
    then show ?thesis unfolding sys_later_def by (blast intro: sys_go)
  qed (simp add: s turn_def sys_later_def)
qed (simp add: turn_def sys_later_def)

lemma sys_later_refl: "sys_later P s s"
  by (simp add: sys_later_def)

lemma sys_later_trans: "sys_later P a b \<Longrightarrow> sys_later P b c \<Longrightarrow> sys_later P a c"
  by (simp add: sys_later_def)

lemma turns_later: "sys_later P s (fold (turn P) is s)"
  by (induction "is" arbitrary: s) (auto intro: sys_later_refl sys_later_trans turn_later)

lemma begins_later: "starts P s a \<Longrightarrow> sys_later P s (begins a s)"
  unfolding sys_later_def begins_def by (blast intro: sys_start)

lemma reachable_later: "sys_reachable P s \<Longrightarrow> sys_later P s s' \<Longrightarrow> sys_reachable P s'"
  by (auto simp: sys_reachable_def intro: sys_later_trans)

lemma fresh_reachable: "sys_reachable P fresh_system"
  by (simp add: sys_reachable_def sys_later_refl)

section \<open>Claims of a goroutine\<close>

lemma sys_okD:
  assumes "sys_ok s" and "g \<in> set (s_go s)"
  shows "shared_ok (s_shared s)" and "claims_ok (s_shared s) (all_claims (s_go s))"
    and "go_ok (cr_next (sh_coder (s_shared s))) g"
    and "x \<in> set (claims g) \<Longrightarrow> claim_ok (s_shared s) x \<and> x \<in> set (all_claims (s_go s))"
  using assms by (auto simp: sys_ok_def Let_def claims_ok_def all_claims_def)

lemma own_claim: "x \<in> set (own (g_next g)) \<Longrightarrow> x \<in> set (claims g)"
  by (simp add: claims_def)

section \<open>Nobody waits for ever\<close>

lemma register_returns: "RegisterCodecReflect P t c cr \<noteq> Blocked" "RegisterCodecReflect P t c cr \<noteq> Spent"
  by (auto simp: RegisterCodecReflect_def as_xCodec_def split: option.split)

text \<open>A goroutine that cannot go on has ended, has panicked or waits.\<close>

lemma stuck_cases:
  assumes "act P (g_next g) (g_frames g) sh = None" and "go_ok N g"
  obtains (returned) c where "g_next g = Returned c" "g_frames g = []"
  | (finished) "g_next g = Finished" "g_frames g = []"
  | (crashed) js msg where "g_next g = Crashed js msg"
  | (waiting) dc where "g_next g = Waiting dc" "g_frames g = []" "dc \<notin> sh_done sh" "dc < N"
proof (cases "g_next g")
  case (Constructing j r)
  then show thesis using assms
    by (cases r) (auto simp: go_ok_def prompt_def Let_def split: outcome.splits)
next
  case (Returned c)
  then show thesis using assms returned by (cases "g_frames g") auto
next
  case (Registering t c)
  then show thesis using assms register_returns [of P t c "sh_coder sh"]
    by (auto split: outcome.splits)
next
  case (Waiting dc)
  then show thesis using assms waiting by (auto simp: go_ok_def split: if_splits)
qed (use assms in \<open>auto simp: go_ok_def Let_def intro: finished crashed\<close>)

definition at_rest :: "platform \<Rightarrow> system \<Rightarrow> bool" where
  "at_rest P s \<longleftrightarrow> (\<forall>g\<in>set (s_go s). act P (g_next g) (g_frames g) (s_shared s) = None)"

definition calm_system :: "system \<Rightarrow> bool" where
  "calm_system s \<longleftrightarrow> (\<forall>g\<in>set (s_go s). case g_next g of Crashed js msg \<Rightarrow> js = [] | _ \<Rightarrow> True)"

lemma at_rest_claims:
  assumes "sys_ok s" "at_rest P s" "calm_system s"
  shows "all_claims (s_go s) = []"
proof -
  have "claims g = []" if g: "g \<in> set (s_go s)" for g
  proof -
    have "act P (g_next g) (g_frames g) (s_shared s) = None" using assms(2) g by (simp add: at_rest_def)
    moreover note go = sys_okD(3) [OF assms(1) g]
    ultimately show ?thesis using assms(3) g go
      by (cases rule: stuck_cases) (auto simp: claims_def unpublished_def calm_system_def go_ok_def)
  qed
  then show ?thesis by (simp add: all_claims_def)
qed

lemma no_claims_resolved:
  assumes "sys_ok s" "all_claims (s_go s) = []"
  shows "sh_done (s_shared s) = {..<cr_next (sh_coder (s_shared s))}"
    and "dom (cr_real (sh_coder (s_shared s))) = {..<cr_next (sh_coder (s_shared s))}"
  using assms by (auto simp: sys_ok_def shared_ok_def claims_ok_def Let_def)

section \<open>Changes of the tables\<close>

text \<open>What a step can do: start a construction, advance the one at work, or neither.\<close>

lemma act_effect:
  assumes "act P a fs sh = Some (g', sh')"
  shows "(cr_known (sh_coder sh) xt \<noteq> None \<longrightarrow> cr_known (sh_coder sh') xt \<noteq> cr_known (sh_coder sh) xt \<longrightarrow>
      (\<exists>j r cc. a = Constructing j r \<and> xt = j_key j \<and> g_next g' = StoreBase j cc \<and> cr_known (sh_coder sh') xt = Some cc))
    \<and> (cr_real (sh_coder sh') dc \<noteq> cr_real (sh_coder sh) dc \<longrightarrow> (\<exists>j cc. a = StoreReal j cc \<and> dc = j_dc j))
    \<and> ((j, Unpublished) \<in> set (claims g') \<longrightarrow>
      (j, Unpublished) \<in> set (claims \<lparr>g_next = a, g_frames = fs\<rparr>) \<or> cr_known (sh_coder sh) (j_key j) = None)
    \<and> ((j, Published c) \<in> set (claims \<lparr>g_next = a, g_frames = fs\<rparr>) \<longrightarrow>
      (j, Published c) \<in> set (claims g') \<or> cr_real (sh_coder sh') (j_dc j) = Some c)"
proof (cases a)
  case (Constructing i r)
  show ?thesis
  proof (cases r)
    case (Now m)
    then show ?thesis using assms Constructing
      by (cases m) (auto simp: Let_def claims_rec unpublished_def split: if_splits)
  qed (use assms Constructing in \<open>auto simp: claims_rec\<close>)
next
  case (Registering t c')
  then show ?thesis using assms register_known [of P t c' "sh_coder sh"]
    by (auto simp: claims_rec unwind_simps split: outcome.splits if_splits)
next
  case (Returned c')
  then show ?thesis using assms by (cases fs) (auto simp: claims_rec)
qed (use assms in \<open>auto simp: Let_def claims_rec unwind_simps unpublished_def split: option.splits if_splits\<close>)

lemmas act_known = act_effect [THEN conjunct1, rule_format]
lemmas act_real = act_effect [THEN conjunct2, THEN conjunct1, rule_format]
lemmas act_unpublished = act_effect [THEN conjunct2, THEN conjunct2, THEN conjunct1, rule_format]
lemmas act_published = act_effect [THEN conjunct2, THEN conjunct2, THEN conjunct2, rule_format]

section \<open>Entries of the table\<close>

text \<open>
  \<open>stands s xt c\<close>: the table has \<open>c\<close> at the key, or \<open>c\<close> is the deferred codec of a finished
  construction of the entry that the table has.
\<close>

definition stands :: "system \<Rightarrow> xtype \<Rightarrow> codec \<Rightarrow> bool" where
  "stands s xt c \<longleftrightarrow> (let cr = sh_coder (s_shared s); cs = set (all_claims (s_go s)) in
     \<exists>c'. cr_known cr xt = Some c' \<and> (c' = c \<or> (\<exists>dc. c = CDeferred dc \<and> (\<forall>j. (j, Unpublished) \<in> cs \<longrightarrow> j_key j \<noteq> xt)
       \<and> (cr_real cr dc = Some c' \<or> (\<exists>j. (j, Published c') \<in> cs \<and> j_dc j = dc \<and> j_key j = xt)))))"

text \<open>A step of the system, as a change of the claims of one goroutine.\<close>

lemma go_step_claims:
  assumes "go_step P s s'"
  obtains g g' others where "act P (g_next g) (g_frames g) (s_shared s) = Some (g', s_shared s')"
    and "set (all_claims (s_go s)) = set (claims g) \<union> others"
    and "set (all_claims (s_go s')) = set (claims g') \<union> others"
  using assms
proof (cases rule: go_step.cases)
  case (go_act i gs sh g' sh')
  show thesis
    by (rule that [of "gs ! i" g' "set (all_claims (take i gs)) \<union> set (all_claims (drop (Suc i) gs))"])
      (use go_act in \<open>auto simp: all_claims_split\<close>)
qed

lemma sys_claim: "sys_ok s \<Longrightarrow> x \<in> set (all_claims (s_go s)) \<Longrightarrow> claim_ok (s_shared s) x"
  by (simp add: sys_ok_def claims_ok_def Let_def)

lemma sys_claim_unique:
  "sys_ok s \<Longrightarrow> x \<in> set (all_claims (s_go s)) \<Longrightarrow> y \<in> set (all_claims (s_go s)) \<Longrightarrow>
     claim_key x = claim_key y \<or> claim_dc x = claim_dc y \<Longrightarrow> x = y"
  by (auto simp: sys_ok_def claims_ok_def Let_def distinct_map inj_on_def)

text \<open>A codec once stored in \<open>real\<close> stays, and a stored codec goes on to \<open>real\<close>.\<close>

lemma real_stays:
  assumes "go_step P s s'" "sys_ok s" and r: "cr_real (sh_coder (s_shared s)) dc = Some c"
  shows "cr_real (sh_coder (s_shared s')) dc = Some c"
proof (rule ccontr)
  assume "\<not> ?thesis"
  moreover obtain g g' others where a: "act P (g_next g) (g_frames g) (s_shared s) = Some (g', s_shared s')"
    and cs: "set (all_claims (s_go s)) = set (claims g) \<union> others"
    by (rule go_step_claims [OF assms(1)])
  ultimately obtain j cc where "g_next g = StoreReal j cc" "dc = j_dc j"
    using r act_real [OF a, of dc] by auto
  then show False
    using sys_claim [OF assms(2), of "(j, Published cc)"] own_claim [of "(j, Published cc)" g] r
    by (simp add: cs claim_ok_def Let_def)
qed

lemma published_goes_on:
  assumes "go_step P s s'" "(j, Published c) \<in> set (all_claims (s_go s))"
  shows "(j, Published c) \<in> set (all_claims (s_go s')) \<or> cr_real (sh_coder (s_shared s')) (j_dc j) = Some c"
proof -
  obtain g g' others where a: "act P (g_next g) (g_frames g) (s_shared s) = Some (g', s_shared s')"
    and cs: "set (all_claims (s_go s)) = set (claims g) \<union> others" "set (all_claims (s_go s')) = set (claims g') \<union> others"
    by (rule go_step_claims [OF assms(1)])
  show ?thesis using assms(2) act_published [OF a, of j c] unfolding cs goroutine_eta by auto
qed

lemma unpublished_stays_out:
  assumes "go_step P s s'" "cr_known (sh_coder (s_shared s)) xt \<noteq> None"
    and "\<forall>j. (j, Unpublished) \<in> set (all_claims (s_go s)) \<longrightarrow> j_key j \<noteq> xt"
    and "(j, Unpublished) \<in> set (all_claims (s_go s'))"
  shows "j_key j \<noteq> xt"
proof -
  obtain g g' others where a: "act P (g_next g) (g_frames g) (s_shared s) = Some (g', s_shared s')"
    and cs: "set (all_claims (s_go s)) = set (claims g) \<union> others" "set (all_claims (s_go s')) = set (claims g') \<union> others"
    by (rule go_step_claims [OF assms(1)])
  show ?thesis using assms(2-4) act_unpublished [OF a, of j] unfolding cs goroutine_eta by auto
qed

text \<open>An entry changes at most once, when the construction for its key stores the codec.\<close>

lemma known_changes:
  assumes "go_step P s s'" "sys_ok s" "cr_known (sh_coder (s_shared s)) xt = Some c"
    "cr_known (sh_coder (s_shared s')) xt \<noteq> Some c"
  obtains j cc where "(j, Unpublished) \<in> set (all_claims (s_go s))" "(j, Published cc) \<in> set (all_claims (s_go s'))"
    "j_key j = xt" "c = CDeferred (j_dc j)" "cr_known (sh_coder (s_shared s')) xt = Some cc"
proof -
  obtain g g' others where a: "act P (g_next g) (g_frames g) (s_shared s) = Some (g', s_shared s')"
    and cs: "set (all_claims (s_go s)) = set (claims g) \<union> others" "set (all_claims (s_go s')) = set (claims g') \<union> others"
    by (rule go_step_claims [OF assms(1)])
  obtain j r cc where j: "g_next g = Constructing j r" "xt = j_key j" "g_next g' = StoreBase j cc"
    "cr_known (sh_coder (s_shared s')) xt = Some cc"
    using act_known [OF a, of xt] assms(3,4) by auto
  have mine: "(j, Unpublished) \<in> set (all_claims (s_go s))" "(j, Published cc) \<in> set (all_claims (s_go s'))"
    by (simp_all add: cs own_claim j)
  moreover have "c = CDeferred (j_dc j)"
    using sys_claim [OF assms(2) mine(1)] assms(3) j(2) by (simp add: claim_ok_def Let_def)
  ultimately show thesis using that j(2,4) by blast
qed

lemma stands_go_step:
  assumes step: "go_step P s s'" and ok: "sys_ok s" and st: "stands s xt c"
  shows "stands s' xt c"
proof -
  obtain c' where k: "cr_known (sh_coder (s_shared s)) xt = Some c'" and alt: "c' = c \<or> (\<exists>dc. c = CDeferred dc
      \<and> (\<forall>j. (j, Unpublished) \<in> set (all_claims (s_go s)) \<longrightarrow> j_key j \<noteq> xt) \<and> (cr_real (sh_coder (s_shared s)) dc = Some c'
        \<or> (\<exists>j. (j, Published c') \<in> set (all_claims (s_go s)) \<and> j_dc j = dc \<and> j_key j = xt)))"
    using st by (auto simp: stands_def Let_def)
  show ?thesis
  proof (cases "cr_known (sh_coder (s_shared s')) xt = Some c'")
    case True
    have "cr_real (sh_coder (s_shared s')) dc = Some c' \<or> (\<exists>j. (j, Published c') \<in> set (all_claims (s_go s')) \<and> j_dc j = dc \<and> j_key j = xt)"
      if "cr_real (sh_coder (s_shared s)) dc = Some c' \<or> (\<exists>j. (j, Published c') \<in> set (all_claims (s_go s)) \<and> j_dc j = dc \<and> j_key j = xt)" for dc
      using that real_stays [OF step ok, of dc c'] published_goes_on [OF step, of _ c'] by blast
    then show ?thesis
      using alt True unpublished_stays_out [OF step, of xt] k unfolding stands_def Let_def by blast
  next
    case False
    obtain j cc where mine: "(j, Unpublished) \<in> set (all_claims (s_go s))" "(j, Published cc) \<in> set (all_claims (s_go s'))"
      "j_key j = xt" "c' = CDeferred (j_dc j)" "cr_known (sh_coder (s_shared s')) xt = Some cc"
      by (rule known_changes [OF step ok k False])
    have "j_key i \<noteq> xt" if "(i, Unpublished) \<in> set (all_claims (s_go s'))" for i
      using sys_claim_unique [OF go_step_ok [OF step ok] that mine(2)] mine(3) by auto
    then show ?thesis
      using alt mine unfolding stands_def Let_def by blast
  qed
qed

text \<open>New goroutines own nothing.\<close>

lemma start_claims:
  assumes "starts P s a"
  shows "all_claims (s_go s @ [\<lparr>g_next = a, g_frames = []\<rparr>]) = all_claims (s_go s)"
  using assms by (auto simp: starts_def all_claims_def claims_rec split: control.splits codec.splits)

lemma stands_later: "sys_later P s s' \<Longrightarrow> sys_ok s \<Longrightarrow> stands s xt c \<Longrightarrow> stands s' xt c"
  unfolding sys_later_def
proof (induction rule: rtranclp_induct)
  case (step s1 s2)
  have ok: "sys_ok s1" using step.hyps(1) step.prems(1) by (auto simp: sys_later_def [symmetric] intro: sys_later_ok)
  from step.hyps(2) show ?case
  proof (cases rule: sys_step.cases)
    case sys_go
    then show ?thesis by (rule stands_go_step) (use ok step in auto)
  next
    case (sys_start a)
    then show ?thesis using step by (simp add: stands_def start_claims)
  qed
qed

text \<open>A goroutine that cannot go on stays what it is.\<close>

lemma crashed_stays:
  assumes "sys_later P s s'" "g \<in> set (s_go s)" "g_next g = Crashed js msg"
  shows "g \<in> set (s_go s')"
  using assms(1) unfolding sys_later_def
proof (induction rule: rtranclp_induct)
  case (step s1 s2)
  from step.hyps(2) show ?case
  proof (cases rule: sys_step.cases)
    case sys_go
    from sys_go step.IH show ?thesis
    proof (cases rule: go_step.cases)
      case (go_act i gs sh g' sh')
      obtain k where k: "k < length gs" "gs ! k = g"
        using step.IH go_act(1) by (auto simp: in_set_conv_nth)
      with go_act(4) assms(3) have "k \<noteq> i" by auto
      with k have "gs[i := g'] ! k = g" "k < length (gs[i := g'])" by simp_all
      then show ?thesis unfolding go_act(2) by (metis nth_mem system.select_convs(2))
    qed
  qed (use step.IH in simp)
qed (rule assms(2))

end
