(* ===== verification/GoProps.thy ===== *)
theory GoProps
  imports GoSteps FitsCoder
begin

text \<open>
  What holds for every interleaving of goroutines on a coder: constructions exclude each
  other, deferred codecs are resolved once, nobody waits for ever unless a construction
  panicked (then its type is blocked for good), and table entries only change from a
  deferred codec to the codec it stands for.
\<close>

section \<open>Example schedules\<close>

text \<open>Two goroutines ask for the codec of \<open>type T *T\<close>, or of a union switched by an \<open>int16\<close>.\<close>

definition two_requests :: "platform \<Rightarrow> gtype \<Rightarrow> nat list \<Rightarrow> system" where
  "two_requests P t is = fold (turn P) is (begins (LoadKnown t []) (begins (LoadKnown t []) fresh_system))"

lemma two_requests_reachable:
  assumes "go_type (p_types P) t"
  shows "sys_reachable P (two_requests P t is)"
proof -
  have "sys_later P s (begins (LoadKnown t []) s)" for s
    by (rule begins_later) (simp add: starts_def assms)
  then show ?thesis unfolding two_requests_def
    by (intro reachable_later [OF fresh_reachable] sys_later_trans [OF _ turns_later]) (blast intro: sys_later_trans)
qed

lemmas turn_simps = two_requests_def turn_def begins_def fresh_system_def NewCoder_def hand_over_def
  as_xCodec_def xCodec_def toXCodec_def set_coder_def ByteString_def Let_def

lemma ask_list: "ask_codec list_platform (GNamed ''T'') [] = Ask (GNamed ''T'') [] (\<lambda>c. Now (Ret (CPtr c (GNamed ''T''))))"
  by (simp add: list_platform_def ask_codec_def ask_ptr_def reflect_elem_def elem_type_def kind_def under_def
      next_tag_def doc_kinds ask_def answer_def rbind.simps(1))

lemma list_nounsafe: "p_nounsafe list_platform"
  by (simp add: list_platform_def)

lemma list_requests: "sys_reachable list_platform (two_requests list_platform (GNamed ''T'') is)"
  by (rule two_requests_reachable) (simp add: list_platform_def go_type_def)

section \<open>Properties\<close>

text \<open>
  C33. Constructions exclude each other: whatever the interleaving, no two constructions in
  progress are for the same key or have the same deferred codec, and every deferred codec
  ever published belongs to one of them or is finished, which means that \<open>wg.Done\<close> has been
  called and \<open>real\<close> is set.
\<close>

theorem constructions_exclude_each_other:
  assumes "sys_reachable P s"
  shows "distinct (List.map claim_key (all_claims (s_go s))) \<and> distinct (List.map claim_dc (all_claims (s_go s)))
    \<and> (\<forall>dc<cr_next (sh_coder (s_shared s)). (dc \<in> sh_done (s_shared s) \<and> cr_real (sh_coder (s_shared s)) dc \<noteq> None)
        \<noteq> (dc \<in> claim_dc ` set (all_claims (s_go s))))"
  using sys_reachable_ok [OF assms] unfolding sys_ok_def claims_ok_def shared_ok_def Let_def claim_ok_def by auto

theorem constructions_exclude_each_other_witness:
  "distinct (List.map claim_key (all_claims (s_go (two_requests list_platform (GNamed ''T'') [0, 1, 1, 0, 1]))))
   \<and> length (all_claims (s_go (two_requests list_platform (GNamed ''T'') [0, 1, 1, 0, 1]))) = 1"
  using constructions_exclude_each_other [OF list_requests, of "[0, 1, 1, 0, 1]"]
  by (simp add: turn_simps list_nounsafe ask_list all_claims_def claims_rec)

text \<open>
  C34. A deferred codec is resolved once: when a goroutine is about to store \<open>real\<close> it is not
  set, when it is about to call \<open>wg.Done\<close> that has not been called (a second call would
  panic), and a goroutine that \<open>wg.Wait\<close> releases finds the codec in \<open>real\<close>.
\<close>

theorem deferred_resolved_once:
  assumes "sys_reachable P s" and "g \<in> set (s_go s)"
  shows "(g_next g = StoreReal j c \<longrightarrow> cr_real (sh_coder (s_shared s)) (j_dc j) = None)
    \<and> (g_next g = SignalDone j c \<longrightarrow> j_dc j \<notin> sh_done (s_shared s) \<and> cr_real (sh_coder (s_shared s)) (j_dc j) = Some c)
    \<and> (g_next g = Waiting dc \<and> dc \<in> sh_done (s_shared s) \<longrightarrow> (\<exists>c. cr_real (sh_coder (s_shared s)) dc = Some c))"
proof -
  note ok = sys_reachable_ok [OF assms(1)]
  have "claim_ok (s_shared s) x" if "x \<in> set (own (g_next g))" for x
    using sys_okD(4) [OF ok assms(2) own_claim [OF that]] by simp
  then show ?thesis
    using shared_okD(4) [OF sys_okD(1) [OF ok assms(2)]] by (auto simp: claim_ok_def Let_def)
qed

theorem deferred_resolved_once_witness:
  "\<exists>g j c. g \<in> set (s_go (two_requests list_platform (GNamed ''T'') [0, 0, 0, 0, 0, 0, 0, 0, 1])) \<and> g_next g = SignalDone j c
    \<and> j_dc j \<notin> sh_done (s_shared (two_requests list_platform (GNamed ''T'') [0, 0, 0, 0, 0, 0, 0, 0, 1]))"
proof -
  let ?s = "two_requests list_platform (GNamed ''T'') [0, 0, 0, 0, 0, 0, 0, 0, 1]"
  have "\<exists>g\<in>set (s_go ?s). \<exists>j c. g_next g = SignalDone j c"
    by (simp add: turn_simps list_nounsafe ask_list tag_Empty_def)
  then show ?thesis using deferred_resolved_once [OF list_requests] by blast
qed

text \<open>
  C35. Nobody waits for ever: when no goroutine can go on, and no panic has unwound a
  construction, every goroutine has ended (or its registration was refused), and encoding
  and decoding with any codec that was handed out does not block.
\<close>

theorem no_goroutine_waits:
  assumes "sys_reachable P s" and "at_rest P s" and "calm_system s" and "g \<in> set (s_go s)"
    and "g_real G = cr_real (sh_coder (s_shared s))" and "\<And>k d. D k d \<noteq> Blocked"
  shows "g_next g = Finished \<or> (\<exists>msg. g_next g = Crashed [] msg)
    \<or> (\<exists>c. g_next g = Returned c \<and> enc m G E c v e \<noteq> Blocked \<and> dec m G D c w d \<noteq> Blocked)"
proof -
  note ok = sys_reachable_ok [OF assms(1)]
  note res = no_claims_resolved [OF ok at_rest_claims [OF ok assms(2,3)]]
  have "entries_below (cr_next (sh_coder (s_shared s))) (g_real G)"
    using sys_okD(1) [OF ok assms(4)] assms(5) by (simp add: shared_ok_def Let_def)
  then have env: "resolved_env (g_real G)"
    using res(2) assms(5) by (auto simp: resolved_env_def dest: entries_belowD)
  have "act P (g_next g) (g_frames g) (s_shared s) = None" using assms(2,4) by (simp add: at_rest_def)
  moreover note go = sys_okD(3) [OF ok assms(4)]
  ultimately show ?thesis
  proof (cases rule: stuck_cases)
    case (returned c)
    have "codec_ids c \<subseteq> dom (g_real G)" using go returned res(2) assms(5) by (simp add: go_ok_def)
    then show ?thesis
      using enc_runs [OF env, of c m E v e] dec_runs [OF env, of D c m w d] assms(6) returned by (simp add: runs_def)
  next
    case (waiting dc)
    then show ?thesis using res(1) by auto
  qed (use assms(3,4) in \<open>auto simp: calm_system_def\<close>)
qed

theorem no_goroutine_waits_witness:
  "\<forall>m v e. enc m \<lparr>g_maxInt = 2 ^ 63 - 1, g_maxAlloc = 2 ^ 48, g_types = [], g_nounsafe = True,
       g_real = cr_real (sh_coder (s_shared (two_requests list_platform (GNamed ''T'') [0, 0, 1, 0, 1, 0, 0, 0, 0, 0, 0]))),
       g_marshal = \<lambda>_ _. EDone None, g_unmarshal = \<lambda>_ v. DDone None v, g_foreign_enc = \<lambda>_ _. EDone None,
       g_foreign_dec = \<lambda>_ v. DDone None v\<rparr> (\<lambda>_ s. (None, s)) (CDeferred 0) v (e :: unit) \<noteq> Blocked"
proof (intro allI)
  fix m v and e :: unit
  let ?s = "two_requests list_platform (GNamed ''T'') [0, 0, 1, 0, 1, 0, 0, 0, 0, 0, 0]"
  let ?G = "\<lparr>g_maxInt = 2 ^ 63 - 1, g_maxAlloc = 2 ^ 48, g_types = [], g_nounsafe = True, g_real = cr_real (sh_coder (s_shared ?s)),
       g_marshal = \<lambda>_ _. EDone None, g_unmarshal = \<lambda>_ v. DDone None v, g_foreign_enc = \<lambda>_ _. EDone None,
       g_foreign_dec = \<lambda>_ v. DDone None v\<rparr>"
  have "at_rest list_platform ?s" "calm_system ?s" "\<lparr>g_next = Returned (CDeferred 0), g_frames = []\<rparr> \<in> set (s_go ?s)"
    by (simp_all add: turn_simps list_nounsafe ask_list tag_Empty_def at_rest_def calm_system_def)
  from no_goroutine_waits [OF list_requests this, of ?G "\<lambda>(k :: dec_call) (d :: unit). Panic ''no input''"
      m "\<lambda>_ s. (None, s)" v e]
  show "enc m ?G (\<lambda>_ s. (None, s)) (CDeferred 0) v e \<noteq> Blocked" by simp
qed

text \<open>
  C36. Entries of the table are stable under every interleaving: once a key has a codec, it
  keeps it, unless that was the deferred codec of a construction, which gives way to the
  codec that the deferred one is then resolved to. So all goroutines that ever ask for one
  key get codecs that act alike.
\<close>

theorem table_entries_stand:
  assumes "sys_reachable P s" and "cr_known (sh_coder (s_shared s)) xt = Some c" and "sys_later P s s'"
  shows "\<exists>c'. cr_known (sh_coder (s_shared s')) xt = Some c' \<and> (c' = c \<or> (\<exists>dc. c = CDeferred dc
    \<and> cr_real (sh_coder (s_shared s')) dc \<in> {None, Some c'}
    \<and> (dc \<in> sh_done (s_shared s') \<longrightarrow> cr_real (sh_coder (s_shared s')) dc = Some c')))"
proof -
  note ok = sys_reachable_ok [OF assms(1)]
  have "stands s xt c" using assms(2) by (simp add: stands_def)
  then have "stands s' xt c" using ok by (rule stands_later [OF assms(3), rotated])
  moreover have "cr_real (sh_coder (s_shared s')) (j_dc j) = None \<and> j_dc j \<notin> sh_done (s_shared s')"
    if "(j, Published c') \<in> set (all_claims (s_go s'))" for j c'
    using sys_claim [OF sys_later_ok [OF assms(3) ok] that] by (simp add: claim_ok_def Let_def)
  ultimately show ?thesis by (auto simp: stands_def Let_def)
qed

theorem table_entries_stand_witness:
  "cr_known (sh_coder (s_shared (two_requests list_platform (GNamed ''T'') [0, 0]))) (GNamed ''T'', []) = Some (CDeferred 0)
   \<and> (\<exists>c'. cr_known (sh_coder (s_shared (fold (turn list_platform) [1, 0, 0, 0, 1, 0, 0, 0] (two_requests list_platform (GNamed ''T'') [0, 0]))))
     (GNamed ''T'', []) = Some c' \<and> c' = CPtr (CDeferred 0) (GNamed ''T''))"
proof -
  let ?s = "two_requests list_platform (GNamed ''T'') [0, 0]"
  have start: "cr_known (sh_coder (s_shared ?s)) (GNamed ''T'', []) = Some (CDeferred 0)"
    by (simp add: turn_simps list_nounsafe)
  have "cr_real (sh_coder (s_shared (fold (turn list_platform) [1, 0, 0, 0, 1, 0, 0, 0] ?s))) 0 = Some (CPtr (CDeferred 0) (GNamed ''T''))"
    by (simp add: turn_simps list_nounsafe ask_list tag_Empty_def)
  moreover have "cr_known (sh_coder (s_shared (fold (turn list_platform) [1, 0, 0, 0, 1, 0, 0, 0] ?s))) (GNamed ''T'', []) \<noteq> Some (CDeferred 0)"
    by (simp add: turn_simps list_nounsafe ask_list tag_Empty_def)
  ultimately show ?thesis
    using start table_entries_stand [OF list_requests start turns_later, of "[1, 0, 0, 0, 1, 0, 0, 0]"] by auto
qed

text \<open>
  C37. A panic during a construction blocks its type for good: the deferred codec stays in
  the table for all time and is never resolved, so whoever is handed it, now or later,
  blocks in encoding and in decoding. (The program goes on if the caller recovers from the
  panic; a union switched by an \<open>int16\<close> is an example that the tag parser accepts.)
\<close>

theorem panic_blocks_type:
  assumes "sys_reachable P s" and "g \<in> set (s_go s)" and "g_next g = Crashed js msg" and "j \<in> set js"
    and "sys_later P s s'" and "g_real G = cr_real (sh_coder (s_shared s'))"
  shows "cr_known (sh_coder (s_shared s')) (j_key j) = Some (CDeferred (j_dc j)) \<and> j_dc j \<notin> sh_done (s_shared s')
    \<and> enc (Suc m) G E (CDeferred (j_dc j)) v e = Blocked \<and> dec (Suc m) G D (CDeferred (j_dc j)) v d = Blocked"
proof -
  note ok = sys_later_ok [OF assms(5) sys_reachable_ok [OF assms(1)]]
  have "g \<in> set (s_go s')" by (rule crashed_stays [OF assms(5,2,3)])
  moreover have "(j, Unpublished) \<in> set (claims g)"
    using assms(3,4) by (simp add: claims_def unpublished_def)
  ultimately have "claim_ok (s_shared s') (j, Unpublished)" using sys_okD(4) [OF ok] by blast
  then show ?thesis
    using assms(6) by (simp add: claim_ok_def Let_def deferredCodec_Encode_def deferredCodec_Decode_def)
qed

definition int16_union :: gtype where
  "int16_union = GStruct [GField ''A'' GInt16 ''union:switch'']"

lemma ask_int16_union:
  "ask_codec list_platform int16_union [] = Now (Panic ''Switch field of union not valid (must be int32, uint32 or bool)'')"
proof -
  have ts: "TrimSpace ''union:switch'' = ''union:switch''"
    by (rule trim_first_last; simp add: ascii_not_space)
  have "tag_Trimmed [UnionSwitch] = Some [UnionSwitch]"
    using Trimmed_rep [of "[Flag UnionSwitch]"] by (simp add: trim_entries_Cons kind_defs)
  then have "ParseStructTag (p_types list_platform) GInt16 ''union:switch'' MaybeInUnion = Ret (Inr [UnionSwitch], InUnion)"
    by (simp add: ParseStructTag_def ParseTag_def ts parse_union_def validForUnionSwitch_def kind_def under_def
        tag_Append_def UnionSwitch_def)
  moreover have "tag_Kind [UnionSwitch] = UnionSwitch" "UnionSwitch \<noteq> Skip" by code_simp+
  moreover have "\<not> implements_marshaler (p_types list_platform) int16_union"
    by (simp add: int16_union_def implements_marshaler_def)
  ultimately show ?thesis
    by (simp add: ask_codec_def ask_plain_def ask_fields_def ask_union_def int16_union_def struct_fields_def under_def
        kind_def doc_kinds union_switch_kind_def rbind.simps(1))
qed

theorem panic_blocks_type_witness:
  "\<forall>is. let s' = fold (turn list_platform) is (two_requests list_platform int16_union [0, 0, 0]) in
     cr_known (sh_coder (s_shared s')) (int16_union, []) = Some (CDeferred 0) \<and> 0 \<notin> sh_done (s_shared s')"
proof
  fix "is"
  let ?s = "two_requests list_platform int16_union [0, 0, 0]"
  let ?s' = "fold (turn list_platform) is ?s"
  let ?j = "\<lparr>j_key = (int16_union, []), j_tag = [], j_dc = 0\<rparr>"
  let ?G = "\<lparr>g_maxInt = 2 ^ 63 - 1, g_maxAlloc = 2 ^ 48, g_types = [], g_nounsafe = True, g_real = cr_real (sh_coder (s_shared ?s')),
       g_marshal = \<lambda>_ _. EDone None, g_unmarshal = \<lambda>_ v. DDone None v, g_foreign_enc = \<lambda>_ _. EDone None,
       g_foreign_dec = \<lambda>_ v. DDone None v\<rparr>"
  have go: "\<lparr>g_next = Crashed [?j] ''Switch field of union not valid (must be int32, uint32 or bool)'', g_frames = []\<rparr> \<in> set (s_go ?s)"
    by (simp add: turn_simps list_nounsafe ask_int16_union)
  have G: "g_real ?G = cr_real (sh_coder (s_shared ?s'))" by simp
  have "go_type (p_types list_platform) int16_union" by (simp add: int16_union_def go_type_def)
  note blocked = panic_blocks_type [OF two_requests_reachable [OF this] go goroutine.select_convs(1) list.set_intros(1) turns_later G]
  show "let s' = ?s' in
      cr_known (sh_coder (s_shared s')) (int16_union, []) = Some (CDeferred 0) \<and> 0 \<notin> sh_done (s_shared s')"
    using blocked [THEN conjunct1] blocked [THEN conjunct2, THEN conjunct1] by (simp add: Let_def)
qed

end
