(* ===== verification/GoTyped.thy ===== *)
theory GoTyped
  imports GoProps
begin

text \<open>
  Types under interleaving: every codec that a goroutine is given fits the type it asked for,
  whichever goroutine constructed it. A goroutine has a type it owes a codec for, and each of
  its constructions owes one to the construction around it.
\<close>

section \<open>What goroutines owe\<close>

definition owes :: "genv \<Rightarrow> nat \<Rightarrow> (nat \<Rightarrow> gtype) \<Rightarrow> gtype \<Rightarrow> codec request \<Rightarrow> bool" where
  "owes G N dt t r \<longleftrightarrow> (\<exists>h. answers_fit G dt h \<and> answers_below N h
     \<and> yields (Collect (go_type (g_types G))) (well_built G t) r h)"

definition resumes :: "genv \<Rightarrow> nat \<Rightarrow> (nat \<Rightarrow> gtype) \<Rightarrow> gtype \<Rightarrow> gtype \<Rightarrow> (codec \<Rightarrow> codec request) \<Rightarrow> bool" where
  "resumes G N dt u t k \<longleftrightarrow> (\<exists>h. answers_fit G dt h \<and> answers_below N h
     \<and> (\<forall>c. yields (Collect (go_type (g_types G))) (well_built G t) (k c) (insert (u, c) h)))"

definition job_fits :: "genv \<Rightarrow> (nat \<Rightarrow> gtype) \<Rightarrow> job \<Rightarrow> bool" where
  "job_fits G dt j \<longleftrightarrow> dt (j_dc j) = fst (j_key j) \<and> go_type (g_types G) (fst (j_key j))"

text \<open>\<open>control_fits G N dt u a\<close>: what \<open>a\<close> leads to is a codec for \<open>u\<close>, or no codec.\<close>

fun control_fits :: "genv \<Rightarrow> nat \<Rightarrow> (nat \<Rightarrow> gtype) \<Rightarrow> gtype \<Rightarrow> control \<Rightarrow> bool" where
  "control_fits G N dt u (LoadBase t) \<longleftrightarrow> t = u \<and> go_type (g_types G) u"
| "control_fits G N dt u (LoadKnown t tag) \<longleftrightarrow> t = u \<and> go_type (g_types G) u"
| "control_fits G N dt u (LoadOrStore xt tag) \<longleftrightarrow> fst xt = u \<and> go_type (g_types G) u"
| "control_fits G N dt u (Constructing j r) \<longleftrightarrow> fst (j_key j) = u \<and> job_fits G dt j \<and> owes G N dt u r"
| "control_fits G N dt u (StoreBase j c) \<longleftrightarrow> fst (j_key j) = u \<and> job_fits G dt j \<and> fits G dt u c \<and> callable G c"
| "control_fits G N dt u (StoreReal j c) \<longleftrightarrow> fst (j_key j) = u \<and> job_fits G dt j \<and> fits G dt u c \<and> callable G c"
| "control_fits G N dt u (SignalDone j c) \<longleftrightarrow> fst (j_key j) = u \<and> job_fits G dt j \<and> fits G dt u c \<and> callable G c"
| "control_fits G N dt u (Returned c) \<longleftrightarrow> fits G dt u c \<and> callable G c"
| "control_fits G N dt u (Registering t c) \<longleftrightarrow> (\<exists>k. c = CForeign k)"
| "control_fits G N dt u (CallDeferred dc) \<longleftrightarrow> dt dc = u"
| "control_fits G N dt u (Waiting dc) \<longleftrightarrow> dt dc = u"
| "control_fits G N dt u Finished \<longleftrightarrow> True"
| "control_fits G N dt u (Crashed js msg) \<longleftrightarrow> True"

text \<open>A stack of constructions that waits for a codec for \<open>u\<close> and owes one for \<open>t\<close>.\<close>

fun frames_fit :: "genv \<Rightarrow> nat \<Rightarrow> (nat \<Rightarrow> gtype) \<Rightarrow> gtype \<Rightarrow> frame list \<Rightarrow> gtype \<Rightarrow> bool" where
  "frames_fit G N dt u [] t \<longleftrightarrow> u = t"
| "frames_fit G N dt u ((j, k) # fs) t \<longleftrightarrow> job_fits G dt j \<and> resumes G N dt u (fst (j_key j)) k
     \<and> frames_fit G N dt (fst (j_key j)) fs t"

definition go_fits :: "genv \<Rightarrow> nat \<Rightarrow> (nat \<Rightarrow> gtype) \<Rightarrow> gtype \<Rightarrow> goroutine \<Rightarrow> bool" where
  "go_fits G N dt t g \<longleftrightarrow> (\<exists>u. control_fits G N dt u (g_next g) \<and> frames_fit G N dt u (g_frames g) t)"

lemma go_fitsI: "control_fits G N dt u a \<Longrightarrow> frames_fit G N dt u fs t \<Longrightarrow> go_fits G N dt t \<lparr>g_next = a, g_frames = fs\<rparr>"
  by (auto simp: go_fits_def)

text \<open>\<open>ts\<close> are the types that the goroutines owe codecs for.\<close>

definition sys_fits :: "genv \<Rightarrow> (nat \<Rightarrow> gtype) \<Rightarrow> gtype list \<Rightarrow> system \<Rightarrow> bool" where
  "sys_fits G dt ts s \<longleftrightarrow> typed_coder G dt (sh_coder (s_shared s))
     \<and> list_all2 (go_fits G (cr_next (sh_coder (s_shared s))) dt) ts (s_go s)"

section \<open>More deferred codecs\<close>

lemma owes_grow: "owes G N dt t r \<Longrightarrow> agree N dt dt' \<Longrightarrow> N \<le> N' \<Longrightarrow> owes G N' dt' t r"
  unfolding owes_def by (blast intro: answers_grow answers_below_mono)

lemma resumes_grow: "resumes G N dt u t k \<Longrightarrow> agree N dt dt' \<Longrightarrow> N \<le> N' \<Longrightarrow> resumes G N' dt' u t k"
  unfolding resumes_def by (blast intro: answers_grow answers_below_mono)

lemma job_fits_grow: "job_fits G dt j \<Longrightarrow> j_dc j < N \<Longrightarrow> agree N dt dt' \<Longrightarrow> job_fits G dt' j"
  by (simp add: job_fits_def agree_def)

lemma control_fits_grow:
  assumes "control_fits G N dt u a" "next_ok N a" "\<forall>x\<in>set (own a). claim_dc x < N" "agree N dt dt'" "N \<le> N'"
  shows "control_fits G N' dt' u a"
proof -
  have "dt' dc = dt dc" if "dc < N" for dc using assms(4) that by (simp add: agree_def)
  then show ?thesis using assms(1-3)
    by (cases a) (auto intro: owes_grow [OF _ assms(4,5)] job_fits_grow [OF _ _ assms(4)] fits_grow [OF _ _ assms(4)])
qed

lemma frames_fit_grow:
  assumes "agree N dt dt'" "N \<le> N'"
  shows "frames_fit G N dt u fs t \<Longrightarrow> \<forall>x\<in>set (unpublished (List.map fst fs)). claim_dc x < N \<Longrightarrow> frames_fit G N' dt' u fs t"
proof (induction fs arbitrary: u)
  case (Cons f fs)
  obtain j k where "f = (j, k)" by (cases f)
  then show ?case using Cons
    by (auto simp: claims_rec intro: job_fits_grow [OF _ _ assms(1)] resumes_grow [OF _ assms])
qed simp

lemma go_fits_grow:
  assumes "go_fits G N dt t g" "go_ok N g" "\<forall>x\<in>set (claims g). claim_dc x < N" "agree N dt dt'" "N \<le> N'"
  shows "go_fits G N' dt' t g"
proof -
  obtain u where u: "control_fits G N dt u (g_next g)" "frames_fit G N dt u (g_frames g) t"
    using assms(1) by (auto simp: go_fits_def)
  have "control_fits G N' dt' u (g_next g)" "frames_fit G N' dt' u (g_frames g) t"
    using assms(2,3) by (auto simp: go_ok_def claims_def intro!: control_fits_grow [OF u(1) _ _ assms(4,5)]
      frames_fit_grow [OF assms(4,5) u(2)])
  then show ?thesis by (auto simp: go_fits_def)
qed

section \<open>Every step keeps what is owed\<close>

text \<open>The types after a step: of the registry, and of what the goroutine that took it owes.\<close>

definition step_fits :: "genv \<Rightarrow> (nat \<Rightarrow> gtype) \<Rightarrow> gtype \<Rightarrow> shared \<Rightarrow> goroutine \<times> shared \<Rightarrow> bool" where
  "step_fits G dt t sh r \<longleftrightarrow> (\<exists>dt'. agree (cr_next (sh_coder sh)) dt dt' \<and> typed_coder G dt' (sh_coder (snd r))
     \<and> go_fits G (cr_next (sh_coder (snd r))) dt' t (fst r))"

lemma step_fits_same:
  "typed_coder G dt (sh_coder sh') \<Longrightarrow> control_fits G (cr_next (sh_coder sh')) dt u a \<Longrightarrow>
     frames_fit G (cr_next (sh_coder sh')) dt u fs t \<Longrightarrow> step_fits G dt t sh (\<lparr>g_next = a, g_frames = fs\<rparr>, sh')"
  unfolding step_fits_def by (auto simp: agree_def intro: go_fitsI)

lemma crashed_fits: "typed_coder G dt (sh_coder sh') \<Longrightarrow> step_fits G dt t sh (\<lparr>g_next = Crashed js msg, g_frames = []\<rparr>, sh')"
  by (rule step_fits_same) simp_all

lemma hand_over_fits:
  assumes "g_nounsafe G = p_nounsafe P" "typed_coder G dt (sh_coder sh)" "fits G dt u c"
    "frames_fit G (cr_next (sh_coder sh)) dt u fs t"
  shows "step_fits G dt t sh (hand_over P c fs, sh)"
  using assms xCodec_callable [OF assms(1), of c]
  by (auto simp: hand_over_def unwind_def intro: step_fits_same crashed_fits)

definition keeps_types :: "platform \<Rightarrow> genv \<Rightarrow> control \<Rightarrow> bool" where
  "keeps_types P G a \<longleftrightarrow> (\<forall>dt t u fs sh r. act P a fs sh = Some r \<longrightarrow> shared_ok sh \<longrightarrow>
     go_ok (cr_next (sh_coder sh)) \<lparr>g_next = a, g_frames = fs\<rparr> \<longrightarrow> (\<forall>x\<in>set (unpublished (List.map fst fs)). claim_dc x < cr_next (sh_coder sh)) \<longrightarrow>
     typed_coder G dt (sh_coder sh) \<longrightarrow> control_fits G (cr_next (sh_coder sh)) dt u a \<longrightarrow>
     frames_fit G (cr_next (sh_coder sh)) dt u fs t \<longrightarrow> step_fits G dt t sh r)"

lemma keeps_typesI:
  assumes "\<And>dt t u fs sh r N. act P a fs sh = Some r \<Longrightarrow> shared_ok sh \<Longrightarrow> go_ok N \<lparr>g_next = a, g_frames = fs\<rparr> \<Longrightarrow>
      (\<forall>x\<in>set (unpublished (List.map fst fs)). claim_dc x < N) \<Longrightarrow> typed_coder G dt (sh_coder sh) \<Longrightarrow> control_fits G N dt u a \<Longrightarrow>
      frames_fit G N dt u fs t \<Longrightarrow> N = cr_next (sh_coder sh) \<Longrightarrow> step_fits G dt t sh r"
  shows "keeps_types P G a"
  unfolding keeps_types_def using assms by blast

lemma same_platformD:
  assumes "same_platform P G"
  shows "g_nounsafe G = p_nounsafe P" "p_types P = g_types G" "fit_platform P G (Collect (go_type (g_types G)))"
  using assms go_types_closed by (auto simp: same_platform_def intro!: fit_platform.intro)

lemma load_fits:
  assumes "same_platform P G"
  shows "keeps_types P G (LoadBase t)" "keeps_types P G (LoadKnown t tag)" "keeps_types P G (CallDeferred dc)"
    "keeps_types P G (Waiting dc)"
proof -
  note hand = hand_over_fits [OF same_platformD(1) [OF assms]]
  show "keeps_types P G (LoadBase t)" "keeps_types P G (LoadKnown t tag)" "keeps_types P G (CallDeferred dc)"
    "keeps_types P G (Waiting dc)"
    by (rule keeps_typesI;
        fastforce simp: Let_def unwind_def split: option.splits if_splits
          intro: hand step_fits_same crashed_fits dest: typed_coderD)+
qed

lemma publish_fits:
  "keeps_types P G (StoreBase j c)" "keeps_types P G (StoreReal j c)" "keeps_types P G (SignalDone j c)"
  by (rule keeps_typesI; fastforce simp: Let_def unwind_def job_fits_def split: if_splits
      intro: step_fits_same crashed_fits typed_upd)+

lemma registering_fits: "keeps_types P G (Registering t c)"
proof (rule keeps_typesI)
  fix dt t' u fs r N and sh :: shared
  assume r: "act P (Registering t c) fs sh = Some r" and N: "N = cr_next (sh_coder sh)"
    and ok: "go_ok N \<lparr>g_next = Registering t c, g_frames = fs\<rparr>" "frames_fit G N dt u fs t'"
    and ty: "typed_coder G dt (sh_coder sh)" "control_fits G N dt u (Registering t c)"
  have fs: "fs = []" using ok(1) by (simp add: go_rec)
  obtain k where c: "c = CForeign k" using ty(2) by auto
  show "step_fits G dt t' sh r"
  proof (cases "RegisterCodecReflect P t c (sh_coder sh)")
    case (Ret x)
    obtain y cr' where x: "x = (y, cr')" by (cases x)
    have "typed_coder G dt cr'"
      using register_known [OF Ret [unfolded x]] typed_upd(1) [OF ty(1) fit_foreign] ty(1) c by auto
    then show ?thesis using r Ret x fs by (auto simp: set_coder_def intro: step_fits_same)
  qed (use r ty(1) in \<open>auto simp: unwind_def intro: crashed_fits\<close>)
qed

lemma returned_fits: "keeps_types P G (Returned c)"
proof (rule keeps_typesI)
  fix dt t u fs r N and sh :: shared
  assume r: "act P (Returned c) fs sh = Some r" and N: "N = cr_next (sh_coder sh)"
    and ok: "go_ok N \<lparr>g_next = Returned c, g_frames = fs\<rparr>" and fr: "frames_fit G N dt u fs t"
    and ty: "typed_coder G dt (sh_coder sh)" "control_fits G N dt u (Returned c)"
  obtain j k rest where fs: "fs = (j, k) # rest" using r by (cases fs) auto
  obtain h where h: "answers_fit G dt h" "answers_below N h"
    "yields (Collect (go_type (g_types G))) (well_built G (fst (j_key j))) (k c) (insert (u, c) h)"
    using fr by (auto simp: fs resumes_def)
  have "owes G N dt (fst (j_key j)) (k c)"
    unfolding owes_def using h ty(2) ok by (intro exI [of _ "insert (u, c) h"]) (simp add: go_rec)
  then show "step_fits G dt t sh r" using r fr ty(1) N by (auto simp: fs intro!: step_fits_same)
qed

lemma constructing_fits:
  assumes "same_platform P G"
  shows "keeps_types P G (Constructing j q)"
proof (rule keeps_typesI)
  fix dt t u fs r N and sh :: shared
  assume r: "act P (Constructing j q) fs sh = Some r" and N: "N = cr_next (sh_coder sh)"
    and fr: "frames_fit G N dt u fs t"
    and ty: "typed_coder G dt (sh_coder sh)" "control_fits G N dt u (Constructing j q)"
  obtain h where h: "answers_fit G dt h" "answers_below N h"
    "yields (Collect (go_type (g_types G))) (well_built G u) q h"
    using ty(2) by (auto simp: owes_def)
  show "step_fits G dt t sh r"
  proof (cases q)
    case (Ask v tag k)
    then have "resumes G N dt v u k" "go_type (g_types G) v" using h by (auto simp: resumes_def)
    then show ?thesis using r Ask fr ty N by (auto intro!: step_fits_same)
  next
    case (Now m)
    show ?thesis
    proof (cases m)
      case (Ret c)
      let ?cc = "toXCodec P c u"
      have "fits G dt u c" using h Now Ret by (simp add: well_built_def fitting_def)
      then have cc: "fits G dt u ?cc" "callable G ?cc"
        using toXCodec_callable [OF same_platformD(1) [OF assms]] by (auto simp: toXCodec_def intro: fit_wrapper)
      then show ?thesis using r Now Ret fr ty N typed_upd(1) [OF ty(1) cc(1), of "snd (j_key j)"]
        by (auto simp: Let_def intro!: step_fits_same)
    qed (use r Now ty(1) in \<open>auto intro: crashed_fits\<close>)
  qed
qed

lemma load_or_store_fits:
  assumes "same_platform P G"
  shows "keeps_types P G (LoadOrStore xt tag)"
proof (rule keeps_typesI)
  fix dt t u fs r N and sh :: shared
  assume r: "act P (LoadOrStore xt tag) fs sh = Some r" and N: "N = cr_next (sh_coder sh)"
    and fr: "frames_fit G N dt u fs t" "\<forall>x\<in>set (unpublished (List.map fst fs)). claim_dc x < N"
    and ty: "typed_coder G dt (sh_coder sh)" "control_fits G N dt u (LoadOrStore xt tag)" and ok: "shared_ok sh"
  show "step_fits G dt t sh r"
  proof (cases "cr_known (sh_coder sh) xt")
    case (Some c)
    then show ?thesis using r fr(1) ty N typed_coderD(1) [OF ty(1) Some]
      by (auto intro: hand_over_fits [OF same_platformD(1) [OF assms]])
  next
    case None
    let ?dt = "dt(N := u)" and ?j = "\<lparr>j_key = xt, j_tag = tag, j_dc = N\<rparr>"
    have agree: "agree N dt ?dt" by (simp add: agree_def)
    have "N \<notin> dom (cr_real (sh_coder sh))" using ok N by (auto simp: shared_ok_def Let_def)
    with ok have "typed_coder G ?dt ((sh_coder sh)\<lparr>cr_next := Suc N, cr_known := (cr_known (sh_coder sh))(xt \<mapsto> CDeferred N)\<rparr>)"
      using typed_open [OF ty(1) N, of "fst xt" "snd xt"] ty(2) N by (simp add: shared_ok_def Let_def)
    moreover have "owes G (Suc N) ?dt u (ask_codec P u tag)"
      using fit_platform.builds_codec [OF same_platformD(3) [OF assms]] ty(2)
      by (auto simp: owes_def answers_fit_def answers_below_def intro!: exI [of _ "{}"])
    moreover have "frames_fit G (Suc N) ?dt u fs t" by (rule frames_fit_grow [OF agree _ fr]) simp
    ultimately show ?thesis
      using r None ty(2) N agree unfolding step_fits_def
      by (auto simp: Let_def job_fits_def intro!: exI [of _ ?dt] go_fitsI)
  qed
qed

lemma act_fits: "same_platform P G \<Longrightarrow> keeps_types P G a"
  by (cases a) (simp_all only: load_fits load_or_store_fits constructing_fits publish_fits returned_fits
      registering_fits, simp_all add: keeps_types_def)

section \<open>All interleavings\<close>

lemma act_next: "act P a fs sh = Some (g', sh') \<Longrightarrow> cr_next (sh_coder sh) \<le> cr_next (sh_coder sh')"
proof (cases a)
  case (Constructing j r)
  assume "act P a fs sh = Some (g', sh')"
  then show ?thesis using Constructing by (cases r) (auto simp: Let_def split: outcome.splits)
next
  case (Returned c)
  assume "act P a fs sh = Some (g', sh')"
  then show ?thesis using Returned by (cases fs) auto
next
  case (Registering t c)
  assume "act P a fs sh = Some (g', sh')"
  then show ?thesis using Registering register_known [of P t c "sh_coder sh"] by (auto split: outcome.splits)
qed (auto simp: Let_def split: option.splits if_splits)

lemma go_claims_below:
  assumes "sys_ok s" "g \<in> set (s_go s)"
  shows "\<forall>x\<in>set (claims g). claim_dc x < cr_next (sh_coder (s_shared s))"
  using sys_okD(4) [OF assms] claim_okD(1) by blast

lemma go_step_fits:
  assumes "same_platform P G" "go_step P s s'" "sys_ok s" "sys_fits G dt ts s"
  shows "\<exists>dt'. agree (cr_next (sh_coder (s_shared s))) dt dt' \<and> sys_fits G dt' ts s'"
  using assms(2)
proof (cases rule: go_step.cases)
  case (go_act i gs sh g' sh')
  let ?N = "cr_next (sh_coder sh)" and ?N' = "cr_next (sh_coder sh')"
  note ok = sys_okD [OF assms(3), unfolded go_act(1), simplified] and below = go_claims_below [OF assms(3), unfolded go_act(1), simplified]
  have ty: "typed_coder G dt (sh_coder sh)" "list_all2 (go_fits G ?N dt) ts gs"
    using assms(4) go_act(1) by (simp_all add: sys_fits_def)
  have len: "length ts = length gs" using ty(2) by (rule list_all2_lengthD)
  have mem: "gs ! i \<in> set gs" using go_act(3) by simp
  obtain u where u: "control_fits G ?N dt u (g_next (gs ! i))" "frames_fit G ?N dt u (g_frames (gs ! i)) (ts ! i)"
    using list_all2_nthD2 [OF ty(2) go_act(3)] by (auto simp: go_fits_def)
  have "\<forall>x\<in>set (unpublished (List.map fst (g_frames (gs ! i)))). claim_dc x < ?N"
    using below [OF mem] by (simp add: claims_def)
  then have "step_fits G dt (ts ! i) sh (g', sh')"
    using act_fits [OF assms(1), of "g_next (gs ! i)"] go_act(4) ok(1,3) [OF mem] ty(1) u
    unfolding keeps_types_def by (auto simp: goroutine_eta)
  then obtain dt' where dt': "agree ?N dt dt'" "typed_coder G dt' (sh_coder sh')" "go_fits G ?N' dt' (ts ! i) g'"
    by (auto simp: step_fits_def)
  have "go_fits G ?N' dt' (ts ! k) (gs ! k)" if "k < length gs" for k
    using go_fits_grow [OF list_all2_nthD2 [OF ty(2) that] ok(3) [OF nth_mem [OF that]] below [OF nth_mem [OF that]] dt'(1)
      act_next [OF go_act(4)]] .
  then have "list_all2 (go_fits G ?N' dt') ts (gs[i := g'])"
    using list_all2_update_cong [of "go_fits G ?N' dt'" ts gs "ts ! i" g' i] dt'(3) len
    by (simp add: list_all2_conv_all_nth)
  then show ?thesis using dt'(1,2) go_act(1,2) by (auto simp: sys_fits_def)
qed

lemma later_next: "sys_later P s s' \<Longrightarrow> cr_next (sh_coder (s_shared s)) \<le> cr_next (sh_coder (s_shared s'))"
  unfolding sys_later_def
  by (induction rule: rtranclp_induct) (auto elim!: sys_step.cases go_step.cases dest: act_next)

definition asks_for :: "control \<Rightarrow> gtype \<Rightarrow> bool" where
  "asks_for a t \<longleftrightarrow> a = LoadBase t \<or> (\<exists>tag. a = LoadKnown t tag)"

lemma begins_fits:
  assumes "same_platform P G" "starts P s a" "sys_fits G dt ts s"
  obtains t where "sys_fits G dt (ts @ [t]) (begins a s)" "asks_for a u \<longrightarrow> t = u"
proof -
  have "\<exists>t. control_fits G N dt t a \<and> (asks_for a u \<longrightarrow> t = u)" for N
    using assms(2) same_platformD(2) [OF assms(1)] by (auto simp: starts_def asks_for_def split: control.splits codec.splits)
  then obtain t where t: "control_fits G (cr_next (sh_coder (s_shared s))) dt t a" "asks_for a u \<longrightarrow> t = u" by blast
  have "sys_fits G dt (ts @ [t]) (begins a s)"
    using assms(3) go_fitsI [OF t(1), of "[]" t] by (simp add: sys_fits_def begins_def list_all2_appendI)
  with t(2) show thesis by (intro that)
qed

lemma interleaved_fits:
  assumes "same_platform P G"
  shows "sys_later P s s' \<Longrightarrow> sys_ok s \<Longrightarrow> sys_fits G dt ts s \<Longrightarrow>
    \<exists>dt' more. agree (cr_next (sh_coder (s_shared s))) dt dt' \<and> sys_fits G dt' (ts @ more) s'"
  unfolding sys_later_def
proof (induction rule: rtranclp_induct)
  case base
  then show ?case by (auto simp: agree_def intro!: exI [of _ dt] exI [of _ "[]"])
next
  case (step s1 s2)
  then obtain dt1 more where 1: "agree (cr_next (sh_coder (s_shared s))) dt dt1" "sys_fits G dt1 (ts @ more) s1" by blast
  have later: "sys_later P s s1" using step(1) by (simp add: sys_later_def)
  note ok = sys_later_ok [OF later step(4)]
  from step(2) show ?case
  proof (cases rule: sys_step.cases)
    case sys_go
    from go_step_fits [OF assms sys_go ok 1(2)] obtain dt2 where
      2: "agree (cr_next (sh_coder (s_shared s1))) dt1 dt2" "sys_fits G dt2 (ts @ more) s2" by blast
    show ?thesis using agree_trans [OF 1(1) 2(1)] later_next [OF later] 2(2) by blast
  next
    case (sys_start a)
    from begins_fits [OF assms sys_start(2) 1(2)] obtain t where "sys_fits G dt1 ((ts @ more) @ [t]) (begins a s1)" .
    then show ?thesis using 1(1) sys_start(1) by (auto simp: begins_def intro!: exI [of _ dt1] exI [of _ "more @ [t]"])
  qed
qed

section \<open>Codecs that were handed out\<close>

text \<open>
  \<open>handed_out P t c cr\<close>: a request for type \<open>t\<close> was answered with \<open>c\<close>, and \<open>cr\<close> is the registry
  then or later: a request of \<open>Coder\<close>, by the only goroutine there is, or one of a goroutine
  among any number of others.
\<close>

inductive handed_out :: "platform \<Rightarrow> gtype \<Rightarrow> codec \<Rightarrow> coder \<Rightarrow> bool" for P :: platform where
  by_getCodec: "reachable P cr \<Longrightarrow> go_type (p_types P) t \<Longrightarrow> getCodec n P t tag cr = Ret (c, cr1) \<Longrightarrow>
     later P cr1 cr2 \<Longrightarrow> handed_out P t c cr2"
| by_getBaseCodec: "reachable P cr \<Longrightarrow> go_type (p_types P) t \<Longrightarrow> getBaseCodec n P t cr = Ret (c, cr1) \<Longrightarrow>
     later P cr1 cr2 \<Longrightarrow> handed_out P t c cr2"
| by_goroutine: "sys_reachable P s0 \<Longrightarrow> starts P s0 a \<Longrightarrow> asks_for a t \<Longrightarrow> sys_later P (begins a s0) s \<Longrightarrow>
     s_go s ! length (s_go s0) = \<lparr>g_next = Returned c, g_frames = []\<rparr> \<Longrightarrow> sys_later P s s' \<Longrightarrow>
     handed_out P t c (sh_coder (s_shared s'))"

lemma later_length: "sys_later P s s' \<Longrightarrow> length (s_go s) \<le> length (s_go s')"
  unfolding sys_later_def
  by (induction rule: rtranclp_induct) (auto elim!: sys_step.cases go_step.cases)

lemma goroutine_fits:
  assumes "same_platform P G" "sys_reachable P s0" "starts P s0 a" "asks_for a t" "sys_later P (begins a s0) s"
    and "s_go s ! length (s_go s0) = \<lparr>g_next = Returned c, g_frames = []\<rparr>" "sys_later P s s'"
  shows "\<exists>dt. typed_coder G dt (sh_coder (s_shared s')) \<and> fits G dt t c"
proof -
  let ?n = "length (s_go s0)"
  have "sys_fits G (\<lambda>_. t) [] fresh_system"
    by (simp add: sys_fits_def fresh_system_def typed_coder_def NewCoder_def)
  from interleaved_fits [OF assms(1) assms(2) [unfolded sys_reachable_def] fresh_system_ok this]
  obtain dt0 ts where "sys_fits G dt0 ts s0" by auto
  moreover from this have len: "length ts = ?n" by (auto simp: sys_fits_def dest: list_all2_lengthD)
  ultimately obtain u where "sys_fits G dt0 (ts @ [u]) (begins a s0)" "u = t"
    using begins_fits [OF assms(1,3)] assms(4) by metis
  moreover have ok0: "sys_ok (begins a s0)"
    using sys_later_ok [OF begins_later [OF assms(3)] sys_reachable_ok [OF assms(2)]] .
  ultimately obtain dt1 more where 1: "sys_fits G dt1 (ts @ t # more) s"
    using interleaved_fits [OF assms(1,5)] by fastforce
  note ok = sys_later_ok [OF assms(5) ok0]
  have n: "?n < length (s_go s)" using later_length [OF assms(5)] by (simp add: begins_def)
  then have go: "go_ok (cr_next (sh_coder (s_shared s))) (s_go s ! ?n)" using sys_okD(3) [OF ok nth_mem] by blast
  have "go_fits G (cr_next (sh_coder (s_shared s))) dt1 ((ts @ t # more) ! ?n) (s_go s ! ?n)"
    using 1 n by (auto simp: sys_fits_def dest: list_all2_nthD2)
  then have c: "fits G dt1 t c" using assms(6) len by (auto simp: go_fits_def nth_append)
  from interleaved_fits [OF assms(1,7) ok 1] obtain dt2 where
    "agree (cr_next (sh_coder (s_shared s))) dt1 dt2" "typed_coder G dt2 (sh_coder (s_shared s'))"
    by (auto simp: sys_fits_def)
  then show ?thesis using fits_grow [OF c] go assms(6) by (auto simp: go_ok_def)
qed

lemma handed_out_fits:
  assumes "same_platform P G" "handed_out P t c cr"
  shows "go_type (g_types G) t" "\<exists>dt. typed_coder G dt cr \<and> fits G dt t c"
proof -
  have T: "p_types P = g_types G" by (rule same_platformD(2) [OF assms(1)])
  show t: "go_type (g_types G) t"
    using assms(2) by cases (auto simp: T starts_def asks_for_def)
  show "\<exists>dt. typed_coder G dt cr \<and> fits G dt t c"
    using assms(2)
  proof cases
    case by_getCodec
    then show ?thesis using answered_fits [OF assms(1) _ _ getCodec_ok getCodec_fits [OF assms(1) t]] by blast
  next
    case by_getBaseCodec
    then show ?thesis using answered_fits [OF assms(1) _ _ getBaseCodec_ok getBaseCodec_fits [OF assms(1) t]] by blast
  next
    case by_goroutine
    then show ?thesis using goroutine_fits [OF assms(1)] by blast
  qed
qed

lemma handed_out_env:
  assumes "same_platform P G" "handed_out P t c cr" "g_real G = cr_real cr" "\<forall>c'\<in>ran (cr_real cr). plain G c'"
  obtains dt where "typed_env G dt" "fits G dt t c"
  using handed_out_fits(2) [OF assms(1,2)] typed_env_of [OF assms(1) _ assms(3,4)] that by blast

text \<open>The example type: by one request, and for the second of two goroutines.\<close>

lemma list_handed_out: "handed_out list_platform (GNamed ''T'') (CPtr (CDeferred 0) (GNamed ''T'')) list_coder"
  by (rule by_getCodec [OF list_types(3) _ list_request list_types(4)]) (simp add: list_platform_def go_type_def)

lemma list_handed_over: "handed_out list_platform (GNamed ''T'') (CDeferred 0) list_coder"
proof -
  let ?a = "LoadKnown (GNamed ''T'') []"
  let ?start = "begins ?a fresh_system" and ?s = "two_requests list_platform (GNamed ''T'') [0, 0, 1]"
  let ?s' = "fold (turn list_platform) [0, 0, 0, 0, 0, 0, 0] ?s"
  have a: "starts list_platform s ?a" for s by (simp add: starts_def list_platform_def go_type_def)
  have "sys_later list_platform (begins ?a ?start) ?s" unfolding two_requests_def by (rule turns_later)
  moreover have "s_go ?s ! length (s_go ?start) = \<lparr>g_next = Returned (CDeferred 0), g_frames = []\<rparr>"
    by (simp add: turn_simps list_nounsafe ask_list)
  ultimately have "handed_out list_platform (GNamed ''T'') (CDeferred 0) (sh_coder (s_shared ?s'))"
    by (rule by_goroutine [OF reachable_later [OF fresh_reachable begins_later [OF a]] a _ _ _ turns_later, rotated])
      (simp add: asks_for_def)
  moreover have "sh_coder (s_shared ?s') = list_coder"
    by (simp add: turn_simps list_nounsafe ask_list tag_Empty_def list_coder_def)
  ultimately show ?thesis by simp
qed

section \<open>Properties\<close>

text \<open>
  C21. Every codec a coder hands out fits the type it was requested for, whatever requests
  and registrations came before and come after, and whatever other goroutines did in
  between: kinds, element types, lengths, field indices, memory offsets and element sizes
  are those of the type, every union arm that a switch value selects has a codec, and what
  deferred codecs resolve to fits the type they were made for.
\<close>

theorem codecs_fit_their_types:
  assumes "same_platform P G" and "handed_out P t c cr"
  shows "\<exists>dt. fits G dt t c \<and> (\<forall>k c'. cr_real cr k = Some c' \<longrightarrow> fits G dt (dt k) c')"
  using handed_out_fits(2) [OF assms] by (auto simp: typed_coder_def)

theorem codecs_fit_their_types_witness:
  "\<exists>dt. fits list_env dt (GNamed ''T'') (CPtr (CDeferred 0) (GNamed ''T''))"
  using codecs_fit_their_types [OF list_types(1) list_handed_out] by blast

text \<open>
  C22. Type safety, end to end: with a codec handed out by a coder, by any number of
  goroutines that share it, in the registry of that moment or any later one, encoding a
  value of the requested type never panics. Decoding any input into such a value panics only
  if the run-time system refuses to allocate a slice, which takes a codec, \<open>c\<close> itself or one
  in the registry, whose maximum times the size of the elements is beyond the platform
  (\<open>allocatable\<close>; C6 has inputs that do it); when it returns, it leaves a value of the type.
  The codecs involved, those in the registry included, must not run foreign code, and use
  \<open>opaque\<close> on bytes proper only; the decoder must not panic itself and must fill the buffers
  it is given.
\<close>

theorem decoding_is_type_safe:
  assumes "same_platform P G" and "handed_out P t c cr" and "g_real G = cr_real cr"
    and "\<forall>c'\<in>insert c (ran (cr_real cr)). plain G c'" and "of_type (g_types G) t v" and "typed_decoder D"
  shows "enc m G E c v e \<noteq> Panic msg
    \<and> (dec m G D c v d = Panic msg \<longrightarrow>
        msg = alloc_panic \<and> (\<exists>c'\<in>insert c (ran (cr_real cr)). \<not> allocatable G c'))
    \<and> (dec m G D c v d = Ret (err, v', d') \<longrightarrow> of_type (g_types G) t v')"
proof -
  obtain dt where env: "typed_env G dt" "fits G dt t c"
    by (rule handed_out_env [OF assms(1-3)]) (use assms(4) in simp)
  have c: "plain G c" using assms(4) by simp
  note t = handed_out_fits(1) [OF assms(1,2)]
  let ?B = "\<exists>c'\<in>insert c (ran (cr_real cr)). \<not> allocatable G c'"
  have "safe_dec ?B (g_types G) t (dec m G D c)"
    by (rule typed_decoder.dec_safe [OF assms(6) env c t]) (use assms(3) in auto)
  note d = safe_decD [OF this assms(5), of d] and e = safe_encD [OF enc_safe [OF env c t] assms(5), of m E e]
  show ?thesis using d e by (auto simp: calm_ret_def)
qed

theorem decoding_is_type_safe_witness:
  "\<forall>m bs msg. dec m list_env (decoder_call (2 ^ 63 - 1) bytes_read) (CDeferred 0)
     (VPtr None) \<lparr>dec_r = bs, dec_cr = 0\<rparr> \<noteq> Panic msg"
proof -
  have v: "of_type (g_types list_env) (GNamed ''T'') (VPtr None)"
    by (rule ot_nil_ptr) (simp add: list_env_def kind_def under_def)
  have r: "g_real list_env = cr_real list_coder" by (simp add: list_env_def)
  have p: "\<forall>c'\<in>insert (CDeferred 0) (ran (cr_real list_coder)). plain list_env c'"
    and a: "\<forall>c'\<in>insert (CDeferred 0) (ran (cr_real list_coder)). allocatable list_env c'"
    by (simp_all add: list_coder_def)
  note safe = decoding_is_type_safe [OF list_types(1) list_handed_over r p v bytes_typed.typed_decoder_axioms]
  show ?thesis using safe [THEN conjunct2, THEN conjunct1] a by blast
qed

end
