(* ===== verification/GoTerm.thy ===== *)
theory GoTerm
  imports GoProps
begin

text \<open>
  Every schedule ends. A goroutine pays for each of its steps; a construction is paid for
  by the key it publishes, of which there are finitely many, as its builder asks for a
  bounded number of inner codecs.
\<close>

section \<open>What goroutines can still cost\<close>

context request_space
begin

definition keys :: "xtype set" where
  "keys = {xt. asked xt}"

definition missing :: "shared \<Rightarrow> nat" where
  "missing sh = card (keys - dom (cr_known (sh_coder sh)))"

text \<open>A request that asks \<open>m\<close> more times takes at most \<open>5 * m + 7\<close> steps, inner constructions aside.\<close>

definition request_cost :: "codec request \<Rightarrow> nat \<Rightarrow> bool" where
  "request_cost r n \<longleftrightarrow> (\<exists>m. within asked r m \<and> 5 * m + 7 \<le> n)"

definition frame_cost :: "frame \<Rightarrow> nat \<Rightarrow> bool" where
  "frame_cost f n \<longleftrightarrow> (\<exists>m. (\<forall>c. within asked (snd f c) m) \<and> 5 * m + 7 \<le> n)"

fun frames_cost :: "frame list \<Rightarrow> nat \<Rightarrow> bool" where
  "frames_cost [] n \<longleftrightarrow> True"
| "frames_cost (f # fs) n \<longleftrightarrow> (\<exists>a b. frame_cost f a \<and> frames_cost fs b \<and> a + b \<le> n)"

fun next_cost :: "control \<Rightarrow> nat \<Rightarrow> bool" where
  "next_cost (LoadBase t) n \<longleftrightarrow> t \<in> T \<and> 4 \<le> n"
| "next_cost (LoadKnown t tag) n \<longleftrightarrow> asked (t, tag) \<and> 4 \<le> n"
| "next_cost (LoadOrStore xt tag) n \<longleftrightarrow> asked xt \<and> snd xt = tag \<and> 3 \<le> n"
| "next_cost (Constructing j r) n \<longleftrightarrow> request_cost r n"
| "next_cost (StoreBase j c) n \<longleftrightarrow> 5 \<le> n"
| "next_cost (StoreReal j c) n \<longleftrightarrow> 4 \<le> n"
| "next_cost (SignalDone j c) n \<longleftrightarrow> 3 \<le> n"
| "next_cost (Returned c) n \<longleftrightarrow> 2 \<le> n"
| "next_cost (Registering t c) n \<longleftrightarrow> 1 \<le> n"
| "next_cost (CallDeferred dc) n \<longleftrightarrow> 4 \<le> n"
| "next_cost (Waiting dc) n \<longleftrightarrow> 3 \<le> n"
| "next_cost Finished n \<longleftrightarrow> True"
| "next_cost (Crashed js msg) n \<longleftrightarrow> True"

definition go_cost :: "goroutine \<Rightarrow> nat \<Rightarrow> bool" where
  "go_cost g n \<longleftrightarrow> (\<exists>a b. next_cost (g_next g) a \<and> frames_cost (g_frames g) b \<and> a + b \<le> n)"

lemma go_costI: "next_cost a m \<Longrightarrow> frames_cost fs b \<Longrightarrow> m + b \<le> n \<Longrightarrow> go_cost \<lparr>g_next = a, g_frames = fs\<rparr> n"
  unfolding go_cost_def by fastforce

lemma hand_over_cost: "frames_cost fs b \<Longrightarrow> 2 + b \<le> n \<Longrightarrow> go_cost (hand_over P' c fs) n"
  using go_costI [of "Returned c" 2 fs b n] go_costI [of "Crashed js msg" 0 "[]" 0 n for js msg]
  by (simp add: hand_over_def unwind_def)

lemma unwind_cost: "go_cost (unwind fs msg) n" "go_cost \<lparr>g_next = Crashed js msg, g_frames = []\<rparr> n"
  by (auto simp: unwind_def intro: go_costI [of _ 0 _ 0])

lemma missing_less:
  assumes "finite keys" "dom (cr_known (sh_coder sh)) \<subseteq> dom (cr_known (sh_coder sh'))"
  shows "missing sh' \<le> missing sh"
    and "xt \<in> keys \<Longrightarrow> cr_known (sh_coder sh) xt = None \<Longrightarrow> cr_known (sh_coder sh') xt \<noteq> None \<Longrightarrow> missing sh' < missing sh"
  unfolding missing_def using assms by (auto intro!: card_mono psubset_card_mono)

text \<open>\<open>pays\<close>: after a step there is less to pay, where each missing key costs \<open>K\<close>.\<close>

definition pays :: "nat \<Rightarrow> nat \<Rightarrow> shared \<Rightarrow> goroutine \<times> shared \<Rightarrow> bool" where
  "pays K n sh r \<longleftrightarrow> missing (snd r) \<le> missing sh \<and> (\<exists>n'. go_cost (fst r) n' \<and> n' + K * missing (snd r) < n + K * missing sh)"

lemma paysI: "missing sh' \<le> missing sh \<Longrightarrow> go_cost g' n' \<Longrightarrow> n' < n \<Longrightarrow> pays K n sh (g', sh')"
  unfolding pays_def by (auto intro!: exI [of _ n'] add_less_le_mono)

lemma open_pays:
  assumes "finite keys" and W: "\<And>t. t \<in> T \<Longrightarrow> request_width P t \<le> W"
    and "asked xt" "snd xt = tag" "3 \<le> m" "frames_cost fs b" "cr_known (sh_coder sh) xt = None"
    and "act P (LoadOrStore xt tag) fs sh = Some r"
  shows "pays (5 * W + 7) (m + b) sh r"
proof -
  obtain j sh' where r: "r = (\<lparr>g_next = Constructing j (ask_codec P (fst xt) tag), g_frames = fs\<rparr>, sh')"
    and known: "cr_known (sh_coder sh') = (cr_known (sh_coder sh))(xt \<mapsto> CDeferred (cr_next (sh_coder sh)))"
    using assms(7,8) by (auto simp: Let_def)
  have xt: "fst xt \<in> T" "length tag \<le> L" "xt \<in> keys" using assms(3,4) by (auto simp: asked_def keys_def)
  have less: "missing sh' \<le> missing sh" "missing sh' < missing sh"
    using missing_less(1) [OF assms(1), of sh sh'] missing_less(2) [OF assms(1), of sh sh' xt] xt(3) assms(7) known by auto
  have "request_cost (ask_codec P (fst xt) tag) (5 * W + 7)"
    unfolding request_cost_def using within_codec [OF xt(1,2)] W [OF xt(1)]
    by (intro exI [of _ "request_width P (fst xt)"]) simp
  then have "go_cost (fst r) (5 * W + 7 + b)"
    using assms(6) by (auto simp: r intro: go_costI)
  moreover have "(5 * W + 7) + (5 * W + 7) * missing sh' \<le> (5 * W + 7) * missing sh"
    using mult_le_mono2 [of "Suc (missing sh')" "missing sh" "5 * W + 7"] less(2) by simp
  ultimately show ?thesis using less(1) assms(5) unfolding pays_def
    by (intro conjI exI [of _ "5 * W + 7 + b"]) (auto simp: r)
qed

lemma ask_pays:
  assumes "request_cost (Ask t tag k) m" "frames_cost fs b"
  shows "pays K (m + b) sh (\<lparr>g_next = LoadKnown t tag, g_frames = (j, k) # fs\<rparr>, sh)"
proof -
  obtain i where i: "0 < i" "asked (t, tag)" "\<And>c. within asked (k c) (i - 1)" "5 * i + 7 \<le> m"
    using assms(1) by (auto simp: request_cost_def)
  have "frame_cost (j, k) (5 * (i - 1) + 7)" using i(3) by (auto simp: frame_cost_def)
  then have "frames_cost ((j, k) # fs) (5 * (i - 1) + 7 + b)" using assms(2) by fastforce
  then have "go_cost \<lparr>g_next = LoadKnown t tag, g_frames = (j, k) # fs\<rparr> (4 + (5 * (i - 1) + 7 + b))"
    using i(2) by (intro go_costI [of _ 4]) auto
  then show ?thesis by (rule paysI [OF order_refl]) (use i(1,4) in auto)
qed

lemma return_pays:
  assumes "2 \<le> m" "frames_cost ((j, k) # fs) b"
  shows "pays K (m + b) sh (\<lparr>g_next = Constructing j (k c), g_frames = fs\<rparr>, sh)"
proof -
  obtain x y where "frame_cost (j, k) x" "frames_cost fs y" "x + y \<le> b" using assms(2) by auto
  moreover have "request_cost (k c) x" using \<open>frame_cost (j, k) x\<close> by (auto simp: frame_cost_def request_cost_def)
  ultimately have "go_cost \<lparr>g_next = Constructing j (k c), g_frames = fs\<rparr> b" by (auto intro: go_costI)
  then show ?thesis by (rule paysI [OF order_refl]) (use assms(1) in simp)
qed

lemma step_pays:
  assumes "frames_cost fs b" "finite keys" "dom (cr_known (sh_coder sh)) \<subseteq> dom (cr_known (sh_coder sh'))"
  shows "next_cost a k \<Longrightarrow> k < m \<Longrightarrow> pays K (m + b) sh (\<lparr>g_next = a, g_frames = fs\<rparr>, sh')"
    and "2 < m \<Longrightarrow> pays K (m + b) sh (hand_over P' c fs, sh')"
    and "0 < m \<Longrightarrow> pays K (m + b) sh (unwind fs msg, sh')"
    and "0 < m \<Longrightarrow> pays K (m + b) sh (\<lparr>g_next = Crashed js msg, g_frames = []\<rparr>, sh')"
proof -
  note less = missing_less(1) [OF assms(2,3)]
  show "pays K (m + b) sh (\<lparr>g_next = a, g_frames = fs\<rparr>, sh')" if "next_cost a k" "k < m"
    by (rule paysI [OF less go_costI [OF that(1) assms(1) order_refl]]) (use that in simp)
  show "pays K (m + b) sh (hand_over P' c fs, sh')" if "2 < m"
    by (rule paysI [OF less hand_over_cost [OF assms(1) order_refl]]) (use that in simp)
  show "pays K (m + b) sh (unwind fs msg, sh')" "pays K (m + b) sh (\<lparr>g_next = Crashed js msg, g_frames = []\<rparr>, sh')"
    if "0 < m"
    by (rule paysI [OF less unwind_cost(1), of 0] paysI [OF less unwind_cost(2), of 0], use that in simp)+
qed

text \<open>The looks into the tables, and the steps that store and resolve.\<close>

lemma load_pays:
  assumes "finite keys" "act P a fs sh = Some r" and c: "next_cost a m" "frames_cost fs b"
  shows "a = LoadBase t \<Longrightarrow> pays K (m + b) sh r" "a = LoadKnown t tag \<Longrightarrow> pays K (m + b) sh r"
    "a = CallDeferred dc \<Longrightarrow> pays K (m + b) sh r" "a = Waiting dc \<Longrightarrow> pays K (m + b) sh r"
  using assms by (auto simp: asked_iff ByteString_def Let_def split: option.splits if_splits
      intro!: step_pays(1) [OF c(2) assms(1), where k = 3] step_pays(2,3) [OF c(2) assms(1)])

lemma store_pays:
  assumes "finite keys" "act P a fs sh = Some r" and c: "next_cost a m" "frames_cost fs b"
  shows "a = Registering t x \<Longrightarrow> pays K (m + b) sh r" "a = StoreBase j cc \<Longrightarrow> pays K (m + b) sh r"
    "a = StoreReal j cc \<Longrightarrow> pays K (m + b) sh r" "a = SignalDone j cc \<Longrightarrow> pays K (m + b) sh r"
proof -
  note pay = step_pays [OF c(2) assms(1)]
  show "pays K (m + b) sh r" if "a = Registering t x"
    using assms(2) c(1) register_known [of P t x "sh_coder sh"] that
    by (auto split: outcome.splits intro!: pay(1) [where k = 0] pay(3))
  show "pays K (m + b) sh r" if "a = StoreBase j cc"
    using assms(2) c(1) that by (auto simp: Let_def intro!: pay(1) [where k = 4])
  show "pays K (m + b) sh r" if "a = StoreReal j cc"
    using assms(2) c(1) that by (auto simp: Let_def intro!: pay(1) [where k = 3])
  show "pays K (m + b) sh r" if "a = SignalDone j cc"
    using assms(2) c(1) that by (auto split: if_splits intro!: pay(1) [where k = 2] pay(3))
qed

lemma act_pays:
  assumes "finite keys" and W: "\<And>t. t \<in> T \<Longrightarrow> request_width P t \<le> W"
    and r: "act P a fs sh = Some r" and c: "next_cost a m" "frames_cost fs b"
  shows "pays (5 * W + 7) (m + b) sh r"
proof (cases a)
  case (LoadOrStore xt tag)
  show ?thesis
  proof (cases "cr_known (sh_coder sh) xt")
    case None
    then show ?thesis using assms LoadOrStore by (intro open_pays [OF assms(1) W]) auto
  qed (use r c LoadOrStore in \<open>auto intro: step_pays [OF c(2) assms(1)]\<close>)
next
  case (Constructing j q)
  show ?thesis
  proof (cases q)
    case (Now x)
    then have "5 < m" using c(1) Constructing by (auto simp: request_cost_def)
    then show ?thesis using r Now Constructing
      by (cases x) (auto simp: Let_def intro!: step_pays(1) [OF c(2) assms(1), where k = 5]
          step_pays(4) [OF c(2) assms(1)])
  qed (use r c Constructing ask_pays in auto)
next
  case (Returned x)
  show ?thesis
  proof (cases fs)
    case (Cons f rest)
    obtain j k where f: "f = (j, k)" by (cases f)
    then have "r = (\<lparr>g_next = Constructing j (k x), g_frames = rest\<rparr>, sh)" using r Cons Returned by simp
    then show ?thesis using return_pays [of m j k rest b] c Cons f Returned by simp
  qed (use r Returned in simp)
qed (use r load_pays [OF assms(1) r c] store_pays [OF assms(1) r c] in simp_all)

text \<open>All goroutines together.\<close>

definition all_cost :: "nat \<Rightarrow> system \<Rightarrow> nat \<Rightarrow> bool" where
  "all_cost K s n \<longleftrightarrow> (\<exists>ns. length ns = length (s_go s) \<and> (\<forall>i<length ns. go_cost (s_go s ! i) (ns ! i))
     \<and> sum_list ns + K * missing (s_shared s) \<le> n)"

lemma sum_list_upd: "i < length ns \<Longrightarrow> sum_list (ns[i := x]) + ns ! i = sum_list ns + (x :: nat)"
  by (induction ns arbitrary: i) (auto split: nat.split)

lemma go_step_pays:
  assumes "finite keys" and W: "\<And>t. t \<in> T \<Longrightarrow> request_width P t \<le> W"
    and "go_step P s s'" and "all_cost (5 * W + 7) s n"
  shows "0 < n \<and> all_cost (5 * W + 7) s' (n - 1)"
  using assms(3)
proof (cases rule: go_step.cases)
  case (go_act i gs sh g' sh')
  obtain ns where ns: "length ns = length gs" "\<And>i. i < length gs \<Longrightarrow> go_cost (gs ! i) (ns ! i)"
    "sum_list ns + (5 * W + 7) * missing sh \<le> n"
    using assms(4) go_act(1) by (auto simp: all_cost_def)
  obtain a b where "next_cost (g_next (gs ! i)) a" "frames_cost (g_frames (gs ! i)) b" "a + b \<le> ns ! i"
    using ns(2) [OF go_act(3)] by (auto simp: go_cost_def)
  with act_pays [OF assms(1) W go_act(4)] obtain k where k: "go_cost g' k"
    "k + (5 * W + 7) * missing sh' < ns ! i + (5 * W + 7) * missing sh"
    by (fastforce simp: pays_def)
  let ?ns = "ns[i := k]"
  have i: "i < length ns" using go_act(3) ns(1) by simp
  have "go_cost (gs[i := g'] ! l) (?ns ! l)" if "l < length gs" for l
    using that ns(1,2) k(1) i by (cases "l = i") auto
  moreover have "sum_list ?ns + (5 * W + 7) * missing sh' < n"
    using sum_list_upd [OF i, of k] k(2) ns(3) by linarith
  ultimately show ?thesis
    using ns(1) unfolding all_cost_def go_act(2) by (intro conjI exI [of _ ?ns]) auto
qed

lemma go_steps_pay:
  assumes "finite keys" and W: "\<And>t. t \<in> T \<Longrightarrow> request_width P t \<le> W" and "all_cost (5 * W + 7) s n"
  shows "(go_step P ^^ k) s s' \<Longrightarrow> k \<le> n \<and> all_cost (5 * W + 7) s' (n - k)"
proof (induction k arbitrary: s')
  case (Suc k)
  then obtain s1 where "(go_step P ^^ k) s s1" "go_step P s1 s'" by auto
  with Suc.IH go_step_pays [OF assms(1) W, of s1 s' "n - k"] show ?case by auto
qed (use assms(3) in simp)

end

section \<open>The requests of a program\<close>

definition request_types :: "platform \<Rightarrow> control list \<Rightarrow> gtype set" where
  "request_types P as = (\<Union>a\<in>set as. case a of
     LoadBase t \<Rightarrow> build_types P t | LoadKnown t tag \<Rightarrow> build_types P t | _ \<Rightarrow> {})"

definition request_tags :: "control list \<Rightarrow> xdrtag set" where
  "request_tags as = {tag. \<exists>t. LoadKnown t tag \<in> set as}"

definition request_length :: "platform \<Rightarrow> control list \<Rightarrow> nat" where
  "request_length P as = Max (insert 0 (length ` (field_tags P (request_types P as) \<union> request_tags as)))"

text \<open>The number of steps that suffices for the requests.\<close>

definition step_bound :: "platform \<Rightarrow> control list \<Rightarrow> nat" where
  "step_bound P as = 4 * length as + (5 * Max (insert 0 (request_width P ` request_types P as)) + 7)
     * card (request_types P as \<times> {x :: u8 list. length x \<le> request_length P as})"

lemma request_types_finite: "finite (request_types P as)"
  unfolding request_types_def by (auto simp: build_types_def reach_types_finite split: control.split)

lemma request_tags_finite: "finite (request_tags as)"
proof -
  have "request_tags as \<subseteq> (\<lambda>a. case a of LoadKnown t tag \<Rightarrow> tag | _ \<Rightarrow> []) ` set as"
    by (force simp: request_tags_def)
  then show ?thesis by (rule finite_subset) simp
qed

lemma request_length:
  "tag \<in> field_tags P (request_types P as) \<union> request_tags as \<Longrightarrow> length tag \<le> request_length P as"
  unfolding request_length_def
  by (intro Max_ge) (auto simp: request_tags_finite field_tags_finite [OF request_types_finite])

lemma closed_typesD:
  assumes "closed_types G T" "t \<in> T"
  shows "elem_type G t = Some e \<Longrightarrow> e \<in> T" and "key_type G t = Some k \<Longrightarrow> k \<in> T"
    and "struct_fields G t = Some fs \<Longrightarrow> f \<in> set fs \<Longrightarrow> fld_type f \<in> T"
  using bspec [OF assms(1) [unfolded closed_types_def] assms(2)] by simp_all

lemma closed_types_UN:
  assumes "\<And>a. a \<in> A \<Longrightarrow> closed_types G (F a)"
  shows "closed_types G (\<Union>a\<in>A. F a)"
  unfolding closed_types_def
proof (rule ballI)
  fix t assume "t \<in> (\<Union>a\<in>A. F a)"
  then obtain a where a: "a \<in> A" "t \<in> F a" by blast
  note D = closed_typesD [OF assms [OF a(1)] a(2)]
  show "(\<forall>e. elem_type G t = Some e \<longrightarrow> e \<in> (\<Union>a\<in>A. F a)) \<and> (\<forall>k. key_type G t = Some k \<longrightarrow> k \<in> (\<Union>a\<in>A. F a))
     \<and> (\<forall>fs f. struct_fields G t = Some fs \<longrightarrow> f \<in> set fs \<longrightarrow> fld_type f \<in> (\<Union>a\<in>A. F a))"
    using D a(1) by (intro conjI allI impI UN_I [of a])
qed

lemma request_types_closed: "closed_types (p_types P) (request_types P as)"
  unfolding request_types_def
proof (rule closed_types_UN)
  fix a
  have "closed_types (p_types P) {}" by (simp add: closed_types_def)
  then show "closed_types (p_types P) (case a of LoadBase t \<Rightarrow> build_types P t | LoadKnown t tag \<Rightarrow> build_types P t | _ \<Rightarrow> {})"
    using build_types_closed by (cases a) simp_all
qed

interpretation requests: request_space P "request_types P as" "request_length P as" for P as
  by unfold_locales (use request_types_closed request_length in auto)

lemma request_keys: "requests.keys P as = request_types P as \<times> {x. length x \<le> request_length P as}"
  by (auto simp: requests.keys_def requests.asked_def)

lemma request_keys_finite: "finite (requests.keys P as)"
  unfolding request_keys by (intro finite_cartesian_product request_types_finite short_lists_finite)

lemma request_width_bound:
  "t \<in> request_types P as \<Longrightarrow> request_width P t \<le> Max (insert 0 (request_width P ` request_types P as))"
  using request_types_finite by (intro Max_ge) auto

lemma start_cost:
  assumes "starts P s a" "a \<in> set as"
  shows "requests.go_cost P as \<lparr>g_next = a, g_frames = []\<rparr> 4"
proof -
  have "t \<in> request_types P as" if "LoadBase t \<in> set as \<or> LoadKnown t tag \<in> set as" for t tag
    using that subtypes_refl by (force simp: request_types_def build_types_def reach_types_def)
  moreover have "length tag \<le> request_length P as" if "LoadKnown t tag \<in> set as" for t tag
    using that by (intro request_length) (auto simp: request_tags_def)
  ultimately have "requests.next_cost P as a 4"
    using assms by (cases a) (auto simp: starts_def requests.asked_iff split: codec.splits)
  then show ?thesis by (rule requests.go_costI) simp_all
qed

text \<open>
  C38. Every schedule ends: goroutines that start with any requests, registrations and calls
  of deferred codecs take, in whatever order, no more than \<open>step_bound\<close> steps together.
\<close>

theorem schedules_end:
  assumes "s_go s = List.map (\<lambda>a. \<lparr>g_next = a, g_frames = []\<rparr>) as" and "\<And>a. a \<in> set as \<Longrightarrow> starts P s a"
    and "(go_step P ^^ k) s s'"
  shows "k \<le> step_bound P as"
proof -
  let ?W = "Max (insert 0 (request_width P ` request_types P as))"
  have "requests.missing P as (s_shared s) \<le> card (requests.keys P as)"
    unfolding requests.missing_def by (intro card_mono request_keys_finite) auto
  then have "4 * length as + (5 * ?W + 7) * requests.missing P as (s_shared s) \<le> step_bound P as"
    unfolding step_bound_def request_keys by simp
  then have "requests.all_cost P as (5 * ?W + 7) s (step_bound P as)"
    unfolding requests.all_cost_def using start_cost [OF assms(2)] nth_mem [of _ as] assms(1)
    by (intro exI [of _ "replicate (length as) 4"]) (auto simp: sum_list_replicate)
  from requests.go_steps_pay [OF request_keys_finite request_width_bound this assms(3)] show ?thesis by simp
qed

lemma turn_step: "turn P i s \<noteq> s \<Longrightarrow> go_step P s (turn P i s)"
  using go_act [of i "s_go s" P "s_shared s"]
  by (cases s) (auto simp: turn_def split: if_splits option.splits)

theorem schedules_end_witness:
  "3 \<le> step_bound list_platform [LoadKnown (GNamed ''T'') [], LoadKnown (GNamed ''T'') []]"
proof -
  let ?s = "two_requests list_platform (GNamed ''T'') []"
  let ?s1 = "turn list_platform 0 ?s" let ?s2 = "turn list_platform 1 ?s1" let ?s3 = "turn list_platform 0 ?s2"
  have "?s1 \<noteq> ?s" "?s2 \<noteq> ?s1" "?s3 \<noteq> ?s2" by (simp_all add: turn_simps list_nounsafe ask_list)
  then have "(go_step list_platform ^^ 3) ?s ?s3"
    unfolding numeral_3_eq_3 relpowp.simps by (blast intro: turn_step)
  moreover have "s_go ?s = List.map (\<lambda>a. \<lparr>g_next = a, g_frames = []\<rparr>) [LoadKnown (GNamed ''T'') [], LoadKnown (GNamed ''T'') []]"
    by (simp add: turn_simps)
  moreover have "starts list_platform ?s a" if "a \<in> set [LoadKnown (GNamed ''T'') [], LoadKnown (GNamed ''T'') []]" for a
    using that by (auto simp: starts_def list_platform_def go_type_def)
  ultimately show ?thesis by (intro schedules_end [of ?s]) auto
qed

end
