(* ===== verification/OneGo.thy ===== *)
theory OneGo
  imports GoInv
begin

text \<open>
  One goroutine: the steps of a request, without others in between, compute what \<open>getCodec\<close>
  of \<open>Coder\<close> computes. So the registry of \<open>Coder\<close> is the one of a program that uses its coder
  from one goroutine, and the theorems about it are theorems about the steps.
\<close>

section \<open>Runs of one goroutine\<close>

definition one_step :: "platform \<Rightarrow> goroutine \<times> shared \<Rightarrow> goroutine \<times> shared \<Rightarrow> bool" where
  "one_step P x y \<longleftrightarrow> act P (g_next (fst x)) (g_frames (fst x)) (snd x) = Some y"

definition one_run :: "platform \<Rightarrow> goroutine \<times> shared \<Rightarrow> goroutine \<times> shared \<Rightarrow> bool" where
  "one_run P = (one_step P)\<^sup>*\<^sup>*"

abbreviation go_at :: "control \<Rightarrow> frame list \<Rightarrow> goroutine" where
  "go_at a fs \<equiv> \<lparr>g_next = a, g_frames = fs\<rparr>"

lemma one_run_refl: "one_run P x x"
  by (simp add: one_run_def)

lemma one_run_trans: "one_run P x y \<Longrightarrow> one_run P y z \<Longrightarrow> one_run P x z"
  by (simp add: one_run_def)

lemma one_run_step: "act P a fs sh = Some y \<Longrightarrow> one_run P y z \<Longrightarrow> one_run P (go_at a fs, sh) z"
  unfolding one_run_def by (rule converse_rtranclp_into_rtranclp) (simp_all add: one_step_def)

text \<open>What a run leaves behind: the registry, with newer deferred codecs finished only.\<close>

definition reaches :: "platform \<Rightarrow> control \<Rightarrow> frame list \<Rightarrow> shared \<Rightarrow> control \<Rightarrow> coder \<Rightarrow> bool" where
  "reaches P a fs sh b cr' \<longleftrightarrow> (\<exists>sh'. one_run P (go_at a fs, sh) (go_at b fs, sh') \<and> sh_coder sh' = cr'
     \<and> cr_next (sh_coder sh) \<le> cr_next cr' \<and> sh_done sh' \<subseteq> sh_done sh \<union> {cr_next (sh_coder sh)..<cr_next cr'})"

definition panics :: "platform \<Rightarrow> control \<Rightarrow> frame list \<Rightarrow> shared \<Rightarrow> string \<Rightarrow> bool" where
  "panics P a fs sh msg \<longleftrightarrow> (\<exists>js sh'. one_run P (go_at a fs, sh) (go_at (Crashed js msg) [], sh'))"

lemma reaches_refl: "reaches P a fs sh a (sh_coder sh)"
  unfolding reaches_def using one_run_refl by fastforce

lemma reaches_trans:
  assumes "reaches P a fs sh b cr'" and "\<And>sh'. sh_coder sh' = cr' \<Longrightarrow> sh_done sh' \<subseteq> sh_done sh \<union> {cr_next (sh_coder sh)..<cr_next cr'}
    \<Longrightarrow> reaches P b fs sh' c cr''"
  shows "reaches P a fs sh c cr''"
proof -
  obtain sh' where 1: "one_run P (go_at a fs, sh) (go_at b fs, sh')" "sh_coder sh' = cr'"
    "cr_next (sh_coder sh) \<le> cr_next cr'" "sh_done sh' \<subseteq> sh_done sh \<union> {cr_next (sh_coder sh)..<cr_next cr'}"
    using assms(1) by (auto simp: reaches_def)
  obtain sh'' where 2: "one_run P (go_at b fs, sh') (go_at c fs, sh'')" "sh_coder sh'' = cr''"
    "cr_next cr' \<le> cr_next cr''" "sh_done sh'' \<subseteq> sh_done sh' \<union> {cr_next cr'..<cr_next cr''}"
    using assms(2) [OF 1(2,4)] 1(2) by (auto simp: reaches_def)
  have "sh_done sh'' \<subseteq> sh_done sh \<union> {cr_next (sh_coder sh)..<cr_next cr''}"
    using 1(3,4) 2(3,4) by (force simp: subset_eq)
  then show ?thesis
    unfolding reaches_def using one_run_trans [OF 1(1) 2(1)] 1(3) 2(2,3) by auto
qed

lemma panics_after:
  assumes "reaches P a fs sh b cr'"
    and "\<And>sh'. sh_coder sh' = cr' \<Longrightarrow> panics P b fs sh' msg"
  shows "panics P a fs sh msg"
proof -
  obtain sh' where "one_run P (go_at a fs, sh) (go_at b fs, sh')" "sh_coder sh' = cr'"
    using assms(1) by (auto simp: reaches_def)
  with assms(2) show ?thesis unfolding panics_def using one_run_trans by blast
qed

lemma reaches_step:
  "act P a fs sh = Some (go_at b fs, sh) \<Longrightarrow> reaches P b fs sh c cr' \<Longrightarrow> reaches P a fs sh c cr'"
  unfolding reaches_def using one_run_step by blast

lemma panics_step: "act P a fs sh = Some (go_at b fs', sh') \<Longrightarrow> panics P b fs' sh' msg \<Longrightarrow> panics P a fs sh msg"
  unfolding panics_def using one_run_step by blast

lemma panics_now: "panics P (Crashed js msg) [] sh msg"
  unfolding panics_def using one_run_refl by blast

text \<open>Deferred codecs are numbered before they are finished.\<close>

definition numbered :: "shared \<Rightarrow> bool" where
  "numbered sh \<longleftrightarrow> sh_done sh \<subseteq> {..<cr_next (sh_coder sh)}"

lemma reaches_numbered:
  assumes "reaches P a fs sh b cr'" "numbered sh"
    and "\<And>sh'. sh_coder sh' = cr' \<Longrightarrow> numbered sh' \<Longrightarrow> reaches P b fs sh' c cr''"
  shows "reaches P a fs sh c cr''"
proof (rule reaches_trans [OF assms(1)])
  fix sh' :: shared assume sh': "sh_coder sh' = cr'" "sh_done sh' \<subseteq> sh_done sh \<union> {cr_next (sh_coder sh)..<cr_next cr'}"
  have "cr_next (sh_coder sh) \<le> cr_next cr'" using assms(1) by (auto simp: reaches_def)
  then have "numbered sh'" using sh' assms(2) by (force simp: numbered_def subset_eq)
  with sh'(1) show "reaches P b fs sh' c cr''" by (rule assms(3))
qed

lemma panics_numbered:
  assumes "reaches P a fs sh b cr'" "numbered sh"
    and "\<And>sh'. sh_coder sh' = cr' \<Longrightarrow> numbered sh' \<Longrightarrow> panics P b fs sh' msg"
  shows "panics P a fs sh msg"
proof -
  obtain sh' where sh': "one_run P (go_at a fs, sh) (go_at b fs, sh')" "sh_coder sh' = cr'"
    "cr_next (sh_coder sh) \<le> cr_next cr'" "sh_done sh' \<subseteq> sh_done sh \<union> {cr_next (sh_coder sh)..<cr_next cr'}"
    using assms(1) by (auto simp: reaches_def)
  then have "numbered sh'" using assms(2) by (force simp: numbered_def subset_eq)
  with assms(3) sh'(1,2) show ?thesis unfolding panics_def using one_run_trans by blast
qed

section \<open>Requests\<close>

text \<open>A getter that the steps of a goroutine carry out.\<close>

definition carried_out :: "platform \<Rightarrow> get_codec \<Rightarrow> bool" where
  "carried_out P gc \<longleftrightarrow> (\<forall>t tag fs sh. numbered sh \<longrightarrow>
     (\<forall>c cr'. gc t tag (sh_coder sh) = Ret (c, cr') \<longrightarrow> reaches P (LoadKnown t tag) fs sh (Returned c) cr')
     \<and> (\<forall>msg. gc t tag (sh_coder sh) = Panic msg \<longrightarrow> panics P (LoadKnown t tag) fs sh msg))"

lemma reaches_call:
  assumes "reaches P (LoadKnown t tag) ((j, k) # fs) sh (Returned c) cr'"
  shows "reaches P (Constructing j (Ask t tag k)) fs sh (Constructing j (k c)) cr'"
proof -
  obtain sh' where sh': "one_run P (go_at (LoadKnown t tag) ((j, k) # fs), sh) (go_at (Returned c) ((j, k) # fs), sh')"
    "sh_coder sh' = cr'" "cr_next (sh_coder sh) \<le> cr_next cr'"
    "sh_done sh' \<subseteq> sh_done sh \<union> {cr_next (sh_coder sh)..<cr_next cr'}"
    using assms by (auto simp: reaches_def)
  have "one_run P (go_at (Returned c) ((j, k) # fs), sh') (go_at (Constructing j (k c)) fs, sh')"
    by (rule one_run_step [OF _ one_run_refl]) simp
  from one_run_trans [OF sh'(1) this]
  have "one_run P (go_at (Constructing j (Ask t tag k)) fs, sh) (go_at (Constructing j (k c)) fs, sh')"
    by (rule one_run_step [rotated]) simp
  then show ?thesis using sh'(2-4) by (auto simp: reaches_def)
qed

lemma carried_request:
  assumes gc: "carried_out P gc"
  shows "numbered sh \<Longrightarrow> run gc r (sh_coder sh) = Ret (c, cr') \<Longrightarrow>
      reaches P (Constructing j r) fs sh (Constructing j (Now (Ret c))) cr'"
    and "numbered sh \<Longrightarrow> run gc r (sh_coder sh) = Panic msg \<Longrightarrow> panics P (Constructing j r) fs sh msg"
proof (induction r arbitrary: sh)
  case (Now m)
  {
    case 1
    then show ?case using reaches_refl by fastforce
  next
    case 2
    then have "m = Panic msg" by (cases m) auto
    then show ?case by (auto intro: panics_step panics_now)
  }
next
  case (Ask t tag k)
  {
    case 1
    then obtain c1 cr1 where g: "gc t tag (sh_coder sh) = Ret (c1, cr1)" "run gc (k c1) cr1 = Ret (c, cr')"
      by auto
    have "reaches P (LoadKnown t tag) ((j, k) # fs) sh (Returned c1) cr1"
      using gc 1(1) g(1) by (simp add: carried_out_def)
    from reaches_call [OF this] 1(1) show ?case
      by (rule reaches_numbered) (use Ask(1) g(2) in auto)
  next
    case 2
    show ?case
    proof (cases "gc t tag (sh_coder sh)")
      case (Ret x)
      obtain c1 cr1 where x: "x = (c1, cr1)" by (cases x)
      have "reaches P (LoadKnown t tag) ((j, k) # fs) sh (Returned c1) cr1"
        using gc 2(1) Ret x by (simp add: carried_out_def)
      from reaches_call [OF this] 2(1) show ?thesis
        by (rule panics_numbered) (use Ask(2) 2(2) Ret x in auto)
    next
      case (Panic p)
      then have "panics P (LoadKnown t tag) ((j, k) # fs) sh msg"
        using gc 2 by (simp add: carried_out_def)
      then show ?thesis by (rule panics_step [rotated]) simp
    qed (use 2 in simp_all)
  }
qed

section \<open>\<open>getNewCodec\<close> and \<open>getCodec\<close>\<close>

text \<open>The steps that publish a finished codec.\<close>

lemma publish_run:
  fixes P :: platform and c :: codec and j :: job and sh :: shared
  assumes "j_dc j \<notin> sh_done sh"
  defines "cc \<equiv> toXCodec P c (fst (j_key j))"
  defines "cr1 \<equiv> (sh_coder sh)\<lparr>cr_known := (cr_known (sh_coder sh))(j_key j \<mapsto> cc)\<rparr>"
  defines "cr2 \<equiv> if tag_Empty (j_tag j) then cr1\<lparr>cr_base := (cr_base cr1)(fst (j_key j) \<mapsto> cc)\<rparr> else cr1"
  defines "cr3 \<equiv> cr2\<lparr>cr_real := (cr_real cr2)(j_dc j \<mapsto> cc)\<rparr>"
  shows "one_run P (go_at (Constructing j (Now (Ret c))) fs, sh)
    (go_at (Returned cc) fs, (set_coder cr3 sh)\<lparr>sh_done := insert (j_dc j) (sh_done sh)\<rparr>)"
proof -
  have store: "one_run P (go_at (SignalDone j cc) fs, set_coder cr3 sh)
      (go_at (Returned cc) fs, (set_coder cr3 sh)\<lparr>sh_done := insert (j_dc j) (sh_done sh)\<rparr>)"
    by (rule one_run_step [OF _ one_run_refl]) (simp add: assms(1))
  have "act P (StoreReal j cc) fs (set_coder cr2 sh) = Some (go_at (SignalDone j cc) fs, set_coder cr3 sh)"
    by (simp add: cr3_def set_coder_def)
  note store = one_run_step [OF this store]
  have "act P (StoreBase j cc) fs (set_coder cr1 sh) = Some (go_at (StoreReal j cc) fs, set_coder cr2 sh)"
    by (simp add: cr2_def set_coder_def)
  note store = one_run_step [OF this store]
  have "act P (Constructing j (Now (Ret c))) fs sh = Some (go_at (StoreBase j cc) fs, set_coder cr1 sh)"
    by (simp add: cr1_def cc_def Let_def)
  from one_run_step [OF this store] show ?thesis .
qed

lemma carried_new:
  assumes gc: "carried_out P gc" and num: "numbered sh" and none: "cr_known (sh_coder sh) (t, tag) = None"
  shows "getNewCodec P gc (t, tag) tag (sh_coder sh) = Ret (c, cr') \<Longrightarrow>
      reaches P (LoadOrStore (t, tag) tag) fs sh (Returned c) cr'"
    and "getNewCodec P gc (t, tag) tag (sh_coder sh) = Panic msg \<Longrightarrow> panics P (LoadOrStore (t, tag) tag) fs sh msg"
proof -
  let ?cr = "sh_coder sh" and ?dc = "cr_next (sh_coder sh)"
  let ?cr1 = "?cr\<lparr>cr_next := Suc ?dc, cr_known := (cr_known ?cr)((t, tag) \<mapsto> CDeferred ?dc)\<rparr>"
  let ?sh1 = "set_coder ?cr1 sh" and ?j = "\<lparr>j_key = (t, tag), j_tag = tag, j_dc = ?dc\<rparr>"
  have first: "act P (LoadOrStore (t, tag) tag) fs sh = Some (go_at (Constructing ?j (ask_codec P t tag)) fs, ?sh1)"
    by (simp add: none Let_def)
  have num1: "numbered ?sh1" using num by (auto simp: numbered_def)
  show "reaches P (LoadOrStore (t, tag) tag) fs sh (Returned c) cr'"
    if r: "getNewCodec P gc (t, tag) tag ?cr = Ret (c, cr')"
  proof -
    obtain c0 cr2 where b: "run gc (ask_codec P t tag) ?cr1 = Ret (c0, cr2)"
      using r none by (auto simp: getNewCodec_def run_codec Let_def)
    have "reaches P (Constructing ?j (ask_codec P t tag)) fs ?sh1 (Constructing ?j (Now (Ret c0))) cr2"
      using carried_request(1) [OF gc num1] b by simp
    then obtain sh2 where sh2: "one_run P (go_at (Constructing ?j (ask_codec P t tag)) fs, ?sh1)
        (go_at (Constructing ?j (Now (Ret c0))) fs, sh2)" "sh_coder sh2 = cr2" "Suc ?dc \<le> cr_next cr2"
      "sh_done sh2 \<subseteq> sh_done sh \<union> {Suc ?dc..<cr_next cr2}"
      by (auto simp: reaches_def)
    have "?dc \<notin> sh_done sh2" using sh2(4) num by (auto simp: numbered_def)
    from publish_run [of ?j sh2 P c0 fs] this
    have "one_run P (go_at (Constructing ?j (Now (Ret c0))) fs, sh2)
        (go_at (Returned c) fs, (set_coder cr' sh2)\<lparr>sh_done := insert ?dc (sh_done sh2)\<rparr>)"
      using r b none sh2(2) by (cases "tag_Empty tag") (auto simp: getNewCodec_def run_codec Let_def)
    moreover have "cr_next cr' = cr_next cr2"
      using r b none by (cases "tag_Empty tag") (auto simp: getNewCodec_def run_codec Let_def)
    ultimately show ?thesis
      using one_run_step [OF first one_run_trans [OF sh2(1)]] sh2(3,4) unfolding reaches_def by fastforce
  qed
  show "panics P (LoadOrStore (t, tag) tag) fs sh msg" if r: "getNewCodec P gc (t, tag) tag ?cr = Panic msg"
  proof -
    have "run gc (ask_codec P t tag) ?cr1 = Panic msg"
      using r none by (cases "buildCodec P gc t tag ?cr1") (auto simp: getNewCodec_def run_codec Let_def)
    then show ?thesis using carried_request(2) [OF gc num1] first by (auto intro: panics_step)
  qed
qed

lemma hand_over_reaches:
  "as_xCodec P c = Ret x \<Longrightarrow> act P a fs sh = Some (hand_over P c fs, sh) \<Longrightarrow> reaches P a fs sh (Returned x) (sh_coder sh)"
  "as_xCodec P c = Panic msg \<Longrightarrow> act P a fs sh = Some (hand_over P c fs, sh) \<Longrightarrow> panics P a fs sh msg"
  by (auto simp: as_xCodec_def hand_over_def unwind_def split: if_splits
      intro: reaches_step reaches_refl panics_step panics_now)

lemma getCodec_carried_out: "carried_out P (getCodec n P)"
proof (induction n)
  case (Suc n)
  show ?case unfolding carried_out_def
  proof (intro allI impI conjI)
    fix t tag fs and sh :: shared assume num: "numbered sh"
    note new = carried_new [OF Suc num, of t tag]
    show "reaches P (LoadKnown t tag) fs sh (Returned c) cr'"
      if "getCodec (Suc n) P t tag (sh_coder sh) = Ret (c, cr')" for c cr'
    proof (cases "cr_known (sh_coder sh) (t, tag)")
      case None
      then show ?thesis using that new(1) by (auto simp: ByteString_def intro: reaches_step)
    next
      case (Some c0)
      then show ?thesis using that hand_over_reaches(1) [of P c0 c "LoadKnown t tag" fs sh]
        by (auto simp: ByteString_def)
    qed
    show "panics P (LoadKnown t tag) fs sh msg"
      if "getCodec (Suc n) P t tag (sh_coder sh) = Panic msg" for msg
    proof (cases "cr_known (sh_coder sh) (t, tag)")
      case None
      then show ?thesis using that new(2) by (auto simp: ByteString_def intro: panics_step)
    next
      case (Some c0)
      then show ?thesis using that hand_over_reaches(2) [of P c0 msg "LoadKnown t tag" fs sh]
        by (cases "as_xCodec P c0") (auto simp: ByteString_def)
    qed
  qed
qed (simp add: carried_out_def)

lemma run_not_Blocked:
  "(\<And>t tag cr. gc t tag cr \<noteq> Blocked) \<Longrightarrow> gives ids r D \<Longrightarrow> run gc r cr \<noteq> Blocked"
proof (induction r arbitrary: D cr)
  case (Now m)
  then show ?case by (cases m) (auto simp: prompt_def)
next
  case (Ask t tag k)
  have "run gc (k c) cr' \<noteq> Blocked" for c cr'
    using Ask.IH [of "k c" "D \<union> codec_ids c" cr'] Ask.prems by auto
  then show ?case using Ask.prems(1) [of t tag cr] by (cases "gc t tag cr") auto
qed

lemma getCodec_not_Blocked: "getCodec n P t tag cr \<noteq> Blocked"
proof (induction n arbitrary: t tag cr)
  case (Suc n)
  have b: "buildCodec P (getCodec n P) t tag cr' \<noteq> Blocked" for cr'
    using run_not_Blocked [OF Suc gives_codec] by (simp add: run_codec)
  have "getNewCodec P (getCodec n P) (t, tag) tag cr \<noteq> Blocked"
    using b [of "cr\<lparr>cr_next := Suc (cr_next cr), cr_known := (cr_known cr)((t, tag) \<mapsto> CDeferred (cr_next cr))\<rparr>"]
    by (cases "buildCodec P (getCodec n P) t tag (cr\<lparr>cr_next := Suc (cr_next cr),
        cr_known := (cr_known cr)((t, tag) \<mapsto> CDeferred (cr_next cr))\<rparr>)")
      (auto simp: getNewCodec_def as_xCodec_def Let_def split: option.split)
  then show ?case by (auto simp: ByteString_def as_xCodec_def Let_def split: option.split)
qed simp

section \<open>Property\<close>

text \<open>
  C32. A goroutine that asks for a codec while no other one runs gets the codec, and leaves
  the registry, that \<open>getCodec\<close> of \<open>Coder\<close> computes; it panics when that panics. (\<open>getCodec\<close> is
  not \<open>Spent\<close> from the bound of C14 on.)
\<close>

theorem one_goroutine_is_getCodec:
  assumes "numbered sh" and "getCodec n P t tag (sh_coder sh) \<noteq> Spent"
  shows "case getCodec n P t tag (sh_coder sh) of
      Ret (c, cr') \<Rightarrow> \<exists>sh'. one_run P (\<lparr>g_next = LoadKnown t tag, g_frames = []\<rparr>, sh) (\<lparr>g_next = Returned c, g_frames = []\<rparr>, sh')
        \<and> sh_coder sh' = cr'
    | Panic msg \<Rightarrow> \<exists>js sh'. one_run P (\<lparr>g_next = LoadKnown t tag, g_frames = []\<rparr>, sh) (\<lparr>g_next = Crashed js msg, g_frames = []\<rparr>, sh')
    | _ \<Rightarrow> False"
proof (cases "getCodec n P t tag (sh_coder sh)")
  case (Ret x)
  obtain c cr' where x: "x = (c, cr')" by (cases x)
  have "reaches P (LoadKnown t tag) [] sh (Returned c) cr'"
    using getCodec_carried_out [of P n] assms(1) Ret x by (simp add: carried_out_def)
  then show ?thesis by (auto simp: Ret x reaches_def)
next
  case (Panic msg)
  have "panics P (LoadKnown t tag) [] sh msg"
    using getCodec_carried_out [of P n] assms(1) Panic by (simp add: carried_out_def)
  then show ?thesis by (simp add: Panic panics_def)
qed (use assms(2) getCodec_not_Blocked in auto)

theorem one_goroutine_is_getCodec_witness:
  "\<exists>sh'. one_run \<lparr>p_maxInt = 2 ^ 63 - 1, p_types = [(''T'', GPtr (GNamed ''T''), False)], p_nounsafe = True\<rparr>
     (\<lparr>g_next = LoadKnown (GNamed ''T'') [], g_frames = []\<rparr>, \<lparr>sh_coder = NewCoder, sh_done = {}\<rparr>)
     (\<lparr>g_next = Returned (CPtr (CDeferred 0) (GNamed ''T'')), g_frames = []\<rparr>, sh')
   \<and> cr_real (sh_coder sh') 0 = Some (CPtr (CDeferred 0) (GNamed ''T''))"
proof -
  let ?P = "\<lparr>p_maxInt = 2 ^ 63 - 1, p_types = [(''T'', GPtr (GNamed ''T''), False)], p_nounsafe = True\<rparr>"
  obtain cr' where cr': "getCodec 2 ?P (GNamed ''T'') [] NewCoder = Ret (CPtr (CDeferred 0) (GNamed ''T''), cr')"
    "cr_real cr' 0 = Some (CPtr (CDeferred 0) (GNamed ''T''))"
    by (simp add: numeral_2_eq_2 NewCoder_def getNewCodec_def buildCodec_def makePtrCodec_def kind_def
        under_def next_tag_def reflect_elem_def elem_type_def ByteString_def as_xCodec_def xCodec_def toXCodec_def
        tag_Empty_def doc_kinds Let_def)
  then show ?thesis
    using one_goroutine_is_getCodec [of "\<lparr>sh_coder = NewCoder, sh_done = {}\<rparr>" 2 ?P "GNamed ''T''" "[]"]
    by (auto simp: numbered_def)
qed

end
