(* ===== verification/Opaque.thy ===== *)
theory Opaque
  imports Decoder
begin

text \<open>
  Streaming access to opaque data: \<open>opaquereader.go\<close> and the methods \<open>OpaqueReader\<close> and
  \<open>FixedOpaqueReader\<close> of the decoder. The reader handed out shares the decoder's stream;
  its state is the \<open>io.LimitedReader\<close> (the stream and the bytes left) and the padding.
\<close>

section \<open>The reader\<close>

record 'r opaque_reader =
  op_lr :: "'r \<times> nat"
  op_padLen :: u8

text \<open>\<open>uint8(((len + 3) & ^3) - len)\<close>\<close>

definition newOpaqueReader :: "'r \<Rightarrow> nat \<Rightarrow> 'r opaque_reader" where
  "newOpaqueReader r len = \<lparr>op_lr = (r, len), op_padLen = word_of_nat (round4 len - len)\<rparr>"

definition opaqueReader_Read ::
  "'r read_fn \<Rightarrow> nat \<Rightarrow> 'r opaque_reader \<Rightarrow> u8 list \<times> gerror option \<times> 'r opaque_reader" where
  "opaqueReader_Read rd n r = (case lim_read rd (op_lr r) n of (bs, err, lr) \<Rightarrow> (bs, err, r\<lparr>op_lr := lr\<rparr>))"

text \<open>
  \<open>io.Copy(w, &o.lr)\<close> to a writer: pieces of 32 KiB, or of the limit if that is less (but at
  least one byte).
\<close>

partial_function (option) copy_loop ::
  "'r read_fn \<Rightarrow> 'w write_fn \<Rightarrow> nat \<Rightarrow> nat \<Rightarrow> 'r \<Rightarrow> 'w \<Rightarrow> (nat \<times> gerror option \<times> 'r \<times> 'w) option" where
  "copy_loop rd wr bufsz got r w = (case rd r bufsz of (bs, err, r') \<Rightarrow>
     (case (if bs = [] then (0, None, w) else wr w bs) of (k, werr, w') \<Rightarrow>
        if werr \<noteq> None then Some (got + k, werr, r', w')
        else if k \<noteq> length bs then Some (got + k, Some ErrShortWrite, r', w')
        else (case err of None \<Rightarrow> copy_loop rd wr bufsz (got + k) r' w'
              | Some e \<Rightarrow> Some (got + k, if e = EOF then None else Some e, r', w'))))"

definition opaqueReader_WriteTo ::
  "'r read_fn \<Rightarrow> 'w write_fn \<Rightarrow> 'w \<Rightarrow> 'r opaque_reader \<Rightarrow> (nat \<times> gerror option \<times> 'w \<times> 'r opaque_reader) outcome" where
  "opaqueReader_WriteTo rd wr w r =
     (let N = snd (op_lr r); bufsz = (if 32768 > N then max 1 N else 32768) in
      case copy_loop (lim_read rd) wr bufsz 0 (op_lr r) w of
        None \<Rightarrow> Blocked
      | Some (n, err, lr, w') \<Rightarrow> Ret (n, err, w', r\<lparr>op_lr := lr\<rparr>))"

definition opaqueReader_Close ::
  "'r read_fn \<Rightarrow> 'r opaque_reader \<Rightarrow> (gerror option \<times> 'r opaque_reader) outcome" where
  "opaqueReader_Close rd r =
     (case op_lr r of (s, N) \<Rightarrow> obind (copy_discard (lim_read rd) (s, N + unat (op_padLen r)))
        (\<lambda>(_, err, lr). Ret (err, r\<lparr>op_lr := lr\<rparr>)))"

definition FixedOpaqueReader :: "u32 \<Rightarrow> 'r decoder \<Rightarrow> 'r opaque_reader" where
  "FixedOpaqueReader len d = newOpaqueReader (dec_r d) (unat len)"

definition OpaqueReader ::
  "'r read_fn \<Rightarrow> u32 \<Rightarrow> 'r decoder \<Rightarrow> (u32 \<times> 'r opaque_reader option \<times> gerror option \<times> 'r decoder) outcome" where
  "OpaqueReader rd maxLen d = obind (DecodeUnsignedInt rd d) (\<lambda>(l, err, d').
     if err \<noteq> None then Ret (0, None, err, d')
     else if l > maxLen then Ret (l, None, Some (LengthError (ucast l) (ucast maxLen)), d')
     else Ret (l, Some (FixedOpaqueReader l d'), None, d'))"

text \<open>A client: reads with buffers of the given sizes, one after the other.\<close>

fun read_pieces ::
  "'r read_fn \<Rightarrow> nat list \<Rightarrow> 'r opaque_reader \<Rightarrow> u8 list \<times> 'r opaque_reader" where
  "read_pieces rd [] r = ([], r)"
| "read_pieces rd (n # ns) r = (case opaqueReader_Read rd n r of (bs, _, r') \<Rightarrow>
     (case read_pieces rd ns r' of (bs', r'') \<Rightarrow> (bs @ bs', r'')))"

section \<open>It stays within the body and ends after the padding\<close>

lemma pad_byte: "unat (word_of_nat (round4 n - n) :: u8) = xdr_pad n" and round4_xdr: "round4 n = n + xdr_pad n"
proof -
  show r: "round4 n = n + xdr_pad n" by (rule round_up)
  show "unat (word_of_nat (round4 n - n) :: u8) = xdr_pad n"
    using xdr_pad_less [of n] by (simp add: r unat_of_nat)
qed

context reader
begin

text \<open>What is taken from the stream is taken from the limit.\<close>

lemma lim_read_split:
  assumes "lim_read rd (s, N) n = (bs, err, (s', N'))"
  shows "pending s = bs @ pending s' \<and> N = length bs + N'"
proof (cases "N = 0")
  case False
  obtain bs1 err1 s1 where r: "rd s (min n N) = (bs1, err1, s1)" by (cases "rd s (min n N)")
  with rd_data [OF r] assms False show ?thesis by auto
qed (use assms in auto)

lemma lim_read_end:
  assumes "lim_read rd (s, N) n = (bs, Some e, (s', N'))"
  shows "N' = 0 \<and> e = EOF \<and> s' = s \<and> bs = [] \<or> pending s' = [] \<and> e \<in> finals s"
proof (cases "N = 0")
  case False
  obtain bs1 err1 s1 where r: "rd s (min n N) = (bs1, err1, s1)" by (cases "rd s (min n N)")
  with assms False have "err1 = Some e" "s' = s1" by auto
  with r rd_error [of s "min n N" bs1 e s1] show ?thesis by auto
qed (use assms in auto)

lemma lim_discard:
  "\<exists>m err s' N' c. discard_loop (lim_read rd) k (s, N) = Some (m, err, (s', N'))
     \<and> pending s = c @ pending s' \<and> N = length c + N' \<and> (N' = 0 \<or> pending s' = [])
     \<and> (err = None \<or> pending s' = [] \<and> (\<exists>e\<in>finals s. err = Some e))"
proof (induction "wt s" arbitrary: s N k rule: less_induct)
  case less
  obtain bs err s1 N1 where r: "lim_read rd (s, N) 8192 = (bs, err, (s1, N1))"
    by (cases "lim_read rd (s, N) 8192") auto
  note split = lim_read_split [OF r]
  show ?case
  proof (cases err)
    case None
    have "wt s1 < wt s" using reader.rd_progress [OF limited r [unfolded None]] by simp
    from less.hyps [OF this, of "k + length bs" N1] obtain m err' s' N' c where IH:
      "discard_loop (lim_read rd) (k + length bs) (s1, N1) = Some (m, err', (s', N'))"
      "pending s1 = c @ pending s'" "N1 = length c + N'" "N' = 0 \<or> pending s' = []"
      "err' = None \<or> pending s' = [] \<and> (\<exists>e\<in>finals s1. err' = Some e)" by blast
    have "discard_loop (lim_read rd) k (s, N) = discard_loop (lim_read rd) (k + length bs) (s1, N1)"
      using r None by (simp add: discard_loop.simps [of _ k])
    moreover have "finals s1 \<subseteq> finals s"
    proof (cases "N = 0")
      case False
      then show ?thesis using r by (auto split: prod.splits dest: rd_finals)
    qed (use r None in auto)
    ultimately show ?thesis using IH split by (intro exI [of _ m] exI [of _ err'] exI [of _ s'] exI [of _ N']
          exI [of _ "bs @ c"]) auto
  next
    case (Some e)
    have "discard_loop (lim_read rd) k (s, N) = Some (k + length bs, if e = EOF then None else Some e, (s1, N1))"
      using r Some by (simp add: discard_loop.simps [of _ k])
    then show ?thesis using split lim_read_end [OF r [unfolded Some]]
      by (intro exI [of _ "k + length bs"] exI [of _ "if e = EOF then None else Some e"] exI [of _ s1] exI [of _ N1]
          exI [of _ bs]) auto
  qed
qed

lemma read_pieces_split:
  "read_pieces rd ns r = (bs, r') \<Longrightarrow> op_padLen r' = op_padLen r
     \<and> pending (fst (op_lr r)) = bs @ pending (fst (op_lr r')) \<and> snd (op_lr r) = length bs + snd (op_lr r')"
proof (induction ns arbitrary: r bs r')
  case (Cons n ns)
  obtain s N where lr: "op_lr r = (s, N)" by (cases "op_lr r")
  obtain b err s1 N1 where l: "lim_read rd (s, N) n = (b, err, (s1, N1))" by (cases "lim_read rd (s, N) n") auto
  obtain b' r'' where p: "read_pieces rd ns (r\<lparr>op_lr := (s1, N1)\<rparr>) = (b', r'')"
    by (cases "read_pieces rd ns (r\<lparr>op_lr := (s1, N1)\<rparr>)")
  have "bs = b @ b'" "r' = r''"
    using Cons.prems by (auto simp: opaqueReader_Read_def lr l p simp del: lim_read.simps)
  then show ?case using Cons.IH [OF p] lim_read_split [OF l] by (simp add: lr)
qed simp

lemma close_lands:
  assumes "read_pieces rd ns (newOpaqueReader s (length body)) = (bs, r)"
    and "pending s = body @ ps @ rest" and "length ps = xdr_pad (length body)"
  shows "prefix bs body \<and> (\<exists>err r'. opaqueReader_Close rd r = Ret (err, r') \<and> pending (fst (op_lr r')) = rest
     \<and> (err = None \<or> rest = []))"
proof -
  obtain s1 N1 where lr: "op_lr r = (s1, N1)" by (cases "op_lr r")
  note k = read_pieces_split [OF assms(1)]
  have N1: "length body = length bs + N1" and s1: "body @ ps @ rest = bs @ pending s1"
    and pad: "unat (op_padLen r) = xdr_pad (length body)"
    using k lr assms(2) by (simp_all add: newOpaqueReader_def pad_byte)
  obtain body' where body: "body = bs @ body'" "length body' = N1" "pending s1 = body' @ ps @ rest"
    using s1 N1 by (auto simp: append_eq_append_conv2)
  obtain m err s' N' c where d: "discard_loop (lim_read rd) 0 (s1, N1 + xdr_pad (length body)) = Some (m, err, (s', N'))"
    and c: "pending s1 = c @ pending s'" "N1 + xdr_pad (length body) = length c + N'" "N' = 0 \<or> pending s' = []"
      "err = None \<or> pending s' = [] \<and> (\<exists>e\<in>finals s1. err = Some e)"
    using lim_discard by blast
  have "length c = length (body' @ ps)"
    using c body assms(3) arg_cong [OF c(1), of length] by auto
  then have "pending s' = rest"
    using c(1) body(3) by (metis append_assoc append_eq_append_conv)
  then show ?thesis
    using d c(4) body(1) by (auto simp: opaqueReader_Close_def lr copy_discard_def pad)
qed

end

section \<open>Properties\<close>

text \<open>
  C20. Streaming an opaque: after \<open>OpaqueReader\<close> on an opaque within the maximum, reading in
  any pieces yields a prefix of the body and never a byte beyond it; \<open>Close\<close> then leaves
  the stream exactly behind the padding, however much of the body was read, and reports no
  error unless the stream ends there.
\<close>

theorem opaque_reader_lands_behind_padding:
  assumes "reader rd pending finals wt"
    and "pending (dec_r d) = be32 (word_of_nat (length body)) @ body @ ps @ rest"
    and "length ps = xdr_pad (length body)" and "length body \<le> unat maxLen"
  shows "\<exists>r d'. OpaqueReader rd maxLen d = Ret (word_of_nat (length body), Some r, None, d')
    \<and> (\<forall>ns bs r'. read_pieces rd ns r = (bs, r') \<longrightarrow> prefix bs body \<and>
        (\<exists>err r''. opaqueReader_Close rd r' = Ret (err, r'') \<and> pending (fst (op_lr r'')) = rest
          \<and> (err = None \<or> rest = [])))"
proof -
  have "length body < 2 ^ 32" using assms(4) unsigned_less [of maxLen, where ?'a = nat] by simp
  then have l: "unat (word_of_nat (length body) :: u32) = length body" by (simp add: unat_of_nat)
  obtain d' where d': "DecodeUnsignedInt rd d = Ret (word_of_nat (length body), None, d')"
    "pending (dec_r d') = body @ ps @ rest"
    using reader.DecodeUnsignedInt_ok [OF assms(1,2)] by blast
  have "\<not> word_of_nat (length body) > maxLen" using assms(4) l by (simp add: word_less_nat_alt)
  then have "OpaqueReader rd maxLen d
      = Ret (word_of_nat (length body), Some (newOpaqueReader (dec_r d') (length body)), None, d')"
    by (simp add: OpaqueReader_def d'(1) FixedOpaqueReader_def l)
  then show ?thesis using reader.close_lands [OF assms(1) _ d'(2) assms(3)] by auto
qed

theorem opaque_reader_lands_behind_padding_witness:
  "\<exists>r d'. OpaqueReader bytes_read 10 \<lparr>dec_r = be32 5 @ [1, 2, 3, 4, 5] @ [0, 0, 0] @ [9], dec_cr = 0\<rparr>
     = Ret (5, Some r, None, d')"
  using opaque_reader_lands_behind_padding [OF bytes_reader.reader_axioms,
      of "\<lparr>dec_r = be32 5 @ [1, 2, 3, 4, 5] @ [0, 0, 0] @ [9], dec_cr = 0\<rparr>" "[1, 2, 3, 4, 5]" "[0, 0, 0]" "[9]" 10]
  by (auto simp: xdr_pad_def)

end
