(* ===== verification/Bufio.thy ===== *)
theory Bufio
  imports GoIO
begin

text \<open>
  \<open>bufio.Writer\<close> of the standard library, as \<open>Coder.Write\<close> uses it: a buffer of 4096 bytes
  in front of another writer, which remembers the first error of that writer. Over a lawful
  writer it is a lawful writer again: what it has accepted is what the other one has
  received, followed by what is buffered.
\<close>

record 'w bufio =
  bw_w :: 'w
  bw_buf :: "u8 list"
  bw_err :: "gerror option"

definition bufio_size :: nat where "bufio_size = 4096"

definition bufio_Reset :: "'w \<Rightarrow> 'w bufio" where
  "bufio_Reset w = \<lparr>bw_w = w, bw_buf = [], bw_err = None\<rparr>"

definition available :: "'w bufio \<Rightarrow> nat" where
  "available b = bufio_size - length (bw_buf b)"

definition bufio_Flush :: "'w writer_ops \<Rightarrow> 'w bufio \<Rightarrow> gerror option \<times> 'w bufio" where
  "bufio_Flush W b =
     (if bw_err b \<noteq> None then (bw_err b, b)
      else if bw_buf b = [] then (None, b)
      else (case op_Write W (bw_w b) (bw_buf b) of (n, err, w') \<Rightarrow>
        let err' = (if n < length (bw_buf b) \<and> err = None then Some ErrShortWrite else err) in
        (err', b\<lparr>bw_w := w', bw_buf := (if err' = None then [] else drop n (bw_buf b)), bw_err := err'\<rparr>)))"

definition buffer_piece :: "u8 list \<Rightarrow> 'w bufio \<Rightarrow> 'w bufio" where
  "buffer_piece p b = b\<lparr>bw_buf := bw_buf b @ take (available b) p\<rparr>"

text \<open>
  The loop of \<open>Write\<close>: while the rest does not fit, it goes straight to the other writer if
  nothing is buffered, and fills and flushes the buffer otherwise. A writer that takes
  nothing and reports no error, against its contract, would keep the loop running; here the
  loop stops there.
\<close>

function write_loop :: "'w writer_ops \<Rightarrow> 'w bufio \<Rightarrow> u8 list \<Rightarrow> 'w bufio \<times> u8 list" where
  "write_loop W b p =
     (if length p > available b \<and> bw_err b = None then
        if bw_buf b = [] then (case op_Write W (bw_w b) p of (n, err, w') \<Rightarrow>
          let b' = b\<lparr>bw_w := w', bw_err := err\<rparr> in
          if n = 0 \<and> err = None then (b', p) else write_loop W b' (drop n p))
        else write_loop W (snd (bufio_Flush W (buffer_piece p b))) (drop (available b) p)
      else (b, p))"
  by pat_completeness auto

lemma flush_empties: "bufio_Flush W b = (r, b') \<Longrightarrow> bw_err b' = None \<Longrightarrow> bw_buf b' = []"
  by (auto simp: bufio_Flush_def Let_def split: prod.splits if_splits)

lemma flush_err: "fst (bufio_Flush W b) = bw_err (snd (bufio_Flush W b))"
  by (simp add: bufio_Flush_def Let_def split: prod.split)

text \<open>Each round shortens the rest, or empties the buffer, or sets the error.\<close>

definition rounds :: "'w bufio \<Rightarrow> u8 list \<Rightarrow> nat" where
  "rounds b p = 3 * length p + (if bw_err b = None then if bw_buf b = [] then 1 else 2 else 0)"

termination write_loop
proof (relation "measure (\<lambda>(W, b, p). rounds b p)", goal_cases)
  case 2
  then show ?case by (auto simp: rounds_def split: if_splits)
next
  case (3 W b p)
  obtain r b1 where "bufio_Flush W (buffer_piece p b) = (r, b1)" by (cases "bufio_Flush W (buffer_piece p b)")
  then show ?case using 3 flush_empties [of W "buffer_piece p b" r b1]
    by (cases "bw_err b1") (auto simp: rounds_def)
qed simp

declare write_loop.simps [simp del]

text \<open>\<open>Write\<close>: the rest is buffered, unless an error is pending.\<close>

definition bufio_Write :: "'w writer_ops \<Rightarrow> 'w bufio write_fn" where
  "bufio_Write W b p = (case write_loop W b p of (b', p') \<Rightarrow>
     if bw_err b' \<noteq> None then (length p - length p', bw_err b', b')
     else if length p' > available b' then (length p - length p', Some ErrShortWrite, b')
     else (length p, None, b'\<lparr>bw_buf := bw_buf b' @ p'\<rparr>))"

text \<open>\<open>WriteString\<close> always goes through the buffer.\<close>

function string_loop :: "'w writer_ops \<Rightarrow> 'w bufio \<Rightarrow> u8 list \<Rightarrow> 'w bufio \<times> u8 list" where
  "string_loop W b p =
     (if length p > available b \<and> bw_err b = None
      then string_loop W (snd (bufio_Flush W (buffer_piece p b))) (drop (available b) p)
      else (b, p))"
  by pat_completeness auto

lemma string_round:
  assumes "length p > available b \<and> bw_err b = None"
  shows "rounds (snd (bufio_Flush W (buffer_piece p b))) (drop (available b) p) < rounds b p"
proof -
  obtain r b1 where "bufio_Flush W (buffer_piece p b) = (r, b1)" by (cases "bufio_Flush W (buffer_piece p b)")
  moreover have "bw_buf b = [] \<Longrightarrow> available b = 4096" by (simp add: available_def bufio_size_def)
  ultimately show ?thesis using assms flush_empties [of W "buffer_piece p b" r b1]
    by (cases "bw_err b1"; cases "bw_buf b = []") (auto simp: rounds_def)
qed

termination string_loop
  by (relation "measure (\<lambda>(W, b, p). rounds b p)") (simp_all add: string_round)

declare string_loop.simps [simp del]

definition bufio_WriteString :: "'w writer_ops \<Rightarrow> 'w bufio write_fn" where
  "bufio_WriteString W b p = (case string_loop W b p of (b', p') \<Rightarrow>
     if bw_err b' \<noteq> None then (length p - length p', bw_err b', b')
     else (length p, None, b'\<lparr>bw_buf := bw_buf b' @ p'\<rparr>))"

definition bufio_ops :: "'w writer_ops \<Rightarrow> 'w bufio writer_ops" where
  "bufio_ops W = \<lparr>op_Write = bufio_Write W, op_WriteString = Some (bufio_WriteString W)\<rparr>"

section \<open>A buffered writer is a writer\<close>

context writer
begin

definition accepted :: "'w bufio \<Rightarrow> u8 list" where
  "accepted b = written (bw_w b) @ bw_buf b"

lemma flush_accepted: "accepted (snd (bufio_Flush W b)) = accepted b"
proof (cases "bw_err b \<noteq> None \<or> bw_buf b = []")
  case False
  obtain n e w' where w: "op_Write W (bw_w b) (bw_buf b) = (n, e, w')"
    by (cases "op_Write W (bw_w b) (bw_buf b)")
  note p = write_prefix [OF w]
  have "n < length (bw_buf b) \<or> take n (bw_buf b) = bw_buf b" by auto
  then show ?thesis using False w p by (auto simp: bufio_Flush_def accepted_def Let_def)
qed (auto simp: bufio_Flush_def)

lemma flush_success:
  assumes "bufio_Flush W b = (None, b')"
  shows "written (bw_w b') = accepted b"
proof -
  have "bw_err b' = None" using flush_err [of W b] assms by simp
  then have "bw_buf b' = []" using flush_empties [OF assms] by simp
  then show ?thesis using flush_accepted [of b] assms by (simp add: accepted_def)
qed

lemma piece_accepted: "accepted (buffer_piece p b) = accepted b @ take (available b) p"
  by (simp add: buffer_piece_def accepted_def)

text \<open>A loop moves a prefix of its argument into what is accepted.\<close>

definition moved :: "'w bufio \<Rightarrow> u8 list \<Rightarrow> 'w bufio \<times> u8 list \<Rightarrow> bool" where
  "moved b p r \<longleftrightarrow> (case r of (b', p') \<Rightarrow> \<exists>q. p = q @ p' \<and> accepted b' = accepted b @ q)"

lemma moved_step:
  "moved b1 (drop n p) r \<Longrightarrow> accepted b1 = accepted b @ take n p \<Longrightarrow> moved b p r"
  unfolding moved_def by (clarsimp split: prod.splits) (metis append_assoc append_take_drop_id)

lemma flush_piece: "accepted (snd (bufio_Flush W (buffer_piece p b))) = accepted b @ take (available b) p"
  by (simp add: flush_accepted piece_accepted)

lemma write_round:
  assumes "length p > available b \<and> bw_err b = None"
  shows "bw_buf b = [] \<Longrightarrow> n \<noteq> 0 \<or> e \<noteq> None \<Longrightarrow> rounds (b\<lparr>bw_w := w', bw_err := e\<rparr>) (drop n p) < rounds b p"
  using assms by (cases e) (auto simp: rounds_def)

text \<open>One round of \<open>Write\<close>: whatever holds of both kinds of rounds holds of the loop.\<close>

lemma write_loop_induct:
  assumes stop: "\<And>b p. Q b p (b, p)"
    and direct: "\<And>b p n e w' r. bw_buf b = [] \<Longrightarrow> op_Write W (bw_w b) p = (n, e, w') \<Longrightarrow>
      Q (b\<lparr>bw_w := w', bw_err := e\<rparr>) (drop n p) r \<Longrightarrow> Q b p r"
    and through: "\<And>b p r. Q (snd (bufio_Flush W (buffer_piece p b))) (drop (available b) p) r \<Longrightarrow> Q b p r"
  shows "Q b p (write_loop W b p)"
proof (induction "rounds b p" arbitrary: b p rule: less_induct)
  case less
  show ?case
  proof (cases "length p > available b \<and> bw_err b = None")
    case go: True
    show ?thesis
    proof (cases "bw_buf b = []")
      case True
      obtain n e w' where w: "op_Write W (bw_w b) p = (n, e, w')" by (cases "op_Write W (bw_w b) p")
      show ?thesis
      proof (cases "n = 0 \<and> e = None")
        case stuck: True
        then have "write_loop W b p = (b\<lparr>bw_w := w', bw_err := e\<rparr>, drop n p)"
          using go w True by (simp add: write_loop.simps [of W b p])
        then show ?thesis using direct [OF True w stop] by simp
      next
        case False
        then have "rounds (b\<lparr>bw_w := w', bw_err := e\<rparr>) (drop n p) < rounds b p"
          using write_round [OF go True] by blast
        from direct [OF True w less [OF this]] show ?thesis
          using go w True False by (auto simp: write_loop.simps [of W b p] Let_def)
      qed
    next
      case False
      from through [OF less [OF string_round [OF go]]] show ?thesis
        using go False by (simp add: write_loop.simps [of W b p])
    qed
  next
    case False
    then have "write_loop W b p = (b, p)" by (simp only: write_loop.simps [of W b p] if_False)
    then show ?thesis using stop by simp
  qed
qed

lemma write_loop_moves: "moved b p (write_loop W b p)"
proof (rule write_loop_induct)
  show "moved b p (b, p)" for b p by (simp add: moved_def)
  show "moved b p r" if "bw_buf b = []" "op_Write W (bw_w b) p = (n, e, w')"
    "moved (b\<lparr>bw_w := w', bw_err := e\<rparr>) (drop n p) r" for b p n e w' r
    using write_prefix [OF that(2)] that(1) by (intro moved_step [OF that(3)]) (simp add: accepted_def)
qed (rule moved_step [OF _ flush_piece])

lemma string_loop_moves: "moved b p (string_loop W b p)"
proof (induction "rounds b p" arbitrary: b p rule: less_induct)
  case less
  let ?b = "snd (bufio_Flush W (buffer_piece p b))"
  show ?case
  proof (cases "length p > available b \<and> bw_err b = None")
    case True
    have "rounds ?b (drop (available b) p) < rounds b p" using True by (rule string_round)
    from moved_step [OF less [OF this] flush_piece] show ?thesis
      using True by (simp add: string_loop.simps [of W b p])
  next
    case False
    then show ?thesis by (auto simp: string_loop.simps [of W b p] moved_def)
  qed
qed

text \<open>What the other writer has received only grows.\<close>

definition forward :: "'w bufio \<Rightarrow> 'w bufio \<Rightarrow> bool" where
  "forward b b' \<longleftrightarrow> prefix (written (bw_w b)) (written (bw_w b'))"

lemma forward_refl: "forward b b"
  by (simp add: forward_def)

lemma forward_trans: "forward b1 b2 \<Longrightarrow> forward b2 b3 \<Longrightarrow> forward b1 b3"
  unfolding forward_def by (rule prefix_order.trans)

lemma flush_forward: "forward b (snd (bufio_Flush W b))"
  using write_prefix [of "bw_w b" "bw_buf b"]
  by (auto simp: bufio_Flush_def forward_def Let_def split: prod.split)

lemma piece_forward: "forward (buffer_piece p b) b' \<Longrightarrow> forward b b'"
  by (simp add: buffer_piece_def forward_def)

lemma round_forward: "forward (snd (bufio_Flush W (buffer_piece p b))) b' \<Longrightarrow> forward b b'"
  by (rule piece_forward, rule forward_trans [OF flush_forward])

lemma string_loop_forward: "forward b (fst (string_loop W b p))"
proof (induction "rounds b p" arbitrary: b p rule: less_induct)
  case less
  show ?case
  proof (cases "length p > available b \<and> bw_err b = None")
    case True
    from round_forward [OF less [OF string_round [OF this]]] show ?thesis
      using True by (simp add: string_loop.simps [of W b p])
  qed (auto simp: string_loop.simps [of W b p] forward_refl)
qed

lemma moved_lawful:
  assumes "moved b p (b', p')"
  shows "accepted b' = accepted b @ take (length p - length p') p" "length p' \<le> length p"
    "accepted (b'\<lparr>bw_buf := bw_buf b' @ p'\<rparr>) = accepted b @ p"
  using assms by (auto simp: moved_def accepted_def)

lemma write_loop_forward: "forward b (fst (write_loop W b p))"
proof (rule write_loop_induct [where Q = "\<lambda>b p r. forward b (fst r)"])
  show "forward b (fst (b, p))" for b p by (simp add: forward_refl)
  show "forward b (fst r)" if "op_Write W (bw_w b) p = (n, e, w')"
    "forward (b\<lparr>bw_w := w', bw_err := e\<rparr>) (fst r)" for b p n e w' and r :: "'w bufio \<times> u8 list"
    using write_prefix [OF that(1)] that(2) by (auto simp: forward_def prefix_def)
qed (rule round_forward)

lemma ops_forward:
  "forward b (snd (snd (op_Write (bufio_ops W) b p)))"
  "op_WriteString (bufio_ops W) = Some f \<Longrightarrow> forward b (snd (snd (f b p)))"
  using write_loop_forward [of b p] string_loop_forward [of b p]
  by (auto simp: bufio_ops_def bufio_Write_def bufio_WriteString_def forward_def split: prod.split)

lemma buffered: "writer (bufio_ops W) accepted"
proof
  have "accepted b' = accepted b @ take n p \<and> n \<le> length p \<and> (err = None \<longrightarrow> n = length p)"
    if "bufio_Write W b p = (n, err, b')" for b p n err b'
  proof -
    obtain b1 p1 where "write_loop W b p = (b1, p1)" by (cases "write_loop W b p")
    then show ?thesis using moved_lawful [of b p b1 p1] write_loop_moves [of b p] that
      by (auto simp: bufio_Write_def split: if_splits)
  qed
  then show "lawful_write accepted (op_Write (bufio_ops W))"
    by (simp add: lawful_write_def bufio_ops_def)
  fix f assume f: "op_WriteString (bufio_ops W) = Some f"
  have "accepted b' = accepted b @ take n p \<and> n \<le> length p \<and> (err = None \<longrightarrow> n = length p)"
    if "bufio_WriteString W b p = (n, err, b')" for b p n err b'
  proof -
    obtain b1 p1 where "string_loop W b p = (b1, p1)" by (cases "string_loop W b p")
    then show ?thesis using moved_lawful [of b p b1 p1] string_loop_moves [of b p] that
      by (auto simp: bufio_WriteString_def split: if_splits)
  qed
  then show "lawful_write accepted f" using f by (auto simp: lawful_write_def bufio_ops_def)
qed

end

interpretation bufio_bounded: writer "bufio_ops bounded_ops" "bounded.accepted"
  by (rule bounded.buffered)

end
