(* ===== verification/Api.thy ===== *)
theory Api
  imports FitsCoder Wire Bufio
begin

text \<open>
  The public interface: \<open>Encode\<close> and \<open>Decode\<close> with the codec cache of an encoder, the
  methods \<open>Marshal\<close>, \<open>Unmarshal\<close>, \<open>Write\<close>, \<open>Read\<close>, \<open>NewEncoder\<close> and \<open>NewDecoder\<close> of a coder
  with the pools of recycled encoders, and the package functions of \<open>utils.go\<close> on the
  default coder. Codecs run as in the \<open>nounsafe\<close> build. Marshaling code that calls
  \<open>Encode\<close> or \<open>Decode\<close> of the encoder it is given is not modelled.
\<close>

section \<open>State\<close>

text \<open>
  The program around the package (build, declared types, foreign code; \<open>g_real\<close> of the
  environment is not used, each coder has its own), with the bounds on the nesting depth of
  construction and of codec calls.
\<close>

record program =
  pr_platform :: platform
  pr_genv :: genv
  pr_build :: nat
  pr_depth :: nat

text \<open>
  The coders by their identity (0 is \<open>nil\<close>, 1 the default coder) and the pools.
  \<open>encoder.release\<close> drops the writer, so pooled encoders have none; the encoders of
  \<open>Marshal\<close> keep their buffer.
\<close>

record world =
  w_coders :: "nat \<Rightarrow> coder"
  w_next :: nat
  w_encoderPool :: "unit encoder list"
  w_marshalPool :: "u8 list encoder list"

definition DefaultCoder :: nat where "DefaultCoder = 1"

definition initial_world :: world where
  "initial_world = \<lparr>w_coders = \<lambda>_. NewCoder, w_next = 2, w_encoderPool = [], w_marshalPool = []\<rparr>"

definition api_NewCoder :: "world \<Rightarrow> nat \<times> world" where
  "api_NewCoder wd = (w_next wd, wd\<lparr>w_next := Suc (w_next wd), w_coders := (w_coders wd)(w_next wd := NewCoder)\<rparr>)"

text \<open>
  \<open>sync.Pool.Get\<close> removes some element; which one is not documented, and it may also find
  none: the choice is a parameter.
\<close>

definition pool_get :: "nat \<Rightarrow> 'a \<Rightarrow> 'a list \<Rightarrow> 'a \<times> 'a list" where
  "pool_get i new xs = (if i < length xs then (xs ! i, take i xs @ drop (Suc i) xs) else (new, xs))"

section \<open>Encoders\<close>

definition fresh_encoder :: "'w \<Rightarrow> bool \<Rightarrow> 'w encoder" where
  "fresh_encoder w ws = \<lparr>enc_w = w, enc_ws = ws, enc_cr = 0, enc_cache = replicate 4 None, enc_slot = 3,
     enc_scratch = replicate 8 0\<rparr>"

definition encoder_release :: "'w encoder \<Rightarrow> world \<Rightarrow> world" where
  "encoder_release e wd = wd\<lparr>w_encoderPool := \<lparr>enc_w = (), enc_ws = enc_ws e, enc_cr = enc_cr e,
     enc_cache = enc_cache e, enc_slot = enc_slot e, enc_scratch = enc_scratch e\<rparr> # w_encoderPool wd\<rparr>"

definition marshal_reset :: "nat \<Rightarrow> u8 list encoder \<Rightarrow> u8 list encoder" where
  "marshal_reset cr e = e\<lparr>enc_cache := (if enc_cr e \<noteq> cr then map (\<lambda>_. None) (enc_cache e) else enc_cache e),
     enc_cr := cr\<rparr>"

definition marshal_release :: "u8 list encoder \<Rightarrow> world \<Rightarrow> world" where
  "marshal_release e wd = wd\<lparr>w_marshalPool := e\<lparr>enc_w := []\<rparr> # w_marshalPool wd\<rparr>"

fun cache_find :: "(gtype \<times> codec) option list \<Rightarrow> gtype \<Rightarrow> codec option" where
  "cache_find [] t = None"
| "cache_find (None # xs) t = cache_find xs t"
| "cache_find (Some (u, c) # xs) t = (if u = t then Some c else cache_find xs t)"

definition in_coder :: "program \<Rightarrow> coder \<Rightarrow> genv" where
  "in_coder Q cr = (pr_genv Q)\<lparr>g_real := cr_real cr\<rparr>"

text \<open>The least recently filled slot takes the codec.\<close>

definition cache_put :: "gtype \<Rightarrow> codec \<Rightarrow> 'w encoder \<Rightarrow> 'w encoder" where
  "cache_put t c e = (let slot = (enc_slot e + 1) AND (length (enc_cache e) - 1) in
     e\<lparr>enc_slot := slot, enc_cache := (enc_cache e)[slot := Some (t, c)]\<rparr>)"

definition run_codec ::
  "program \<Rightarrow> 'w writer_ops \<Rightarrow> codec \<Rightarrow> gvalue \<Rightarrow> 'w encoder \<Rightarrow> (nat \<Rightarrow> coder)
    \<Rightarrow> (gerror option \<times> 'w encoder \<times> (nat \<Rightarrow> coder)) outcome" where
  "run_codec Q W c v e crs =
     obind (enc (pr_depth Q) (in_coder Q (crs (enc_cr e))) (encoder_call W) c v e) (\<lambda>(err, e'). Ret (err, e', crs))"

definition EncodeValue ::
  "program \<Rightarrow> 'w writer_ops \<Rightarrow> gtype \<Rightarrow> gvalue \<Rightarrow> 'w encoder \<Rightarrow> (nat \<Rightarrow> coder)
    \<Rightarrow> (gerror option \<times> 'w encoder \<times> (nat \<Rightarrow> coder)) outcome" where
  "EncodeValue Q W t v e crs = (case cache_find (enc_cache e) t of
      Some c \<Rightarrow> run_codec Q W c v e crs
    | None \<Rightarrow> obind (getBaseCodec (pr_build Q) (pr_platform Q) t (crs (enc_cr e))) (\<lambda>(c, cr').
        run_codec Q W c v (cache_put t c e) (crs(enc_cr e := cr'))))"

text \<open>An \<open>interface{}\<close> is nil or a value with its type.\<close>

type_synonym any_value = "(gtype \<times> gvalue) option"

definition Encode ::
  "program \<Rightarrow> 'w writer_ops \<Rightarrow> any_value \<Rightarrow> 'w encoder \<Rightarrow> (nat \<Rightarrow> coder)
    \<Rightarrow> (gerror option \<times> 'w encoder \<times> (nat \<Rightarrow> coder)) outcome" where
  "Encode Q W x e crs = (case x of None \<Rightarrow> Panic ''reflect: call of reflect.Value.Type on zero Value''
     | Some (t, v) \<Rightarrow> EncodeValue Q W t v e crs)"

section \<open>Decoders\<close>

definition decodeValue ::
  "program \<Rightarrow> 'r read_fn \<Rightarrow> gtype \<Rightarrow> gvalue \<Rightarrow> 'r decoder \<Rightarrow> (nat \<Rightarrow> coder)
    \<Rightarrow> (gerror option \<times> gvalue \<times> 'r decoder \<times> (nat \<Rightarrow> coder)) outcome" where
  "decodeValue Q rd t v d crs =
     obind (getCodec (pr_build Q) (pr_platform Q) t [] (crs (dec_cr d))) (\<lambda>(c, cr').
     obind (dec (pr_depth Q) (in_coder Q cr') (decoder_call (g_maxInt (pr_genv Q)) rd) c v d) (\<lambda>(err, v', d').
       Ret (err, v', d', crs(dec_cr d := cr'))))"

definition DecodeValue ::
  "program \<Rightarrow> 'r read_fn \<Rightarrow> bool \<Rightarrow> gtype \<Rightarrow> gvalue \<Rightarrow> 'r decoder \<Rightarrow> (nat \<Rightarrow> coder)
    \<Rightarrow> (gerror option \<times> gvalue \<times> 'r decoder \<times> (nat \<Rightarrow> coder)) outcome" where
  "DecodeValue Q rd canSet t v d crs =
     (if \<not> canSet then Ret (Some ErrNotPointer, v, d, crs) else decodeValue Q rd t v d crs)"

text \<open>\<open>Decode\<close> returns the pointer with what it then points to.\<close>

definition Decode ::
  "program \<Rightarrow> 'r read_fn \<Rightarrow> any_value \<Rightarrow> 'r decoder \<Rightarrow> (nat \<Rightarrow> coder)
    \<Rightarrow> (gerror option \<times> any_value \<times> 'r decoder \<times> (nat \<Rightarrow> coder)) outcome" where
  "Decode Q rd x d crs = (case x of None \<Rightarrow> Panic ''reflect: call of reflect.Value.Type on zero Value''
     | Some (t, p) \<Rightarrow>
        if kind (g_types (pr_genv Q)) t \<noteq> KPtr then Ret (Some ErrNotPointer, x, d, crs)
        else (case (elem_type (g_types (pr_genv Q)) t, p) of
            (Some e, VPtr (Some v)) \<Rightarrow> obind (decodeValue Q rd e v d crs) (\<lambda>(err, v', d', crs').
               Ret (err, Some (t, VPtr (Some v')), d', crs'))
          | _ \<Rightarrow> Panic ''reflect: call of reflect.Value.Type on zero Value''))"

section \<open>Methods of a coder\<close>

definition newEncoder :: "nat \<Rightarrow> 'w writer_ops \<Rightarrow> nat \<Rightarrow> 'w \<Rightarrow> world \<Rightarrow> 'w encoder \<times> world" where
  "newEncoder i W cr w wd = (case pool_get i (fresh_encoder () False) (w_encoderPool wd) of (e, pool) \<Rightarrow>
     (encoder_reset W cr w e, wd\<lparr>w_encoderPool := pool\<rparr>))"

definition NewEncoder :: "nat \<Rightarrow> 'w writer_ops \<Rightarrow> nat \<Rightarrow> 'w \<Rightarrow> world \<Rightarrow> 'w encoder \<times> world" where
  "NewEncoder i W cr w wd = newEncoder i W cr w wd"

text \<open>A recycled decoder has both fields overwritten.\<close>

definition newDecoder :: "nat \<Rightarrow> 'r \<Rightarrow> 'r decoder" where
  "newDecoder cr r = \<lparr>dec_r = r, dec_cr = cr\<rparr>"

definition NewDecoder :: "nat \<Rightarrow> 'r \<Rightarrow> 'r decoder" where
  "NewDecoder cr r = newDecoder cr r"

text \<open>Also after an error \<open>Marshal\<close> returns what was encoded so far.\<close>

definition Coder_Marshal ::
  "program \<Rightarrow> nat \<Rightarrow> nat \<Rightarrow> any_value \<Rightarrow> world \<Rightarrow> (u8 list \<times> gerror option \<times> world) outcome" where
  "Coder_Marshal Q i cr x wd = (case pool_get i (fresh_encoder [] True) (w_marshalPool wd) of (e, pool) \<Rightarrow>
     obind (Encode Q buffer_ops x (marshal_reset cr e) (w_coders wd)) (\<lambda>(err, e', crs).
       Ret (enc_w e', err, marshal_release e' (wd\<lparr>w_coders := crs, w_marshalPool := pool\<rparr>))))"

definition Coder_Read ::
  "program \<Rightarrow> 'r read_fn \<Rightarrow> nat \<Rightarrow> 'r \<Rightarrow> any_value \<Rightarrow> world
    \<Rightarrow> (gerror option \<times> any_value \<times> 'r \<times> world) outcome" where
  "Coder_Read Q rd cr r x wd = obind (Decode Q rd x (newDecoder cr r) (w_coders wd)) (\<lambda>(err, x', d, crs).
     Ret (err, x', dec_r d, wd\<lparr>w_coders := crs\<rparr>))"

definition Coder_Unmarshal ::
  "program \<Rightarrow> nat \<Rightarrow> u8 list \<Rightarrow> any_value \<Rightarrow> world \<Rightarrow> (gerror option \<times> any_value \<times> world) outcome" where
  "Coder_Unmarshal Q cr buf x wd =
     obind (Decode Q bytes_read x (newDecoder cr buf) (w_coders wd)) (\<lambda>(err, x', d, crs).
       Ret (err, x', wd\<lparr>w_coders := crs\<rparr>))"

text \<open>
  \<open>Write\<close>: straight to a \<open>*bytes.Buffer\<close> or \<open>*bufio.Writer\<close> (\<open>direct\<close>), and through a
  recycled \<open>bufio.Writer\<close> otherwise, which is flushed only when the encoding succeeded.
\<close>

definition write_direct ::
  "program \<Rightarrow> nat \<Rightarrow> 'w writer_ops \<Rightarrow> nat \<Rightarrow> 'w \<Rightarrow> any_value \<Rightarrow> world \<Rightarrow> (gerror option \<times> 'w \<times> world) outcome" where
  "write_direct Q i W cr w x wd = (case newEncoder i W cr w wd of (e, wd1) \<Rightarrow>
     obind (Encode Q W x e (w_coders wd1)) (\<lambda>(err, e', crs).
       Ret (err, enc_w e', encoder_release e' (wd1\<lparr>w_coders := crs\<rparr>))))"

definition Coder_Write ::
  "program \<Rightarrow> nat \<Rightarrow> 'w writer_ops \<Rightarrow> bool \<Rightarrow> nat \<Rightarrow> 'w \<Rightarrow> any_value \<Rightarrow> world
    \<Rightarrow> (gerror option \<times> 'w \<times> world) outcome" where
  "Coder_Write Q i W direct cr w x wd =
     (if direct then write_direct Q i W cr w x wd
      else obind (write_direct Q i (bufio_ops W) cr (bufio_Reset w) x wd) (\<lambda>(err, bw, wd1).
        case (if err = None then bufio_Flush W bw else (err, bw)) of (err', bw') \<Rightarrow> Ret (err', bw_w bw', wd1)))"

section \<open>The default coder\<close>

definition default_RegisterCodec :: "gtype \<Rightarrow> codec \<Rightarrow> world \<Rightarrow> (unit \<times> world) outcome" where
  "default_RegisterCodec t c wd = Panic ''Cannot register type on default codec''"

definition default_RegisterCodecReflect :: "gtype \<Rightarrow> codec \<Rightarrow> world \<Rightarrow> (unit \<times> world) outcome" where
  "default_RegisterCodecReflect t c wd = Panic ''Cannot register type on default codec''"

definition Marshal :: "program \<Rightarrow> nat \<Rightarrow> any_value \<Rightarrow> world \<Rightarrow> (u8 list \<times> gerror option \<times> world) outcome" where
  "Marshal Q i x wd = Coder_Marshal Q i DefaultCoder x wd"

definition Unmarshal ::
  "program \<Rightarrow> u8 list \<Rightarrow> any_value \<Rightarrow> world \<Rightarrow> (gerror option \<times> any_value \<times> world) outcome" where
  "Unmarshal Q buf x wd = Coder_Unmarshal Q DefaultCoder buf x wd"

definition api_Write ::
  "program \<Rightarrow> nat \<Rightarrow> 'w writer_ops \<Rightarrow> bool \<Rightarrow> 'w \<Rightarrow> any_value \<Rightarrow> world \<Rightarrow> (gerror option \<times> 'w \<times> world) outcome" where
  "api_Write Q i W direct w x wd = Coder_Write Q i W direct DefaultCoder w x wd"

definition api_Read ::
  "program \<Rightarrow> 'r read_fn \<Rightarrow> 'r \<Rightarrow> any_value \<Rightarrow> world \<Rightarrow> (gerror option \<times> any_value \<times> 'r \<times> world) outcome" where
  "api_Read Q rd r x wd = Coder_Read Q rd DefaultCoder r x wd"

definition api_NewEncoder :: "nat \<Rightarrow> 'w writer_ops \<Rightarrow> 'w \<Rightarrow> world \<Rightarrow> 'w encoder \<times> world" where
  "api_NewEncoder i W w wd = NewEncoder i W DefaultCoder w wd"

definition api_NewDecoder :: "'r \<Rightarrow> 'r decoder" where
  "api_NewDecoder r = NewDecoder DefaultCoder r"

section \<open>The cache of an encoder\<close>

text \<open>
  A cached codec is the one the coder knows for the type, so that asking the coder again
  returns it and changes nothing, now and later.
\<close>

definition base_answer :: "platform \<Rightarrow> coder \<Rightarrow> gtype \<Rightarrow> codec \<Rightarrow> bool" where
  "base_answer P cr t c \<longleftrightarrow> cr_known cr (t, []) = Some c \<and> xCodec P c"

definition cache_ok :: "platform \<Rightarrow> (nat \<Rightarrow> coder) \<Rightarrow> 'w encoder \<Rightarrow> bool" where
  "cache_ok P crs e \<longleftrightarrow> length (enc_cache e) = 4
     \<and> (\<forall>t c. Some (t, c) \<in> set (enc_cache e) \<longrightarrow> base_answer P (crs (enc_cr e)) t c)"

lemma base_answer_again:
  assumes "base_answer P cr t c" "reachable P cr"
  shows "getBaseCodec n P t cr = Ret (c, cr)"
proof -
  have "cr_base cr t = Some c' \<Longrightarrow> c' = c" for c'
    using assms reachable_ok [OF assms(2)] by (auto simp: base_answer_def coder_ok_def)
  then show ?thesis using assms(1)
    by (auto simp: getBaseCodec_def getNewCodec_def as_xCodec_def base_answer_def split: option.split)
qed

lemma base_answer_get: "base_answer P cr t c \<Longrightarrow> getCodec (Suc n) P t [] cr = Ret (c, cr)"
  by (simp add: base_answer_def ByteString_def as_xCodec_def)

lemma base_answer_extends: "base_answer P cr t c \<Longrightarrow> extends cr cr' \<Longrightarrow> base_answer P cr' t c"
  unfolding base_answer_def extends_def map_le_def by (metis domI)

lemma base_request:
  assumes "getBaseCodec n P t cr = Ret (c, cr')" "reachable P cr" "go_type (p_types P) t"
  shows "reachable P cr'" "later P cr cr'" "extends cr cr'" "base_answer P cr' t c"
proof -
  show l: "later P cr cr'" using step_base [OF assms(3,1)] by (auto simp: later_def)
  with assms(2) show "reachable P cr'" unfolding reachable_def later_def by (rule rtranclp_trans)
  show "extends cr cr'" using later_ok [OF l reachable_ok [OF assms(2)]] by simp
  show "base_answer P cr' t c"
  proof (cases "cr_base cr t")
    case None
    with assms(1) show ?thesis
      by (auto simp: getBaseCodec_def base_answer_def dest: new_known)
  next
    case (Some c')
    then show ?thesis using assms(1) reachable_ok [OF assms(2)]
      by (auto simp: getBaseCodec_def as_xCodec_def base_answer_def coder_ok_def split: if_splits)
  qed
qed

lemma cache_find_mem: "cache_find xs t = Some c \<Longrightarrow> Some (t, c) \<in> set xs"
  by (induction xs t rule: cache_find.induct) (auto split: if_splits)

lemma cache_ok_find: "cache_ok P crs e \<Longrightarrow> cache_find (enc_cache e) t = Some c \<Longrightarrow> base_answer P (crs (enc_cr e)) t c"
  by (auto simp: cache_ok_def dest: cache_find_mem)

lemma cache_put_fields [simp]:
  "enc_w (cache_put t c e) = enc_w e" "enc_cr (cache_put t c e) = enc_cr e" "enc_ws (cache_put t c e) = enc_ws e"
  "length (enc_cache (cache_put t c e)) = length (enc_cache e)"
  by (simp_all add: cache_put_def Let_def)

lemma cache_put_set: "set (enc_cache (cache_put t c e)) \<subseteq> insert (Some (t, c)) (set (enc_cache e))"
  by (simp add: cache_put_def Let_def set_update_subset_insert)

lemma cache_ok_put:
  assumes "cache_ok P crs e" "extends (crs (enc_cr e)) cr'" "base_answer P cr' t c"
  shows "cache_ok P (crs(enc_cr e := cr')) (cache_put t c e)"
  using assms cache_put_set [of t c e] base_answer_extends [OF _ assms(2)]
  by (auto simp: cache_ok_def)

text \<open>Encoding leaves the coder, the cache and its slot alone.\<close>

definition same_cache :: "'w encoder \<Rightarrow> 'w encoder \<Rightarrow> bool" where
  "same_cache e e' \<longleftrightarrow> enc_cr e' = enc_cr e \<and> enc_cache e' = enc_cache e \<and> enc_slot e' = enc_slot e \<and> enc_ws e' = enc_ws e"

lemma write_to_same: "same_cache e (snd (write_to W p e))"
  by (simp add: write_to_def same_cache_def split: prod.split)

lemma same_cache_trans: "same_cache e1 e2 \<Longrightarrow> same_cache e2 e3 \<Longrightarrow> same_cache e1 e3"
  by (simp add: same_cache_def)

lemma seq_same:
  "same_cache e (snd r) \<Longrightarrow> (\<And>e'. same_cache e' (snd (k e'))) \<Longrightarrow>
     same_cache e (snd (case r of (err, e') \<Rightarrow> if err \<noteq> None then (err, e') else k e'))"
  by (cases r) (auto intro: same_cache_trans)

lemma scratch_same: "same_cache (e\<lparr>enc_scratch := s\<rparr>) e' \<Longrightarrow> same_cache e e'"
  by (simp add: same_cache_def)

lemma EncodeInt_same: "same_cache e (snd (EncodeInt W i e))"
  unfolding EncodeInt_def Let_def by (rule scratch_same [OF write_to_same])

lemma EncodeHyper_same: "same_cache e (snd (EncodeHyper W i e))"
  unfolding EncodeHyper_def Let_def by (rule scratch_same [OF write_to_same])

lemma EncodeFixedOpaque_same: "same_cache e (snd (EncodeFixedOpaque W b e))"
  unfolding EncodeFixedOpaque_def by (intro seq_same write_to_same)

lemma EncodeFixedString_same: "same_cache e (snd (EncodeFixedString W b e))"
  unfolding EncodeFixedString_def
  by (intro seq_same write_to_same) (auto simp: same_cache_def write_to_def split: prod.split option.split bool.split)

lemma same_if: "same_cache e (snd r) \<Longrightarrow> same_cache e (snd (if b then (err, e) else r))"
  by (simp add: same_cache_def)

lemma sized_same: "same_cache e (snd (EncodeOpaque W b e))" "same_cache e (snd (EncodeString W b e))"
  unfolding EncodeOpaque_def EncodeString_def EncodeUnsignedInt_def
  by (intro same_if seq_same EncodeInt_same EncodeFixedOpaque_same EncodeFixedString_same)+

lemma encoder_call_same: "same_cache e (snd (encoder_call W c e))"
  by (cases c)
    (simp_all add: EncodeBool_def EncodeUnsignedInt_def EncodeUnsignedHyper_def EncodeFloat_def EncodeDouble_def Let_def
      EncodeInt_same EncodeHyper_same EncodeFixedOpaque_same EncodeFixedString_same sized_same)

interpretation call_same: enc_keeps "encoder_call W" same_cache for W
  by unfold_locales (rule encoder_call_same, simp_all add: same_cache_def)

lemma enc_same: "enc n G (encoder_call W) c v e = Ret (err, e') \<Longrightarrow> same_cache e e'"
  using call_same.enc_keeps [of e n G W c v] by (simp add: call_same.keeps_def)

section \<open>Consistent worlds\<close>

definition program_ok :: "program \<Rightarrow> bool" where
  "program_ok Q \<longleftrightarrow> same_platform (pr_platform Q) (pr_genv Q)"

definition go_any :: "program \<Rightarrow> any_value \<Rightarrow> bool" where
  "go_any Q x \<longleftrightarrow> (\<forall>t v. x = Some (t, v) \<longrightarrow> go_type (p_types (pr_platform Q)) t)"

definition coders_ok :: "program \<Rightarrow> (nat \<Rightarrow> coder) \<Rightarrow> bool" where
  "coders_ok Q crs \<longleftrightarrow> (\<forall>k. reachable (pr_platform Q) (crs k))"

text \<open>Coder \<open>k\<close> has learned codecs, the others are as they were.\<close>

definition grown :: "nat \<Rightarrow> (nat \<Rightarrow> coder) \<Rightarrow> (nat \<Rightarrow> coder) \<Rightarrow> bool" where
  "grown k crs crs' \<longleftrightarrow> extends (crs k) (crs' k) \<and> (\<forall>j. j \<noteq> k \<longrightarrow> crs' j = crs j)"

definition world_ok :: "program \<Rightarrow> world \<Rightarrow> bool" where
  "world_ok Q wd \<longleftrightarrow> coders_ok Q (w_coders wd) \<and> (\<forall>k\<ge>w_next wd. w_coders wd k = NewCoder)
     \<and> (\<forall>e\<in>set (w_encoderPool wd). cache_ok (pr_platform Q) (w_coders wd) e)
     \<and> (\<forall>e\<in>set (w_marshalPool wd). cache_ok (pr_platform Q) (w_coders wd) e \<and> enc_w e = [])"

lemma initial_world_ok: "world_ok Q initial_world"
  by (simp add: world_ok_def coders_ok_def initial_world_def reachable_def later_def)

lemma grown_extends: "grown k crs crs' \<Longrightarrow> extends (crs j) (crs' j)"
  by (cases "j = k") (auto simp: grown_def)

lemma cache_ok_grown: "cache_ok P crs e \<Longrightarrow> grown k crs crs' \<Longrightarrow> cache_ok P crs' e"
  unfolding cache_ok_def by (blast intro: base_answer_extends dest: grown_extends)

lemma cache_ok_same:
  "cache_ok P crs e \<Longrightarrow> enc_cr e' = enc_cr e \<Longrightarrow> enc_cache e' = enc_cache e \<Longrightarrow> cache_ok P crs e'"
  by (simp add: cache_ok_def)

lemma cache_ok_empty: "set (enc_cache e) \<subseteq> {None} \<Longrightarrow> length (enc_cache e) = 4 \<Longrightarrow> cache_ok P crs e"
  by (auto simp: cache_ok_def)

lemma world_ok_grown:
  "world_ok Q wd \<Longrightarrow> coders_ok Q crs \<Longrightarrow> k < w_next wd \<Longrightarrow> grown k (w_coders wd) crs \<Longrightarrow>
     world_ok Q (wd\<lparr>w_coders := crs\<rparr>)"
  by (auto simp: world_ok_def grown_def intro: cache_ok_grown [unfolded grown_def])

lemma pool_get_cases: "pool_get i new xs = (e, xs') \<Longrightarrow> (e = new \<or> e \<in> set xs) \<and> set xs' \<subseteq> set xs"
  by (auto simp: pool_get_def split: if_splits dest: in_set_takeD in_set_dropD)

lemma fresh_ok: "cache_ok P crs (fresh_encoder w ws)"
  by (rule cache_ok_empty) (auto simp: fresh_encoder_def)

lemma reset_ok: "cache_ok P crs e \<Longrightarrow> cache_ok P crs (encoder_reset W cr w e)"
  by (cases "enc_cr e = cr") (auto simp: encoder_reset_def cache_ok_def)

lemma marshal_reset_ok: "cache_ok P crs e \<Longrightarrow> cache_ok P crs (marshal_reset cr e)"
  by (cases "enc_cr e = cr") (auto simp: marshal_reset_def cache_ok_def)

lemma coders_upd: "coders_ok Q crs \<Longrightarrow> reachable (pr_platform Q) cr' \<Longrightarrow> coders_ok Q (crs(k := cr'))"
  by (simp add: coders_ok_def)

lemma grown_upd: "extends (crs k) cr' \<Longrightarrow> grown k crs (crs(k := cr'))"
  by (simp add: grown_def)

text \<open>What an encoder does to the coders and its cache.\<close>

lemma EncodeValue_ok:
  assumes "cache_ok (pr_platform Q) crs e" "coders_ok Q crs" "go_type (p_types (pr_platform Q)) t"
    and "EncodeValue Q W t v e crs = Ret (err, e', crs')"
  shows "cache_ok (pr_platform Q) crs' e'" "coders_ok Q crs'" "grown (enc_cr e) crs crs'"
proof -
  have "cache_ok (pr_platform Q) crs' e' \<and> coders_ok Q crs' \<and> grown (enc_cr e) crs crs'"
  proof (cases "cache_find (enc_cache e) t")
    case (Some c)
    then show ?thesis using assms enc_same
      by (auto simp: EncodeValue_def run_codec_def grown_def same_cache_def elim!: cache_ok_same dest!: enc_same)
  next
    case None
    with assms(4) obtain c cr' where c: "getBaseCodec (pr_build Q) (pr_platform Q) t (crs (enc_cr e)) = Ret (c, cr')"
      and r: "run_codec Q W c v (cache_put t c e) (crs(enc_cr e := cr')) = Ret (err, e', crs')"
      by (auto simp: EncodeValue_def)
    have "reachable (pr_platform Q) (crs (enc_cr e))" using assms(2) by (simp add: coders_ok_def)
    note b = base_request [OF c this assms(3)]
    from r have crs': "crs' = crs(enc_cr e := cr')" and s: "same_cache (cache_put t c e) e'"
      by (auto simp: run_codec_def dest: enc_same)
    have "cache_ok (pr_platform Q) crs' e'"
      by (rule cache_ok_same [OF cache_ok_put [OF assms(1) b(3,4)], folded crs'])
        (use s in \<open>simp_all add: same_cache_def\<close>)
    then show ?thesis using crs' coders_upd [OF assms(2) b(1)] grown_upd [of crs "enc_cr e", OF b(3)] by simp
  qed
  then show "cache_ok (pr_platform Q) crs' e'" "coders_ok Q crs'" "grown (enc_cr e) crs crs'" by auto
qed

lemma Encode_ok:
  assumes "cache_ok (pr_platform Q) crs e" "coders_ok Q crs" "go_any Q x"
    and "Encode Q W x e crs = Ret (err, e', crs')"
  shows "cache_ok (pr_platform Q) crs' e'" "coders_ok Q crs'" "grown (enc_cr e) crs crs'"
  using assms EncodeValue_ok [OF assms(1,2)]
  by (auto simp: Encode_def go_any_def split: option.splits)

lemma get_request:
  assumes "getCodec n P t [] cr = Ret (c, cr')" "reachable P cr" "go_type (p_types P) t"
  shows "reachable P cr'" "later P cr cr'" "extends cr cr'" "base_answer P cr' t c"
proof -
  show l: "later P cr cr'" using step_get [OF assms(3,1)] by (auto simp: later_def)
  with assms(2) show "reachable P cr'" unfolding reachable_def later_def by (rule rtranclp_trans)
  show "extends cr cr'" using later_ok [OF l reachable_ok [OF assms(2)]] by simp
  show "base_answer P cr' t c" using get_known [OF assms(1)] by (simp add: base_answer_def)
qed

lemma Decode_ok:
  assumes "program_ok Q" "coders_ok Q crs" "go_any Q x" and "Decode Q rd x d crs = Ret (err, x', d', crs')"
  shows "coders_ok Q crs'" "grown (dec_cr d) crs crs'"
proof -
  have "coders_ok Q crs' \<and> grown (dec_cr d) crs crs'"
  proof (cases "\<exists>t e v. x = Some (t, VPtr (Some v)) \<and> kind (g_types (pr_genv Q)) t = KPtr
      \<and> elem_type (g_types (pr_genv Q)) t = Some e")
    case True
    then obtain t e v where x: "x = Some (t, VPtr (Some v))" "elem_type (g_types (pr_genv Q)) t = Some e" by blast
    have P: "p_types (pr_platform Q) = g_types (pr_genv Q)" "go_env (g_types (pr_genv Q))"
      using assms(1) by (simp_all add: program_ok_def same_platform_def)
    have e: "go_type (p_types (pr_platform Q)) e"
      using go_parts(1) [OF P(2) _ x(2)] assms(3) x(1) P(1) by (simp add: go_any_def)
    from assms(4) x True obtain c cr' where
      c: "getCodec (pr_build Q) (pr_platform Q) e [] (crs (dec_cr d)) = Ret (c, cr')" "crs' = crs(dec_cr d := cr')"
      by (auto simp: Decode_def decodeValue_def)
    have "reachable (pr_platform Q) (crs (dec_cr d))" using assms(2) by (simp add: coders_ok_def)
    note g = get_request [OF c(1) this e]
    show ?thesis using c(2) coders_upd [OF assms(2) g(1)] grown_upd [of crs "dec_cr d", OF g(3)] by simp
  next
    case False
    with assms(4) have "crs' = crs" by (auto simp: Decode_def split: option.splits if_splits gvalue.splits)
    then show ?thesis using assms(2) by (simp add: grown_def)
  qed
  then show "coders_ok Q crs'" "grown (dec_cr d) crs crs'" by auto
qed

text \<open>The operations on the world.\<close>

lemma marshal_pool:
  assumes "world_ok Q wd" "pool_get i (fresh_encoder [] True) (w_marshalPool wd) = (e, pool)"
  shows "cache_ok (pr_platform Q) (w_coders wd) (marshal_reset cr e)" "enc_w e = []"
    "world_ok Q (wd\<lparr>w_marshalPool := pool\<rparr>)"
proof -
  note g = pool_get_cases [OF assms(2)]
  have "cache_ok (pr_platform Q) (w_coders wd) e" "enc_w e = []"
    using g assms(1) fresh_ok [of _ _ "[]" True] by (auto simp: world_ok_def fresh_encoder_def)
  then show "cache_ok (pr_platform Q) (w_coders wd) (marshal_reset cr e)" "enc_w e = []"
    by (simp_all add: marshal_reset_ok)
  show "world_ok Q (wd\<lparr>w_marshalPool := pool\<rparr>)" using g assms(1) by (auto simp: world_ok_def)
qed

lemma encoder_pool:
  assumes "world_ok Q wd" "newEncoder i W cr w wd = (e, wd1)"
  shows "cache_ok (pr_platform Q) (w_coders wd) e" "enc_w e = w" "enc_cr e = cr" "world_ok Q wd1"
    "w_coders wd1 = w_coders wd" "w_next wd1 = w_next wd"
proof -
  obtain e0 pool where g: "pool_get i (fresh_encoder () False) (w_encoderPool wd) = (e0, pool)"
    by (cases "pool_get i (fresh_encoder () False) (w_encoderPool wd)")
  then have e: "e = encoder_reset W cr w e0" "wd1 = wd\<lparr>w_encoderPool := pool\<rparr>"
    using assms(2) by (auto simp: newEncoder_def)
  have "cache_ok (pr_platform Q) (w_coders wd) e0"
    using pool_get_cases [OF g] assms(1) fresh_ok by (auto simp: world_ok_def)
  then show "cache_ok (pr_platform Q) (w_coders wd) e" unfolding e by (rule reset_ok)
  show "world_ok Q wd1" using pool_get_cases [OF g] assms(1) e by (auto simp: world_ok_def)
qed (use assms(2) in \<open>auto simp: newEncoder_def encoder_reset_def split: prod.splits\<close>)

lemma Marshal_ok:
  assumes "world_ok Q wd" "cr < w_next wd" "go_any Q x" "Coder_Marshal Q i cr x wd = Ret (bs, err, wd')"
  shows "world_ok Q wd'" "w_next wd' = w_next wd"
proof -
  obtain e pool where g: "pool_get i (fresh_encoder [] True) (w_marshalPool wd) = (e, pool)"
    by (cases "pool_get i (fresh_encoder [] True) (w_marshalPool wd)")
  note p = marshal_pool [OF assms(1) g]
  from assms(4) g obtain e' crs where r: "Encode Q buffer_ops x (marshal_reset cr e) (w_coders wd) = Ret (err, e', crs)"
    and wd': "wd' = marshal_release e' (wd\<lparr>w_coders := crs, w_marshalPool := pool\<rparr>)"
    by (auto simp: Coder_Marshal_def)
  have "coders_ok Q (w_coders wd)" using assms(1) by (simp add: world_ok_def)
  note k = Encode_ok [OF p(1) this assms(3) r]
  have "world_ok Q (wd\<lparr>w_marshalPool := pool, w_coders := crs\<rparr>)"
    using world_ok_grown [OF p(3) k(2)] k(3) assms(2) by (simp add: marshal_reset_def)
  then show "world_ok Q wd'"
    using cache_ok_same [OF k(1), of "e'\<lparr>enc_w := []\<rparr>"] by (simp add: wd' marshal_release_def world_ok_def)
  show "w_next wd' = w_next wd" by (simp add: wd' marshal_release_def)
qed

lemma write_direct_ok:
  assumes "world_ok Q wd" "cr < w_next wd" "go_any Q x" "write_direct Q i W cr w x wd = Ret (err, w', wd')"
  shows "world_ok Q wd'" "w_next wd' = w_next wd"
proof -
  obtain e wd1 where g: "newEncoder i W cr w wd = (e, wd1)" by (cases "newEncoder i W cr w wd")
  note p = encoder_pool [OF assms(1) g]
  from assms(4) g obtain e' crs where r: "Encode Q W x e (w_coders wd1) = Ret (err, e', crs)"
    and wd': "wd' = encoder_release e' (wd1\<lparr>w_coders := crs\<rparr>)"
    by (auto simp: write_direct_def)
  have "coders_ok Q (w_coders wd1)" using p(4) by (simp add: world_ok_def)
  note k = Encode_ok [OF p(1) [folded p(5)] this assms(3) r]
  have "world_ok Q (wd1\<lparr>w_coders := crs\<rparr>)" using world_ok_grown [OF p(4) k(2)] k(3) assms(2) p(3,6) by simp
  moreover have "cache_ok (pr_platform Q) crs \<lparr>enc_w = (), enc_ws = enc_ws e', enc_cr = enc_cr e',
     enc_cache = enc_cache e', enc_slot = enc_slot e', enc_scratch = enc_scratch e'\<rparr>"
    using k(1) by (simp add: cache_ok_def)
  ultimately show "world_ok Q wd'" by (simp add: wd' encoder_release_def world_ok_def)
  show "w_next wd' = w_next wd" using p(6) by (simp add: wd' encoder_release_def)
qed

lemma Write_ok:
  assumes "world_ok Q wd" "cr < w_next wd" "go_any Q x" "Coder_Write Q i W direct cr w x wd = Ret (err, w', wd')"
  shows "world_ok Q wd' \<and> w_next wd' = w_next wd"
proof (cases direct)
  case True
  with assms(4) have "write_direct Q i W cr w x wd = Ret (err, w', wd')" by (simp add: Coder_Write_def)
  from write_direct_ok [OF assms(1-3) this] show ?thesis by simp
next
  case False
  with assms(4) obtain err1 bw where "write_direct Q i (bufio_ops W) cr (bufio_Reset w) x wd = Ret (err1, bw, wd')"
    by (auto simp: Coder_Write_def case_prod_beta)
  from write_direct_ok [OF assms(1-3) this] show ?thesis by simp
qed

lemma Read_ok:
  assumes "program_ok Q" "world_ok Q wd" "cr < w_next wd" "go_any Q x" "Coder_Read Q rd cr r x wd = Ret (err, x', r', wd')"
  shows "world_ok Q wd'" "w_next wd' = w_next wd"
proof -
  from assms(5) obtain d crs where r: "Decode Q rd x (newDecoder cr r) (w_coders wd) = Ret (err, x', d, crs)"
    and wd': "wd' = wd\<lparr>w_coders := crs\<rparr>" by (auto simp: Coder_Read_def)
  have "coders_ok Q (w_coders wd)" using assms(2) by (simp add: world_ok_def)
  note k = Decode_ok [OF assms(1) this assms(4) r]
  show "world_ok Q wd'" using world_ok_grown [OF assms(2) k(1) assms(3)] k(2) by (simp add: wd' newDecoder_def)
  show "w_next wd' = w_next wd" by (simp add: wd')
qed

lemma Unmarshal_Read:
  "Coder_Unmarshal Q cr buf x wd = obind (Coder_Read Q bytes_read cr buf x wd) (\<lambda>(err, x', r, wd'). Ret (err, x', wd'))"
  by (cases "Decode Q bytes_read x (newDecoder cr buf) (w_coders wd)") (auto simp: Coder_Unmarshal_def Coder_Read_def)

section \<open>What an encoder does to its writer\<close>

text \<open>A relation that every call of the writer keeps, every encoder call keeps.\<close>

lemma encoder_keeps:
  assumes "\<And>w. R w w" "\<And>w1 w2 w3. R w1 w2 \<Longrightarrow> R w2 w3 \<Longrightarrow> R w1 w3"
    and "\<And>w p. R w (snd (snd (op_Write W w p)))"
    and "\<And>f w p. op_WriteString W = Some f \<Longrightarrow> R w (snd (snd (f w p)))"
  shows "enc_keeps (encoder_call W) (\<lambda>e e'. R (enc_w e) (enc_w e'))"
proof
  let ?R = "\<lambda>e e'. R (enc_w e) (enc_w e')"
  have one: "?R e (snd (write_to W p e))" for e p
    using assms(3) [of "enc_w e" p] by (cases "op_Write W (enc_w e) p") (simp add: write_to_def)
  have seq: "?R e (snd r) \<Longrightarrow> (\<And>e'. ?R e' (snd (k e'))) \<Longrightarrow>
      ?R e (snd (case r of (err, e') \<Rightarrow> if err \<noteq> None then (err, e') else k e'))" for e r k
    using assms(2) by (cases r) auto
  have scratch: "?R (e\<lparr>enc_scratch := s\<rparr>) e' \<Longrightarrow> ?R e e'" for e e' s by simp
  have int: "?R e (snd (EncodeInt W i e))" "?R e (snd (EncodeHyper W h e))" for e i h
    unfolding EncodeInt_def EncodeHyper_def Let_def by (rule scratch [OF one])+
  have fixed: "?R e (snd (EncodeFixedOpaque W b e))" for e b
    unfolding EncodeFixedOpaque_def by (intro seq one)
  have chars: "?R e (snd (EncodeFixedString W b e))" for e b
    unfolding EncodeFixedString_def
    by (intro seq one)
      (use one assms(4) in \<open>auto split: prod.split option.split bool.split; metis snd_conv\<close>)
  have opt: "?R e (snd r) \<Longrightarrow> ?R e (snd (if x then (err, e) else r))" for e r x and err :: "gerror option"
    using assms(1) by simp
  have sized: "?R e (snd (EncodeOpaque W b e))" "?R e (snd (EncodeString W b e))" for e b
    unfolding EncodeOpaque_def EncodeString_def EncodeUnsignedInt_def by (intro opt seq int fixed chars)+
  show "?R e (snd (encoder_call W c e))" for e c
    by (cases c) (simp_all add: EncodeBool_def EncodeUnsignedInt_def EncodeUnsignedHyper_def EncodeFloat_def
        EncodeDouble_def Let_def int fixed chars sized)
qed (use assms(1,2) in auto)

context writer
begin

lemma buffered_forward:
  assumes "enc n G (encoder_call (bufio_ops W)) c v e = Ret (err, e')"
  shows "prefix (written (bw_w (enc_w e))) (written (bw_w (enc_w e')))"
proof -
  have "enc_keeps (encoder_call (bufio_ops W)) (\<lambda>e e'. forward (enc_w e) (enc_w e'))"
    by (rule encoder_keeps) (auto intro: forward_refl forward_trans ops_forward)
  from enc_keeps.enc_keeps [OF this, of e n G c v] have "forward (enc_w e) (enc_w e')"
    unfolding enc_keeps.keeps_def [OF \<open>enc_keeps _ _\<close>] using assms by simp
  then show ?thesis by (simp add: forward_def)
qed

end

section \<open>Lookups\<close>

lemma EncodeValue_lookup:
  assumes "cache_ok (pr_platform Q) crs e" "coders_ok Q crs"
  shows "EncodeValue Q W t v e crs =
    obind (getBaseCodec (pr_build Q) (pr_platform Q) t (crs (enc_cr e))) (\<lambda>(c, cr').
      run_codec Q W c v (if cache_find (enc_cache e) t = None then cache_put t c e else e) (crs(enc_cr e := cr')))"
proof (cases "cache_find (enc_cache e) t")
  case (Some c)
  have "getBaseCodec (pr_build Q) (pr_platform Q) t (crs (enc_cr e)) = Ret (c, crs (enc_cr e))"
    using base_answer_again [OF cache_ok_find [OF assms(1) Some]] assms(2) by (simp add: coders_ok_def)
  then show ?thesis using Some by (simp add: EncodeValue_def)
qed (simp add: EncodeValue_def)

lemma EncodeValue_runs:
  assumes "cache_ok (pr_platform Q) crs e" "coders_ok Q crs"
    and "getBaseCodec (pr_build Q) (pr_platform Q) t (crs (enc_cr e)) = Ret (c, cr')"
  obtains e1 where "enc_w e1 = enc_w e" "EncodeValue Q W t v e crs =
    obind (enc (pr_depth Q) (in_coder Q cr') (encoder_call W) c v e1) (\<lambda>(err, e'). Ret (err, e', crs(enc_cr e := cr')))"
proof
  let ?e = "if cache_find (enc_cache e) t = None then cache_put t c e else e"
  show "enc_w ?e = enc_w e" by simp
  have "enc_cr ?e = enc_cr e" by simp
  then show "EncodeValue Q W t v e crs =
    obind (enc (pr_depth Q) (in_coder Q cr') (encoder_call W) c v ?e) (\<lambda>(err, e'). Ret (err, e', crs(enc_cr e := cr')))"
    unfolding EncodeValue_lookup [OF assms(1,2)] assms(3) by (simp add: run_codec_def)
qed

text \<open>\<open>Marshal\<close> and \<open>Write\<close> run the same codec, on encoders that only differ in their writer.\<close>

lemma Marshal_runs:
  assumes "world_ok Q wd"
    and "getBaseCodec (pr_build Q) (pr_platform Q) t (w_coders wd cr) = Ret (c, cr')"
  obtains e wr where "enc_w e = []" "Coder_Marshal Q i cr (Some (t, v)) wd =
      obind (enc (pr_depth Q) (in_coder Q cr') (encoder_call buffer_ops) c v e) (\<lambda>(err, e').
        Ret (enc_w e', err, wr e'))" "\<And>e'. w_coders (wr e') = (w_coders wd)(cr := cr')"
proof -
  obtain e pool where g: "pool_get i (fresh_encoder [] True) (w_marshalPool wd) = (e, pool)"
    by (cases "pool_get i (fresh_encoder [] True) (w_marshalPool wd)")
  note p = marshal_pool [OF assms(1) g]
  have cr: "enc_cr (marshal_reset cr e) = cr" "enc_w (marshal_reset cr e) = enc_w e" for cr
    by (simp_all add: marshal_reset_def)
  have "coders_ok Q (w_coders wd)" using assms(1) by (simp add: world_ok_def)
  from EncodeValue_runs [OF p(1) this, unfolded cr, OF assms(2)] obtain e1 where
    e1: "enc_w e1 = enc_w e" "EncodeValue Q buffer_ops t v (marshal_reset cr e) (w_coders wd) =
      obind (enc (pr_depth Q) (in_coder Q cr') (encoder_call buffer_ops) c v e1) (\<lambda>(err, e').
        Ret (err, e', (w_coders wd)(cr := cr')))" by metis
  let ?wr = "\<lambda>e'. marshal_release e' (wd\<lparr>w_coders := (w_coders wd)(cr := cr'), w_marshalPool := pool\<rparr>)"
  show thesis
  proof (rule that [of e1 ?wr])
    show "enc_w e1 = []" using e1(1) p(2) by simp
    show "Coder_Marshal Q i cr (Some (t, v)) wd =
      obind (enc (pr_depth Q) (in_coder Q cr') (encoder_call buffer_ops) c v e1) (\<lambda>(err, e'). Ret (enc_w e', err, ?wr e'))"
      using e1(2) by (cases "enc (pr_depth Q) (in_coder Q cr') (encoder_call buffer_ops) c v e1")
        (auto simp: Coder_Marshal_def g Encode_def)
  qed (simp add: marshal_release_def)
qed

lemma marshal_asks:
  assumes "world_ok Q wd" "Coder_Marshal Q i cr (Some (t, v)) wd = Ret (bs, err, wd1)"
  shows "\<exists>c cr'. getBaseCodec (pr_build Q) (pr_platform Q) t (w_coders wd cr) = Ret (c, cr')"
proof -
  obtain e pool where g: "pool_get i (fresh_encoder [] True) (w_marshalPool wd) = (e, pool)"
    by (cases "pool_get i (fresh_encoder [] True) (w_marshalPool wd)")
  have "coders_ok Q (w_coders wd)" using assms(1) by (simp add: world_ok_def)
  note look = EncodeValue_lookup [OF marshal_pool(1) [OF assms(1) g] this]
  have "enc_cr (marshal_reset cr e) = cr" by (simp add: marshal_reset_def)
  then show ?thesis using assms(2) look [of buffer_ops t v cr]
    by (cases "getBaseCodec (pr_build Q) (pr_platform Q) t (w_coders wd cr)") (auto simp: Coder_Marshal_def g Encode_def)
qed

lemma write_direct_runs:
  assumes "world_ok Q wd"
    and "getBaseCodec (pr_build Q) (pr_platform Q) t (w_coders wd cr) = Ret (c, cr')"
  obtains e wr where "enc_w e = w" "write_direct Q i W cr w (Some (t, v)) wd =
      obind (enc (pr_depth Q) (in_coder Q cr') (encoder_call W) c v e) (\<lambda>(err, e').
        Ret (err, enc_w e', wr e'))" "\<And>e'. w_coders (wr e') = (w_coders wd)(cr := cr')"
proof -
  obtain e wd1 where g: "newEncoder i W cr w wd = (e, wd1)" by (cases "newEncoder i W cr w wd")
  note p = encoder_pool [OF assms(1) g]
  have "coders_ok Q (w_coders wd)" using assms(1) by (simp add: world_ok_def)
  from EncodeValue_runs [OF p(1) this, unfolded p(3), OF assms(2)] obtain e1 where
    e1: "enc_w e1 = enc_w e" "EncodeValue Q W t v e (w_coders wd) =
      obind (enc (pr_depth Q) (in_coder Q cr') (encoder_call W) c v e1) (\<lambda>(err, e').
        Ret (err, e', (w_coders wd)(cr := cr')))" by metis
  let ?wr = "\<lambda>e'. encoder_release e' (wd1\<lparr>w_coders := (w_coders wd)(cr := cr')\<rparr>)"
  show thesis
  proof (rule that [of e1 ?wr])
    show "enc_w e1 = w" using e1(1) p(2) by simp
    show "write_direct Q i W cr w (Some (t, v)) wd =
      obind (enc (pr_depth Q) (in_coder Q cr') (encoder_call W) c v e1) (\<lambda>(err, e'). Ret (err, enc_w e', ?wr e'))"
      using e1(2) p(5) by (cases "enc (pr_depth Q) (in_coder Q cr') (encoder_call W) c v e1")
        (auto simp: write_direct_def g Encode_def)
  qed (simp add: encoder_release_def)
qed

section \<open>Properties\<close>

text \<open>
  C23. The codec cache of an encoder is invisible: \<open>EncodeValue\<close> behaves as if it asked the
  coder for the codec every time, whatever types were encoded before. A hit saves a lookup
  that would have returned the same codec and left the coder alone.
\<close>

theorem cache_is_transparent:
  assumes "cache_ok (pr_platform Q) crs e" and "coders_ok Q crs"
  shows "EncodeValue Q W t v e crs =
    obind (getBaseCodec (pr_build Q) (pr_platform Q) t (crs (enc_cr e))) (\<lambda>(c, cr').
      run_codec Q W c v (if cache_find (enc_cache e) t = None then cache_put t c e else e) (crs(enc_cr e := cr')))"
  using EncodeValue_lookup [OF assms] .

text \<open>A program without declared types, its world, and the codec of \<open>int32\<close> in it.\<close>

definition demo_program :: program where
  "demo_program = \<lparr>pr_platform = \<lparr>p_maxInt = 2 ^ 63 - 1, p_types = [], p_nounsafe = True\<rparr>,
     pr_genv = plain_env Map.empty, pr_build = 1, pr_depth = 1\<rparr>"

lemma demo_program_ok: "program_ok demo_program" "world_ok demo_program initial_world"
  "coders_ok demo_program (w_coders initial_world)" "DefaultCoder < w_next initial_world"
  using initial_world_ok [of demo_program]
  by (simp_all add: program_ok_def same_platform_def demo_program_def plain_env_def go_env_def world_ok_def
      DefaultCoder_def initial_world_def)

definition int32_coder :: coder where
  "int32_coder = \<lparr>cr_base = [GInt32 \<mapsto> CInt32], cr_known = [(GInt32, []) \<mapsto> CInt32], cr_next = 1,
     cr_real = [0 \<mapsto> CInt32]\<rparr>"

lemma int32_request:
  "getBaseCodec (pr_build demo_program) (pr_platform demo_program) GInt32 NewCoder = Ret (CInt32, int32_coder)"
  by (simp add: demo_program_def getBaseCodec_def NewCoder_def getNewCodec_def buildCodec_def plain_codec_def
      kind_def under_def implements_marshaler_def toXCodec_def Let_def kind_defs tag_Empty_def int32_coder_def)

theorem cache_is_transparent_witness:
  "EncodeValue demo_program buffer_ops GInt32 (VInt32 7) (marshal_reset 1 (fresh_encoder [] True)) (\<lambda>_. NewCoder)
   = run_codec demo_program buffer_ops CInt32 (VInt32 7)
       (cache_put GInt32 CInt32 (marshal_reset 1 (fresh_encoder [] True))) ((\<lambda>_. NewCoder)(1 := int32_coder))"
proof -
  have c: "coders_ok demo_program (\<lambda>_. NewCoder)"
    using demo_program_ok(3) by (simp add: initial_world_def)
  have e: "cache_ok (pr_platform demo_program) (\<lambda>_. NewCoder) (marshal_reset 1 (fresh_encoder [] True))"
    by (rule marshal_reset_ok [OF fresh_ok])
  have f: "cache_find (enc_cache (marshal_reset 1 (fresh_encoder [] True))) GInt32 = None"
    "enc_cr (marshal_reset 1 (fresh_encoder [] True)) = 1"
    by (simp_all add: marshal_reset_def fresh_encoder_def numeral_nat)
  show ?thesis unfolding cache_is_transparent [OF e c] by (simp only: f int32_request) simp
qed

text \<open>
  C24. Recycling is safe: \<open>Marshal\<close>, \<open>Unmarshal\<close>, \<open>Write\<close>, \<open>Read\<close> and \<open>NewCoder\<close> keep the
  pools consistent. Every recycled encoder only caches codecs that its coder still hands
  out for those types, whichever coder uses it next, and \<open>Marshal\<close>'s encoders come back
  with an empty buffer.
\<close>

theorem pools_stay_consistent:
  assumes "program_ok Q" and "world_ok Q wd" and "cr < w_next wd" and "go_any Q x"
  shows "(Coder_Marshal Q i cr x wd = Ret (bs, err, wd') \<longrightarrow> world_ok Q wd')
    \<and> (Coder_Write Q i W direct cr w x wd = Ret (err, w', wd') \<longrightarrow> world_ok Q wd')
    \<and> (Coder_Unmarshal Q cr buf x wd = Ret (err, x', wd') \<longrightarrow> world_ok Q wd')
    \<and> (Coder_Read Q rd cr r x wd = Ret (err, x', r', wd') \<longrightarrow> world_ok Q wd')
    \<and> world_ok Q (snd (api_NewCoder wd))"
proof (intro conjI impI)
  show "Coder_Marshal Q i cr x wd = Ret (bs, err, wd') \<Longrightarrow> world_ok Q wd'"
    by (rule Marshal_ok [OF assms(2-4)])
  show "Coder_Write Q i W direct cr w x wd = Ret (err, w', wd') \<Longrightarrow> world_ok Q wd'"
    by (rule Write_ok [OF assms(2-4), THEN conjunct1])
  show "Coder_Read Q rd cr r x wd = Ret (err, x', r', wd') \<Longrightarrow> world_ok Q wd'"
    by (rule Read_ok [OF assms])
  show "Coder_Unmarshal Q cr buf x wd = Ret (err, x', wd') \<Longrightarrow> world_ok Q wd'"
    using Read_ok(1) [OF assms, of bytes_read buf] by (auto simp: Unmarshal_Read)
  have "(w_coders wd)(w_next wd := NewCoder) = w_coders wd" using assms(2) by (auto simp: world_ok_def)
  then show "world_ok Q (snd (api_NewCoder wd))" using assms(2) by (simp add: api_NewCoder_def world_ok_def)
qed

text \<open>What the calls leave behind in \<open>demo_program\<close>: filled pools.\<close>

lemma Marshal_leaves:
  assumes "Coder_Marshal Q i cr x wd = Ret (bs, err, wd')"
  shows "w_marshalPool wd' \<noteq> []" "w_encoderPool wd' = w_encoderPool wd" "w_next wd' = w_next wd"
  using assms by (auto simp: Coder_Marshal_def marshal_release_def split: prod.splits)

lemma Write_leaves:
  assumes "Coder_Write Q i W True cr w x wd = Ret (err, w', wd')"
  shows "w_encoderPool wd' \<noteq> []" "w_next wd' = w_next wd"
  using assms
  by (auto simp: Coder_Write_def write_direct_def newEncoder_def encoder_release_def split: prod.splits)

lemma int32_again:
  "c \<in> {NewCoder, int32_coder} \<Longrightarrow>
     getBaseCodec (pr_build demo_program) (pr_platform demo_program) GInt32 c = Ret (CInt32, int32_coder)"
  using int32_request by (auto simp: getBaseCodec_def int32_coder_def as_xCodec_def xCodec_def demo_program_def)

lemma demo_enc:
  "\<exists>e'. enc (pr_depth demo_program) G (encoder_call buffer_ops) CInt32 (VInt32 n) e = Ret (None, e')
     \<and> enc_w e' = enc_w e @ be32 n"
proof -
  have "ucast (scast n :: u64) = n" by (rule bit_word_eqI; simp add: bit_simps)
  then show ?thesis
    by (simp add: demo_program_def intCodec_Encode_def reflected_def EncodeInt_be32 write_to_def buffer_ops_def)
qed

lemma demo_marshal:
  assumes "world_ok demo_program wd" "w_coders wd cr \<in> {NewCoder, int32_coder}"
  obtains wd' where "Coder_Marshal demo_program i cr (Some (GInt32, VInt32 n)) wd = Ret (be32 n, None, wd')"
    "w_coders wd' = (w_coders wd)(cr := int32_coder)"
proof -
  obtain e wr where "enc_w e = []" "Coder_Marshal demo_program i cr (Some (GInt32, VInt32 n)) wd =
      obind (enc (pr_depth demo_program) (in_coder demo_program int32_coder) (encoder_call buffer_ops) CInt32 (VInt32 n) e)
        (\<lambda>(err, e'). Ret (enc_w e', err, wr e'))" "\<And>e'. w_coders (wr e') = (w_coders wd)(cr := int32_coder)"
    by (rule Marshal_runs [OF assms(1) int32_again [OF assms(2)]]) blast
  then show thesis using that demo_enc [of "in_coder demo_program int32_coder" n e] by auto
qed

lemma demo_write:
  assumes "world_ok demo_program wd" "w_coders wd cr \<in> {NewCoder, int32_coder}"
  obtains wd' where "Coder_Write demo_program i buffer_ops True cr w (Some (GInt32, VInt32 n)) wd = Ret (None, w @ be32 n, wd')"
    "w_coders wd' = (w_coders wd)(cr := int32_coder)"
proof -
  obtain e wr where "enc_w e = w" "write_direct demo_program i buffer_ops cr w (Some (GInt32, VInt32 n)) wd =
      obind (enc (pr_depth demo_program) (in_coder demo_program int32_coder) (encoder_call buffer_ops) CInt32 (VInt32 n) e)
        (\<lambda>(err, e'). Ret (err, enc_w e', wr e'))" "\<And>e'. w_coders (wr e') = (w_coders wd)(cr := int32_coder)"
    by (rule write_direct_runs [OF assms(1) int32_again [OF assms(2)]]) blast
  then show thesis using that demo_enc [of "in_coder demo_program int32_coder" n e] by (auto simp: Coder_Write_def)
qed

lemma demo_read:
  assumes "w_coders wd cr = int32_coder"
  obtains wd' where "Coder_Unmarshal demo_program cr (be32 n) (Some (GPtr GInt32, VPtr (Some (VInt32 m)))) wd
      = Ret (None, Some (GPtr GInt32, VPtr (Some (VInt32 n))), wd')"
    "Coder_Read demo_program bytes_read cr (be32 n) (Some (GPtr GInt32, VPtr (Some (VInt32 m)))) wd
      = Ret (None, Some (GPtr GInt32, VPtr (Some (VInt32 n))), [], wd')"
proof -
  obtain d' where d: "decoder_call (2 ^ 63 - 1) bytes_read DecInt (newDecoder cr (be32 n)) = Ret (R32 n, None, d')"
    "dec_r d' = []"
    using decoder_iface.answer_law [OF bytes_reader.decoder_is_iface answers.intros(2), of "newDecoder cr (be32 n)" n "[]"
        "2 ^ 63 - 1"] by (auto simp: newDecoder_def)
  have g: "getCodec 1 (pr_platform demo_program) GInt32 [] int32_coder = Ret (CInt32, int32_coder)"
    by (simp add: int32_coder_def ByteString_def as_xCodec_def xCodec_def demo_program_def)
  let ?D = "decodeValue demo_program bytes_read GInt32 (VInt32 m) (newDecoder cr (be32 n)) (w_coders wd)"
  have "ucast (scast n :: u64) = n" by (rule bit_word_eqI; simp add: bit_simps)
  then have "?D = Ret (None, VInt32 n, d', (w_coders wd)(cr := int32_coder))"
    using d g assms by (simp add: decodeValue_def demo_program_def plain_env_def newDecoder_def intCodec_Decode_def
        dec_set_def reflected_def)
  then show thesis using that d(2)
    by (simp add: Coder_Unmarshal_def Coder_Read_def Decode_def demo_program_def plain_env_def kind_def under_def
        elem_type_def)
qed

theorem pools_stay_consistent_witness:
  "\<exists>wd1 wd2 wd3 wd4 wd5 wd6.
     Coder_Marshal demo_program 0 1 (Some (GInt32, VInt32 7)) initial_world = Ret (be32 7, None, wd1)
   \<and> w_marshalPool wd1 \<noteq> [] \<and> world_ok demo_program wd1
   \<and> Coder_Marshal demo_program 0 2 (Some (GInt32, VInt32 8)) (snd (api_NewCoder wd1)) = Ret (be32 8, None, wd2)
   \<and> world_ok demo_program wd2
   \<and> Coder_Write demo_program 0 buffer_ops True 1 [] (Some (GInt32, VInt32 9)) wd2 = Ret (None, be32 9, wd3)
   \<and> w_encoderPool wd3 \<noteq> [] \<and> world_ok demo_program wd3
   \<and> Coder_Write demo_program 0 buffer_ops True 2 [] (Some (GInt32, VInt32 9)) wd3 = Ret (None, be32 9, wd4)
   \<and> world_ok demo_program wd4
   \<and> Coder_Unmarshal demo_program 1 (be32 9) (Some (GPtr GInt32, VPtr (Some (VInt32 0)))) wd4
       = Ret (None, Some (GPtr GInt32, VPtr (Some (VInt32 9))), wd5) \<and> world_ok demo_program wd5
   \<and> Coder_Read demo_program bytes_read 1 (be32 9) (Some (GPtr GInt32, VPtr (Some (VInt32 0)))) wd4
       = Ret (None, Some (GPtr GInt32, VPtr (Some (VInt32 9))), [], wd6) \<and> world_ok demo_program wd6"
proof -
  note Q = demo_program_ok(1)
  have int: "go_any demo_program (Some (GInt32, VInt32 n))"
    and ptr: "go_any demo_program (Some (GPtr GInt32, VPtr (Some (VInt32 n))))" for n
    by (simp_all add: go_any_def go_type_def demo_program_def)
  note pools = pools_stay_consistent [OF Q]
  have c0: "w_coders initial_world 1 \<in> {NewCoder, int32_coder}" by (simp add: initial_world_def)
  obtain wd1 where m1: "Coder_Marshal demo_program 0 1 (Some (GInt32, VInt32 7)) initial_world = Ret (be32 7, None, wd1)"
    "w_coders wd1 = (w_coders initial_world)(1 := int32_coder)" by (rule demo_marshal [OF demo_program_ok(2) c0])
  note l1 = Marshal_leaves [OF m1(1)]
  have 1: "1 < w_next initial_world" "1 < w_next wd1" "w_next wd1 = 2" using l1(3) by (simp_all add: initial_world_def)
  note ok1 = pools [OF demo_program_ok(2) 1(1) int, THEN conjunct1, THEN mp, OF m1(1)]
  let ?wd = "snd (api_NewCoder wd1)"
  have n: "w_next ?wd = 3" "w_coders ?wd = (w_coders wd1)(2 := NewCoder)" using 1(3) by (simp_all add: api_NewCoder_def)
  note ok = pools [OF ok1 1(2) int, THEN conjunct2, THEN conjunct2, THEN conjunct2, THEN conjunct2]
  have c1: "w_coders ?wd 2 \<in> {NewCoder, int32_coder}" and i: "2 < w_next ?wd" using n by simp_all
  obtain wd2 where m2: "Coder_Marshal demo_program 0 2 (Some (GInt32, VInt32 8)) ?wd = Ret (be32 8, None, wd2)"
    "w_coders wd2 = (w_coders ?wd)(2 := int32_coder)" by (rule demo_marshal [OF ok c1])
  note ok2 = pools [OF ok i int, THEN conjunct1, THEN mp, OF m2(1)] and l2 = Marshal_leaves [OF m2(1)]
  have c2: "w_coders wd2 1 \<in> {NewCoder, int32_coder}" and i2: "1 < w_next wd2" "w_next wd2 = 3"
    using m1(2) m2(2) n l2(3) by simp_all
  obtain wd3 where m3: "Coder_Write demo_program 0 buffer_ops True 1 [] (Some (GInt32, VInt32 9)) wd2 = Ret (None, [] @ be32 9, wd3)"
    "w_coders wd3 = (w_coders wd2)(1 := int32_coder)" by (rule demo_write [OF ok2 c2])
  note ok3 = pools [OF ok2 i2(1) int, THEN conjunct2, THEN conjunct1, THEN mp, OF m3(1)] and l3 = Write_leaves [OF m3(1)]
  have c3: "w_coders wd3 2 \<in> {NewCoder, int32_coder}" and i3: "2 < w_next wd3" "w_next wd3 = 3"
    using m3(2) m2(2) l3(2) i2(2) by simp_all
  obtain wd4 where m4: "Coder_Write demo_program 0 buffer_ops True 2 [] (Some (GInt32, VInt32 9)) wd3 = Ret (None, [] @ be32 9, wd4)"
    "w_coders wd4 = (w_coders wd3)(2 := int32_coder)" by (rule demo_write [OF ok3 c3])
  note ok4 = pools [OF ok3 i3(1) int, THEN conjunct2, THEN conjunct1, THEN mp, OF m4(1)] and l4 = Write_leaves [OF m4(1)]
  have c4: "w_coders wd4 1 = int32_coder" and i4: "1 < w_next wd4" using m4(2) m3(2) l4(2) i3(2) by simp_all
  obtain wd5 where m5: "Coder_Unmarshal demo_program 1 (be32 9) (Some (GPtr GInt32, VPtr (Some (VInt32 0)))) wd4
      = Ret (None, Some (GPtr GInt32, VPtr (Some (VInt32 9))), wd5)"
    "Coder_Read demo_program bytes_read 1 (be32 9) (Some (GPtr GInt32, VPtr (Some (VInt32 0)))) wd4
      = Ret (None, Some (GPtr GInt32, VPtr (Some (VInt32 9))), [], wd5)" by (rule demo_read [OF c4])
  note ok5 = pools [OF ok4 i4 ptr, THEN conjunct2, THEN conjunct2, THEN conjunct1, THEN mp, OF m5(1)]
  show ?thesis using m1(1) l1(1) ok1 m2(1) ok2 m3(1) l3(1) ok3 m4(1) ok4 m5 ok5
    by (intro exI [of _ wd1] exI [of _ wd2] exI [of _ wd3] exI [of _ wd4] exI [of _ wd5]) simp
qed

text \<open>
  C25. \<open>Unmarshal\<close> after \<open>Marshal\<close>: for a value that the codec of its type can transfer, with
  whatever encoders the pools hold, \<open>Marshal\<close> returns bytes and no error, and \<open>Unmarshal\<close>
  of these bytes into a pointer to a value \<open>v0\<close> of the type puts the value there; for all
  bounds on the call depth beyond some \<open>n0\<close>.
\<close>

theorem marshal_unmarshal:
  assumes "world_ok Q wd" and "0 < pr_build Q" and "go_type (p_types (pr_platform Q)) t"
    and "getBaseCodec (pr_build Q) (pr_platform Q) t (w_coders wd cr) = Ret (c, cr1)"
    and "transfers (in_coder Q cr1) c v0 v"
    and "kind (g_types (pr_genv Q)) p = KPtr" and "elem_type (g_types (pr_genv Q)) p = Some t"
  shows "\<exists>n0 bs. \<forall>n\<ge>n0. \<exists>wd1 wd2.
     Coder_Marshal (Q\<lparr>pr_depth := n\<rparr>) i cr (Some (t, v)) wd = Ret (bs, None, wd1)
   \<and> Coder_Unmarshal (Q\<lparr>pr_depth := n\<rparr>) cr bs (Some (p, VPtr (Some v0))) wd1
       = Ret (None, Some (p, VPtr (Some v)), wd2)"
proof -
  obtain n0 bs where enc: "\<And>n e. n0 \<le> n \<Longrightarrow> \<exists>e'. enc n (in_coder Q cr1) (encoder_call buffer_ops) c v e = Ret (None, e')
      \<and> enc_w e' = enc_w e @ bs"
    and dec: "\<And>n d rest. n0 \<le> n \<Longrightarrow> dec_r d = bs @ rest \<Longrightarrow> \<exists>d'. dec n (in_coder Q cr1)
      (decoder_call (g_maxInt (in_coder Q cr1)) bytes_read) c v0 d = Ret (None, v, d') \<and> dec_r d' = rest"
    using codec_round_trip [OF assms(5) byte_buffer.total_writer_axioms bytes_reader.reader_axioms] by blast
  have "\<exists>wd1 wd2. Coder_Marshal (Q\<lparr>pr_depth := n\<rparr>) i cr (Some (t, v)) wd = Ret (bs, None, wd1)
   \<and> Coder_Unmarshal (Q\<lparr>pr_depth := n\<rparr>) cr bs (Some (p, VPtr (Some v0))) wd1
       = Ret (None, Some (p, VPtr (Some v)), wd2)" if n: "n0 \<le> n" for n
  proof -
    let ?Q = "Q\<lparr>pr_depth := n\<rparr>"
    have same: "world_ok ?Q wd" "in_coder ?Q cr1 = in_coder Q cr1"
      using assms(1) by (simp_all add: world_ok_def coders_ok_def in_coder_def)
    have gb: "getBaseCodec (pr_build ?Q) (pr_platform ?Q) t (w_coders wd cr) = Ret (c, cr1)"
      using assms(4) by simp
    obtain e wr where m: "enc_w e = []" "Coder_Marshal ?Q i cr (Some (t, v)) wd =
        obind (enc (pr_depth ?Q) (in_coder ?Q cr1) (encoder_call buffer_ops) c v e) (\<lambda>(err, e').
          Ret (enc_w e', err, wr e'))" "\<And>e'. w_coders (wr e') = (w_coders wd)(cr := cr1)"
      by (rule Marshal_runs [OF same(1) gb]) blast
    obtain e' where e': "enc n (in_coder Q cr1) (encoder_call buffer_ops) c v e = Ret (None, e')" "enc_w e' = bs"
      using enc [OF n, of e] m(1) by auto
    have "reachable (pr_platform Q) (w_coders wd cr)" using assms(1) by (simp add: world_ok_def coders_ok_def)
    note b = base_request [OF assms(4) this assms(3)]
    have g: "getCodec (pr_build Q) (pr_platform Q) t [] cr1 = Ret (c, cr1)"
      using base_answer_get [OF b(4)] assms(2) by (cases "pr_build Q") auto
    obtain d' where "dec n (in_coder Q cr1) (decoder_call (g_maxInt (pr_genv Q)) bytes_read) c v0
        (newDecoder cr bs) = Ret (None, v, d')"
      using dec [OF n, of "newDecoder cr bs" "[]"] by (auto simp: newDecoder_def in_coder_def)
    then have "Coder_Unmarshal ?Q cr bs (Some (p, VPtr (Some v0))) (wr e')
        = Ret (None, Some (p, VPtr (Some v)), (wr e')\<lparr>w_coders := (w_coders wd)(cr := cr1)\<rparr>)"
      using assms(6,7) g m(3) by (simp add: Coder_Unmarshal_def Decode_def decodeValue_def newDecoder_def same(2))
    then show ?thesis using m(2) e' by (auto simp: same(2))
  qed
  then show ?thesis by blast
qed

theorem marshal_unmarshal_witness:
  "\<exists>n0 bs. \<forall>n\<ge>n0. \<exists>wd1 wd2.
     Coder_Marshal (demo_program\<lparr>pr_depth := n\<rparr>) 0 1 (Some (GInt32, VInt32 7)) initial_world = Ret (bs, None, wd1)
   \<and> Coder_Unmarshal (demo_program\<lparr>pr_depth := n\<rparr>) 1 bs (Some (GPtr GInt32, VPtr (Some (VInt32 0)))) wd1
       = Ret (None, Some (GPtr GInt32, VPtr (Some (VInt32 7))), wd2)"
proof (rule marshal_unmarshal [OF demo_program_ok(2), where c = CInt32 and ?cr1.0 = int32_coder])
  show "getBaseCodec (pr_build demo_program) (pr_platform demo_program) GInt32 (w_coders initial_world 1)
     = Ret (CInt32, int32_coder)" using int32_request by (simp add: initial_world_def)
  show "transfers (in_coder demo_program int32_coder) CInt32 (VInt32 0) (VInt32 7)" by (rule transfers.intros)
qed (simp_all add: demo_program_def plain_env_def go_type_def kind_def under_def elem_type_def)

context writer
begin

text \<open>What \<open>Write\<close> does once the encoder of its buffer is done.\<close>

lemma buffered_finish:
  assumes "enc n G (encoder_call (bufio_ops W)) c v e = Ret (err1, e1)" "enc_w e = bufio_Reset w"
    and "accepted (enc_w e1) = written w @ q"
    and "(if err1 = None then bufio_Flush W (enc_w e1) else (err1, enc_w e1)) = (err2, b)"
  shows "\<exists>q'. written (bw_w b) = written w @ q' \<and> prefix q' q \<and> (err2 = None \<longrightarrow> err1 = None \<and> q' = q)"
proof -
  have "forward (enc_w e) (enc_w e1)" using buffered_forward [OF assms(1)] by (simp add: forward_def)
  moreover have "forward (enc_w e1) b"
    using assms(4) flush_forward [of "enc_w e1"] forward_refl by (auto split: if_splits)
  ultimately have "forward (enc_w e) b" by (rule forward_trans)
  then obtain q' where q': "written (bw_w b) = written w @ q'"
    by (auto simp: forward_def assms(2) bufio_Reset_def prefix_def)
  have acc: "accepted b = written w @ q"
    using assms(3,4) flush_accepted [of "enc_w e1"] by (auto split: if_splits)
  then have "prefix q' q" using q' by (auto simp: accepted_def prefix_def)
  moreover have "err1 = None \<and> q' = q" if "err2 = None"
  proof -
    from that assms(4) have "err1 = None" "bufio_Flush W (enc_w e1) = (None, b)" by (auto split: if_splits)
    with flush_success [of "enc_w e1" b] assms(3) q' show ?thesis by simp
  qed
  ultimately show ?thesis using q' by blast
qed

end

text \<open>
  C26. \<open>Write\<close> to any lawful writer, buffered by the package or not, puts out a prefix of
  what \<open>Marshal\<close> returns for the value, and reports success only if it has put out all of
  it and \<open>Marshal\<close> succeeds; the coder learns the same codecs. (Marshaling code has to pass
  errors on.)
\<close>

theorem write_matches_marshal:
  assumes "writer W written" and "honest_env (pr_genv Q)" and "world_ok Q wd"
    and "Coder_Marshal Q i cr (Some (t, v)) wd = Ret (bs, err, wd1)"
  shows "\<exists>err' w' wd2 q. Coder_Write Q j W direct cr w (Some (t, v)) wd = Ret (err', w', wd2)
     \<and> written w' = written w @ q \<and> prefix q bs \<and> (err' = None \<longrightarrow> err = None \<and> q = bs)
     \<and> w_coders wd2 = w_coders wd1"
proof -
  obtain c cr1 where gb: "getBaseCodec (pr_build Q) (pr_platform Q) t (w_coders wd cr) = Ret (c, cr1)"
    using marshal_asks [OF assms(3,4)] by blast
  let ?G = "in_coder Q cr1"
  have G: "honest_env ?G" using assms(2) by (simp add: honest_env_def in_coder_def)
  obtain b wr where "enc_w b = []" "Coder_Marshal Q i cr (Some (t, v)) wd =
      obind (enc (pr_depth Q) ?G (encoder_call buffer_ops) c v b) (\<lambda>(err, e'). Ret (enc_w e', err, wr e'))"
    "\<And>e'. w_coders (wr e') = (w_coders wd)(cr := cr1)" by (rule Marshal_runs [OF assms(3) gb]) blast
  with assms(4) obtain b' where b: "enc_w b = []" "bs = enc_w b'" "w_coders wd1 = (w_coders wd)(cr := cr1)"
    "enc (pr_depth Q) ?G (encoder_call buffer_ops) c v b = Ret (err, b')" by auto
  show ?thesis
  proof (cases direct)
    case True
    obtain e wr where e: "enc_w e = w" "write_direct Q j W cr w (Some (t, v)) wd =
        obind (enc (pr_depth Q) ?G (encoder_call W) c v e) (\<lambda>(err, e'). Ret (err, enc_w e', wr e'))"
      "\<And>e'. w_coders (wr e') = (w_coders wd)(cr := cr1)" by (rule write_direct_runs [OF assms(3) gb]) blast
    obtain err' e' q where "enc (pr_depth Q) ?G (encoder_call W) c v e = Ret (err', e')"
      "written (enc_w e') = written w @ q" "prefix q bs" "err' = None \<longrightarrow> err = None \<and> q = bs"
      using codec_gets_prefix [OF assms(1) G b(4,1), of e] e(1) b(2) by auto
    then show ?thesis using True e b(3) by (simp add: Coder_Write_def)
  next
    case False
    note bw = writer.buffered [OF assms(1)]
    obtain e wr where e: "enc_w e = bufio_Reset w" "write_direct Q j (bufio_ops W) cr (bufio_Reset w) (Some (t, v)) wd =
        obind (enc (pr_depth Q) ?G (encoder_call (bufio_ops W)) c v e) (\<lambda>(err, e'). Ret (err, enc_w e', wr e'))"
      "\<And>e'. w_coders (wr e') = (w_coders wd)(cr := cr1)" by (rule write_direct_runs [OF assms(3) gb]) blast
    obtain err1 e1 q where r: "enc (pr_depth Q) ?G (encoder_call (bufio_ops W)) c v e = Ret (err1, e1)"
      "writer.accepted written (enc_w e1) = written w @ q" "prefix q bs" "err1 = None \<longrightarrow> err = None \<and> q = bs"
      using codec_gets_prefix [OF bw G b(4,1), of e] e(1) b(2)
      by (auto simp: writer.accepted_def [OF assms(1)] bufio_Reset_def)
    obtain err2 bw where f: "(if err1 = None then bufio_Flush W (enc_w e1) else (err1, enc_w e1)) = (err2, bw)"
      by (cases "if err1 = None then bufio_Flush W (enc_w e1) else (err1, enc_w e1)")
    from writer.buffered_finish [OF assms(1) r(1) e(1) r(2) f] obtain q' where
      "written (bw_w bw) = written w @ q'" "prefix q' q" "err2 = None \<longrightarrow> err1 = None \<and> q' = q" by blast
    moreover have "Coder_Write Q j W direct cr w (Some (t, v)) wd = Ret (err2, bw_w bw, wr e1)"
      using False e(2) r(1) f by (simp add: Coder_Write_def)
    ultimately show ?thesis using r(3,4) e(3) b(3) by (auto intro: prefix_order.trans)
  qed
qed

theorem write_matches_marshal_witness:
  "\<exists>err' w' wd2 q. Coder_Write demo_program 0 bounded_ops False 1 ([], 3) (Some (GInt32, VInt32 7)) initial_world
      = Ret (err', w', wd2) \<and> fst w' = q \<and> prefix q (be32 7) \<and> (err' = None \<longrightarrow> q = be32 7)"
proof -
  have gb: "getBaseCodec (pr_build demo_program) (pr_platform demo_program) GInt32 (w_coders initial_world 1)
     = Ret (CInt32, int32_coder)" using int32_request by (simp add: initial_world_def)
  obtain e wr where "enc_w e = []" "Coder_Marshal demo_program 0 1 (Some (GInt32, VInt32 7)) initial_world =
      obind (enc (pr_depth demo_program) (in_coder demo_program int32_coder) (encoder_call buffer_ops) CInt32 (VInt32 7) e)
        (\<lambda>(err, e'). Ret (enc_w e', err, wr e'))"
    by (rule Marshal_runs [OF demo_program_ok(2) gb]) blast
  then have "\<exists>wd1. Coder_Marshal demo_program 0 1 (Some (GInt32, VInt32 7)) initial_world = Ret (be32 7, None, wd1)"
    by (auto simp: demo_program_def intCodec_Encode_def reflected_def EncodeInt_be32 write_to_def buffer_ops_def)
  then obtain wd1 where m: "Coder_Marshal demo_program 0 1 (Some (GInt32, VInt32 7)) initial_world = Ret (be32 7, None, wd1)"
    by blast
  have h: "honest_env (pr_genv demo_program)" by (simp add: demo_program_def honest_env_def plain_env_def)
  from write_matches_marshal [OF bounded.writer_axioms h demo_program_ok(2) m, of 0 False "([], 3)"]
  show ?thesis by auto
qed

text \<open>
  C27. What \<open>Read\<close> and \<open>Unmarshal\<close> do with a target they cannot fill: for a value that is
  not a pointer they report \<open>ErrNotPointer\<close>, read nothing and learn nothing; for a nil
  pointer or a nil interface they panic.
\<close>

theorem target_must_be_pointer:
  assumes "kind (g_types (pr_genv Q)) t \<noteq> KPtr" and "kind (g_types (pr_genv Q)) p = KPtr"
  shows "Coder_Read Q rd cr r (Some (t, v)) wd = Ret (Some ErrNotPointer, Some (t, v), r, wd)
    \<and> Coder_Unmarshal Q cr buf (Some (t, v)) wd = Ret (Some ErrNotPointer, Some (t, v), wd)
    \<and> (\<exists>msg. Coder_Read Q rd cr r (Some (p, VPtr None)) wd = Panic msg)
    \<and> (\<exists>msg. Coder_Unmarshal Q cr buf None wd = Panic msg)"
  using assms by (simp add: Coder_Read_def Coder_Unmarshal_def Decode_def newDecoder_def split: option.split)

theorem target_must_be_pointer_witness:
  "Coder_Unmarshal demo_program 1 [0, 0, 0, 7] (Some (GInt32, VInt32 0)) initial_world
     = Ret (Some ErrNotPointer, Some (GInt32, VInt32 0), initial_world)"
  using target_must_be_pointer [of demo_program GInt32 "GPtr GInt32" bytes_read 1 "[]" "VInt32 0" initial_world "[0, 0, 0, 7]"]
  by (simp add: demo_program_def kind_def under_def)

end
