(* ===== verification/Memory.thy ===== *)
theory Memory
  imports TypeSafe
begin

text \<open>
  Raw memory as the codecs of the default build see it through \<open>unsafe.Pointer\<close>, and the
  relation \<open>repr\<close> between the block of a variable and the value in it. A scalar lives in
  the cell of its first byte; a string is a data pointer and a length, a slice a data
  pointer, a length and a capacity, each one word; a pointer is an address, with 0 for
  nil. The content of a map and of an interface is not addressable: their first word is a
  handle to a value.
\<close>

section \<open>Cells and blocks\<close>

record memory =
  m_cell :: "nat \<Rightarrow> nat"
  m_next :: nat
  m_obj :: "nat \<Rightarrow> gvalue"

definition st :: "nat \<Rightarrow> nat \<Rightarrow> memory \<Rightarrow> memory" where
  "st p x M = M\<lparr>m_cell := (m_cell M)(p := x)\<rparr>"

definition ld :: "memory \<Rightarrow> nat \<Rightarrow> 'a::len word" where
  "ld M p = word_of_nat (m_cell M p)"

definition st_word :: "nat \<Rightarrow> 'a::len word \<Rightarrow> memory \<Rightarrow> memory" where
  "st_word p x M = st p (unat x) M"

text \<open>\<open>new\<close>: a zeroed block; blocks are never at address 0 and never empty.\<close>

definition alloc :: "nat \<Rightarrow> memory \<Rightarrow> nat \<times> memory" where
  "alloc sz M = (m_next M, M\<lparr>m_next := m_next M + max 1 sz,
     m_cell := \<lambda>a. if m_next M \<le> a \<and> a < m_next M + sz then 0 else m_cell M a\<rparr>)"

definition alloc_obj :: "gvalue \<Rightarrow> memory \<Rightarrow> nat \<times> memory" where
  "alloc_obj v M = (m_next M, M\<lparr>m_next := Suc (m_next M), m_obj := (m_obj M)(m_next M := v)\<rparr>)"

definition bytes_at :: "memory \<Rightarrow> nat \<Rightarrow> nat \<Rightarrow> u8 list" where
  "bytes_at M p n = map (\<lambda>i. ld M (p + i)) [0..<n]"

definition st_bytes :: "nat \<Rightarrow> u8 list \<Rightarrow> memory \<Rightarrow> memory" where
  "st_bytes p bs M = M\<lparr>m_cell := \<lambda>a. if p \<le> a \<and> a < p + length bs then unat (bs ! (a - p)) else m_cell M a\<rparr>"

definition alloc_bytes :: "u8 list \<Rightarrow> memory \<Rightarrow> nat \<times> memory" where
  "alloc_bytes bs M = (case alloc (length bs) M of (q, M') \<Rightarrow> (q, st_bytes q bs M'))"

text \<open>\<open>*(*string)(p)\<close> and \<open>*(*[]byte)(p)\<close>; \<open>w\<close> is the size of a word.\<close>

definition ld_string :: "nat \<Rightarrow> memory \<Rightarrow> nat \<Rightarrow> u8 list" where
  "ld_string w M p = bytes_at M (m_cell M p) (m_cell M (p + w))"

definition st_string :: "nat \<Rightarrow> nat \<Rightarrow> u8 list \<Rightarrow> memory \<Rightarrow> memory" where
  "st_string w p s M = (case alloc_bytes s M of (q, M') \<Rightarrow> st (p + w) (length s) (st p q M'))"

definition st_header :: "nat \<Rightarrow> nat \<Rightarrow> nat \<Rightarrow> nat \<Rightarrow> memory \<Rightarrow> memory" where
  "st_header w p q l M = st (p + 2 * w) l (st (p + w) l (st p q M))"

definition st_byte_slice :: "nat \<Rightarrow> nat \<Rightarrow> u8 list \<Rightarrow> memory \<Rightarrow> memory" where
  "st_byte_slice w p s M = (if s = [] then st_header w p 0 0 M
     else (case alloc_bytes s M of (q, M') \<Rightarrow> st_header w p q (length s) M'))"

text \<open>
  A variable of a scalar, string, map or interface type as \<open>reflect\<close> reads and writes it.
\<close>

definition load :: "genv \<Rightarrow> memory \<Rightarrow> gtype \<Rightarrow> nat \<Rightarrow> gvalue" where
  "load G M t p = (case kind (g_types G) t of
      KBool \<Rightarrow> VBool (m_cell M p \<noteq> 0)
    | KInt8 \<Rightarrow> VInt8 (ld M p) | KInt16 \<Rightarrow> VInt16 (ld M p) | KInt32 \<Rightarrow> VInt32 (ld M p) | KInt64 \<Rightarrow> VInt64 (ld M p)
    | KUint8 \<Rightarrow> VUint8 (ld M p) | KUint16 \<Rightarrow> VUint16 (ld M p) | KUint32 \<Rightarrow> VUint32 (ld M p)
    | KUint64 \<Rightarrow> VUint64 (ld M p) | KFloat32 \<Rightarrow> VFloat32 (ld M p) | KFloat64 \<Rightarrow> VFloat64 (ld M p)
    | KComplex64 \<Rightarrow> VComplex64 (ld M p) (ld M (p + 4)) | KComplex128 \<Rightarrow> VComplex128 (ld M p) (ld M (p + 8))
    | KString \<Rightarrow> VString (ld_string (g_word G) M p)
    | KMap \<Rightarrow> (if m_cell M p = 0 then VMap None else m_obj M (m_cell M p))
    | KInterface \<Rightarrow> (if m_cell M p = 0 then VIface None else m_obj M (m_cell M p))
    | _ \<Rightarrow> VOther)"

fun store :: "genv \<Rightarrow> nat \<Rightarrow> gvalue \<Rightarrow> memory \<Rightarrow> memory" where
  "store G p (VBool b) M = st p (if b then 1 else 0) M"
| "store G p (VInt8 x) M = st_word p x M" | "store G p (VInt16 x) M = st_word p x M"
| "store G p (VInt32 x) M = st_word p x M" | "store G p (VInt64 x) M = st_word p x M"
| "store G p (VUint8 x) M = st_word p x M" | "store G p (VUint16 x) M = st_word p x M"
| "store G p (VUint32 x) M = st_word p x M" | "store G p (VUint64 x) M = st_word p x M"
| "store G p (VFloat32 x) M = st_word p x M" | "store G p (VFloat64 x) M = st_word p x M"
| "store G p (VComplex64 x y) M = st_word (p + 4) y (st_word p x M)"
| "store G p (VComplex128 x y) M = st_word (p + 8) y (st_word p x M)"
| "store G p (VString s) M = st_string (g_word G) p s M"
| "store G p (VMap None) M = st p 0 M" | "store G p (VIface None) M = st p 0 M"
| "store G p v M = (case alloc_obj v M of (h, M') \<Rightarrow> st p h M')"

section \<open>What a block represents\<close>

text \<open>
  \<open>repr fl G M Z t p v\<close>: the block of type \<open>t\<close> at \<open>p\<close> holds the value \<open>v\<close>; everything its
  pointers lead to lies in the set \<open>Z\<close> of addresses. Floats agree up to \<open>fl\<close>, which
  relates the bits in memory to those of the value.
\<close>

definition block :: "genv \<Rightarrow> gtype \<Rightarrow> nat \<Rightarrow> nat set" where
  "block G t p = {p..<p + size_of (g_word G) (g_types G) t}"

inductive repr :: "(u32 \<Rightarrow> u32 \<Rightarrow> bool) \<Rightarrow> genv \<Rightarrow> memory \<Rightarrow> nat set \<Rightarrow> gtype \<Rightarrow> nat \<Rightarrow> gvalue \<Rightarrow> bool"
  for fl :: "u32 \<Rightarrow> u32 \<Rightarrow> bool" and G :: genv and M :: memory and Z :: "nat set" where
  r_bool: "kind (g_types G) t = KBool \<Longrightarrow> m_cell M p = (if b then 1 else 0) \<Longrightarrow> repr fl G M Z t p (VBool b)"
| r_int8: "kind (g_types G) t = KInt8 \<Longrightarrow> m_cell M p = unat x8 \<Longrightarrow> repr fl G M Z t p (VInt8 x8)"
| r_int16: "kind (g_types G) t = KInt16 \<Longrightarrow> m_cell M p = unat x16 \<Longrightarrow> repr fl G M Z t p (VInt16 x16)"
| r_int32: "kind (g_types G) t = KInt32 \<Longrightarrow> m_cell M p = unat x32 \<Longrightarrow> repr fl G M Z t p (VInt32 x32)"
| r_int64: "kind (g_types G) t = KInt64 \<Longrightarrow> m_cell M p = unat x64 \<Longrightarrow> repr fl G M Z t p (VInt64 x64)"
| r_uint8: "kind (g_types G) t = KUint8 \<Longrightarrow> m_cell M p = unat x8 \<Longrightarrow> repr fl G M Z t p (VUint8 x8)"
| r_uint16: "kind (g_types G) t = KUint16 \<Longrightarrow> m_cell M p = unat x16 \<Longrightarrow> repr fl G M Z t p (VUint16 x16)"
| r_uint32: "kind (g_types G) t = KUint32 \<Longrightarrow> m_cell M p = unat x32 \<Longrightarrow> repr fl G M Z t p (VUint32 x32)"
| r_uint64: "kind (g_types G) t = KUint64 \<Longrightarrow> m_cell M p = unat x64 \<Longrightarrow> repr fl G M Z t p (VUint64 x64)"
| r_float: "kind (g_types G) t = KFloat32 \<Longrightarrow> m_cell M p = unat b32 \<Longrightarrow> fl b32 x32 \<Longrightarrow> repr fl G M Z t p (VFloat32 x32)"
| r_double: "kind (g_types G) t = KFloat64 \<Longrightarrow> m_cell M p = unat x64 \<Longrightarrow> repr fl G M Z t p (VFloat64 x64)"
| r_complex64: "kind (g_types G) t = KComplex64 \<Longrightarrow> m_cell M p = unat b32 \<Longrightarrow> fl b32 x32 \<Longrightarrow>
    m_cell M (p + 4) = unat c32 \<Longrightarrow> fl c32 y32 \<Longrightarrow> repr fl G M Z t p (VComplex64 x32 y32)"
| r_complex128: "kind (g_types G) t = KComplex128 \<Longrightarrow> m_cell M p = unat x64 \<Longrightarrow> m_cell M (p + 8) = unat y64 \<Longrightarrow>
    repr fl G M Z t p (VComplex128 x64 y64)"
| r_string: "kind (g_types G) t = KString \<Longrightarrow> m_cell M p = q \<Longrightarrow> m_cell M (p + g_word G) = length s \<Longrightarrow>
    {q..<q + length s} \<subseteq> Z \<Longrightarrow> \<forall>i<length s. m_cell M (q + i) = unat (s ! i) \<Longrightarrow> repr fl G M Z t p (VString s)"
| r_nil_ptr: "kind (g_types G) t = KPtr \<Longrightarrow> m_cell M p = 0 \<Longrightarrow> repr fl G M Z t p (VPtr None)"
| r_ptr: "kind (g_types G) t = KPtr \<Longrightarrow> elem_type (g_types G) t = Some e \<Longrightarrow> m_cell M p = q \<Longrightarrow> q \<noteq> 0 \<Longrightarrow>
    block G e q \<subseteq> Z \<Longrightarrow> repr fl G M Z e q x \<Longrightarrow> repr fl G M Z t p (VPtr (Some x))"
| r_nil_slice: "kind (g_types G) t = KSlice \<Longrightarrow> m_cell M p = 0 \<Longrightarrow> m_cell M (p + g_word G) = 0 \<Longrightarrow>
    repr fl G M Z t p (VSlice None)"
| r_slice: "kind (g_types G) t = KSlice \<Longrightarrow> elem_type (g_types G) t = Some e \<Longrightarrow> m_cell M p = q \<Longrightarrow> q \<noteq> 0 \<Longrightarrow>
    m_cell M (p + g_word G) = length vs \<Longrightarrow> sz = size_of (g_word G) (g_types G) e \<Longrightarrow>
    {q..<q + length vs * sz} \<subseteq> Z \<Longrightarrow> \<forall>i<length vs. repr fl G M Z e (q + i * sz) (vs ! i) \<Longrightarrow>
    repr fl G M Z t p (VSlice (Some vs))"
| r_array: "kind (g_types G) t = KArray \<Longrightarrow> elem_type (g_types G) t = Some e \<Longrightarrow>
    array_len (g_types G) t = Some (length vs) \<Longrightarrow> sz = size_of (g_word G) (g_types G) e \<Longrightarrow>
    \<forall>i<length vs. repr fl G M Z e (p + i * sz) (vs ! i) \<Longrightarrow> repr fl G M Z t p (VArray vs)"
| r_struct: "struct_fields (g_types G) t = Some fs \<Longrightarrow> length vs = length fs \<Longrightarrow>
    \<forall>i<length fs. repr fl G M Z (fld_type (fs ! i)) (p + field_offset (g_word G) (g_types G) t i) (vs ! i) \<Longrightarrow>
    repr fl G M Z t p (VStruct vs)"
| r_nil_map: "kind (g_types G) t = KMap \<Longrightarrow> m_cell M p = 0 \<Longrightarrow> repr fl G M Z t p (VMap None)"
| r_map: "kind (g_types G) t = KMap \<Longrightarrow> m_cell M p = h \<Longrightarrow> h \<noteq> 0 \<Longrightarrow> h \<in> Z \<Longrightarrow> m_obj M h = VMap (Some kvs) \<Longrightarrow>
    of_type (g_types G) t (VMap (Some kvs)) \<Longrightarrow> repr fl G M Z t p (VMap (Some kvs))"
| r_nil_iface: "kind (g_types G) t = KInterface \<Longrightarrow> m_cell M p = 0 \<Longrightarrow> repr fl G M Z t p (VIface None)"
| r_iface: "kind (g_types G) t = KInterface \<Longrightarrow> m_cell M p = h \<Longrightarrow> h \<noteq> 0 \<Longrightarrow> h \<in> Z \<Longrightarrow> m_obj M h = VIface (Some x) \<Longrightarrow>
    of_type (g_types G) t (VIface (Some x)) \<Longrightarrow> repr fl G M Z t p (VIface (Some x))"
| r_other: "kind (g_types G) t \<in> {KInt, KUint, KUintptr, KChan, KFunc, KUnsafePointer} \<Longrightarrow> repr fl G M Z t p VOther"

lemma repr_of_type: "repr fl G M Z t p v \<Longrightarrow> of_type (g_types G) t v"
proof (induction rule: repr.induct)
  case (r_slice t e p q vs sz)
  then show ?case by (intro ot_slice) (auto simp: in_set_conv_nth)
next
  case (r_array t e vs sz p)
  then show ?case by (intro ot_array) (auto simp: in_set_conv_nth)
qed (auto intro: of_type.intros)

section \<open>Representation by kind\<close>

lemma repr_kind:
  "kind (g_types G) t = KBool \<Longrightarrow> repr fl G M Z t p v \<longleftrightarrow> (\<exists>b. v = VBool b \<and> m_cell M p = (if b then 1 else 0))"
  "kind (g_types G) t = KInt8 \<Longrightarrow> repr fl G M Z t p v \<longleftrightarrow> (\<exists>x. v = VInt8 x \<and> m_cell M p = unat x)"
  "kind (g_types G) t = KInt16 \<Longrightarrow> repr fl G M Z t p v \<longleftrightarrow> (\<exists>x. v = VInt16 x \<and> m_cell M p = unat x)"
  "kind (g_types G) t = KInt32 \<Longrightarrow> repr fl G M Z t p v \<longleftrightarrow> (\<exists>x. v = VInt32 x \<and> m_cell M p = unat x)"
  "kind (g_types G) t = KInt64 \<Longrightarrow> repr fl G M Z t p v \<longleftrightarrow> (\<exists>x. v = VInt64 x \<and> m_cell M p = unat x)"
  "kind (g_types G) t = KUint8 \<Longrightarrow> repr fl G M Z t p v \<longleftrightarrow> (\<exists>x. v = VUint8 x \<and> m_cell M p = unat x)"
  "kind (g_types G) t = KUint16 \<Longrightarrow> repr fl G M Z t p v \<longleftrightarrow> (\<exists>x. v = VUint16 x \<and> m_cell M p = unat x)"
  "kind (g_types G) t = KUint32 \<Longrightarrow> repr fl G M Z t p v \<longleftrightarrow> (\<exists>x. v = VUint32 x \<and> m_cell M p = unat x)"
  "kind (g_types G) t = KUint64 \<Longrightarrow> repr fl G M Z t p v \<longleftrightarrow> (\<exists>x. v = VUint64 x \<and> m_cell M p = unat x)"
  "kind (g_types G) t = KFloat32 \<Longrightarrow> repr fl G M Z t p v \<longleftrightarrow>
     (\<exists>x y. v = VFloat32 y \<and> m_cell M p = unat x \<and> fl x y)"
  "kind (g_types G) t = KFloat64 \<Longrightarrow> repr fl G M Z t p v \<longleftrightarrow> (\<exists>x. v = VFloat64 x \<and> m_cell M p = unat x)"
  "kind (g_types G) t = KComplex64 \<Longrightarrow> repr fl G M Z t p v \<longleftrightarrow> (\<exists>a b x y. v = VComplex64 a b
     \<and> m_cell M p = unat x \<and> fl x a \<and> m_cell M (p + 4) = unat y \<and> fl y b)"
  "kind (g_types G) t = KComplex128 \<Longrightarrow> repr fl G M Z t p v \<longleftrightarrow> (\<exists>x y. v = VComplex128 x y
     \<and> m_cell M p = unat x \<and> m_cell M (p + 8) = unat y)"
  "kind (g_types G) t = KString \<Longrightarrow> repr fl G M Z t p v \<longleftrightarrow> (\<exists>s. v = VString s
     \<and> m_cell M (p + g_word G) = length s \<and> {m_cell M p..<m_cell M p + length s} \<subseteq> Z
     \<and> (\<forall>i<length s. m_cell M (m_cell M p + i) = unat (s ! i)))"
  "kind (g_types G) t = KPtr \<Longrightarrow> elem_type (g_types G) t = Some e \<Longrightarrow> repr fl G M Z t p v \<longleftrightarrow>
     v = VPtr None \<and> m_cell M p = 0 \<or> (\<exists>x. v = VPtr (Some x) \<and> m_cell M p \<noteq> 0
       \<and> block G e (m_cell M p) \<subseteq> Z \<and> repr fl G M Z e (m_cell M p) x)"
  "kind (g_types G) t = KSlice \<Longrightarrow> elem_type (g_types G) t = Some e \<Longrightarrow> sz = size_of (g_word G) (g_types G) e \<Longrightarrow>
     repr fl G M Z t p v \<longleftrightarrow> v = VSlice None \<and> m_cell M p = 0 \<and> m_cell M (p + g_word G) = 0
     \<or> (\<exists>vs. v = VSlice (Some vs) \<and> m_cell M p \<noteq> 0 \<and> m_cell M (p + g_word G) = length vs
       \<and> {m_cell M p..<m_cell M p + length vs * sz} \<subseteq> Z
       \<and> (\<forall>i<length vs. repr fl G M Z e (m_cell M p + i * sz) (vs ! i)))"
  "kind (g_types G) t = KArray \<Longrightarrow> elem_type (g_types G) t = Some e \<Longrightarrow> array_len (g_types G) t = Some n \<Longrightarrow>
     sz = size_of (g_word G) (g_types G) e \<Longrightarrow> repr fl G M Z t p v \<longleftrightarrow>
     (\<exists>vs. v = VArray vs \<and> length vs = n \<and> (\<forall>i<n. repr fl G M Z e (p + i * sz) (vs ! i)))"
  "struct_fields (g_types G) t = Some fs \<Longrightarrow> repr fl G M Z t p v \<longleftrightarrow> (\<exists>vs. v = VStruct vs \<and> length vs = length fs
     \<and> (\<forall>i<length fs. repr fl G M Z (fld_type (fs ! i)) (p + field_offset (g_word G) (g_types G) t i) (vs ! i)))"
  "kind (g_types G) t = KMap \<Longrightarrow> repr fl G M Z t p v \<longleftrightarrow> v = VMap None \<and> m_cell M p = 0
     \<or> (\<exists>kvs. v = VMap (Some kvs) \<and> m_cell M p \<noteq> 0 \<and> m_cell M p \<in> Z \<and> m_obj M (m_cell M p) = v \<and> of_type (g_types G) t v)"
  "kind (g_types G) t = KInterface \<Longrightarrow> repr fl G M Z t p v \<longleftrightarrow> v = VIface None \<and> m_cell M p = 0
     \<or> (\<exists>x. v = VIface (Some x) \<and> m_cell M p \<noteq> 0 \<and> m_cell M p \<in> Z \<and> m_obj M (m_cell M p) = v \<and> of_type (g_types G) t v)"
  subgoal by (rule iffI, (erule repr.cases; auto dest: struct_kind), auto intro: r_bool)
  subgoal by (rule iffI, (erule repr.cases; auto dest: struct_kind), auto intro: r_int8)
  subgoal by (rule iffI, (erule repr.cases; auto dest: struct_kind), auto intro: r_int16)
  subgoal by (rule iffI, (erule repr.cases; auto dest: struct_kind), auto intro: r_int32)
  subgoal by (rule iffI, (erule repr.cases; auto dest: struct_kind), auto intro: r_int64)
  subgoal by (rule iffI, (erule repr.cases; auto dest: struct_kind), auto intro: r_uint8)
  subgoal by (rule iffI, (erule repr.cases; auto dest: struct_kind), auto intro: r_uint16)
  subgoal by (rule iffI, (erule repr.cases; auto dest: struct_kind), auto intro: r_uint32)
  subgoal by (rule iffI, (erule repr.cases; auto dest: struct_kind), auto intro: r_uint64)
  subgoal by (rule iffI, (erule repr.cases; auto dest: struct_kind), auto intro: r_float)
  subgoal by (rule iffI, (erule repr.cases; auto dest: struct_kind), auto intro: r_double)
  subgoal by (rule iffI, (erule repr.cases; auto dest: struct_kind), auto intro: r_complex64)
  subgoal by (rule iffI, (erule repr.cases; auto dest: struct_kind), auto intro: r_complex128)
  subgoal by (rule iffI, (erule repr.cases; auto dest: struct_kind), auto intro: r_string)
  subgoal by (rule iffI, (erule repr.cases; auto dest: struct_kind), auto intro: r_nil_ptr r_ptr)
  subgoal by (rule iffI, (erule repr.cases; auto dest: struct_kind), auto intro: r_nil_slice r_slice)
  subgoal by (rule iffI, (erule repr.cases; auto dest: struct_kind), auto intro: r_array)
  subgoal by (frule struct_kind, rule iffI, (erule repr.cases; auto dest: struct_kind), auto intro: r_struct)
  subgoal by (rule iffI, (erule repr.cases; auto dest: struct_kind), auto intro: r_nil_map r_map)
  subgoal by (rule iffI, (erule repr.cases; auto dest: struct_kind), auto intro: r_nil_iface r_iface)
  done

section \<open>Blocks\<close>

lemma g_word_pos [simp]: "0 < g_word G"
  by (simp add: word_bytes_def)

lemma block_cells:
  assumes "go_env (g_types G)" "go_type (g_types G) t"
  shows "kind (g_types G) t \<in> {KBool, KInt8, KInt16, KInt32, KInt64, KUint8, KUint16, KUint32, KUint64,
      KFloat32, KFloat64, KComplex64, KComplex128, KString, KPtr, KSlice, KMap, KInterface} \<Longrightarrow> p \<in> block G t p"
    and "kind (g_types G) t = KComplex64 \<Longrightarrow> p + 4 \<in> block G t p"
    and "kind (g_types G) t = KComplex128 \<Longrightarrow> p + 8 \<in> block G t p"
    and "kind (g_types G) t \<in> {KString, KSlice} \<Longrightarrow> p + g_word G \<in> block G t p"
    and "kind (g_types G) t = KSlice \<Longrightarrow> p + 2 * g_word G \<in> block G t p"
  using size_of_kind [OF go_solid [OF assms], of "g_word G"] g_word_pos [of G] by (auto simp: block_def)

lemma block_part:
  assumes "o1 + size_of (g_word G) (g_types G) e \<le> size_of (g_word G) (g_types G) t"
  shows "block G e (p + o1) \<subseteq> block G t p"
  using assms by (auto simp: block_def)

lemma block_field:
  assumes "go_env (g_types G)" "go_type (g_types G) t" "struct_fields (g_types G) t = Some fs" "i < length fs"
  shows "block G (fld_type (fs ! i)) (p + field_offset (g_word G) (g_types G) t i) \<subseteq> block G t p"
  by (rule block_part) (rule field_block [OF g_word_pos go_solid [OF assms(1,2)] assms(3,4)])

lemma block_elem:
  assumes "i < n" "sz = size_of (g_word G) (g_types G) e"
  shows "block G e (q + i * sz) \<subseteq> {q..<q + n * sz}"
proof -
  have "Suc i * sz \<le> n * sz" using assms(1) by (intro mult_le_mono1) simp
  then show ?thesis using assms(2) by (auto simp: block_def)
qed

lemma block_array:
  assumes "go_env (g_types G)" "go_type (g_types G) t" "array_len (g_types G) t = Some n"
    "elem_type (g_types G) t = Some e"
  shows "block G t p = {p..<p + n * size_of (g_word G) (g_types G) e}"
  using array_size [OF go_solid [OF assms(1,2)] assms(3,4)] by (simp add: block_def)

text \<open>What a block represents depends on the block and on \<open>Z\<close> only.\<close>

definition agree_on :: "memory \<Rightarrow> memory \<Rightarrow> nat set \<Rightarrow> bool" where
  "agree_on M M' A \<longleftrightarrow> (\<forall>a\<in>A. m_cell M' a = m_cell M a \<and> m_obj M' a = m_obj M a)"

lemma agree_on_mono: "agree_on M M' A \<Longrightarrow> B \<subseteq> A \<Longrightarrow> agree_on M M' B"
  by (auto simp: agree_on_def)

lemma agree_cell: "agree_on M M' A \<Longrightarrow> a \<in> A \<Longrightarrow> m_cell M' a = m_cell M a"
  by (simp add: agree_on_def)

lemma repr_frame:
  assumes env: "go_env (g_types G)"
  shows "repr fl G M Z t p v \<Longrightarrow> go_type (g_types G) t \<Longrightarrow> (\<forall>a\<in>block G t p. m_cell M' a = m_cell M a) \<Longrightarrow>
    agree_on M M' Z \<Longrightarrow> Z \<subseteq> Z' \<Longrightarrow> repr fl G M' Z' t p v"
proof (induction rule: repr.induct)
  case (r_string t p q s)
  note c = block_cells [OF env r_string(6)]
  have "m_cell M' (q + i) = unat (s ! i)" if "i < length s" for i
  proof -
    have "q + i \<in> Z" using that r_string(4) by (auto dest: subsetD)
    then show ?thesis using that r_string(5,8) by (simp add: agree_on_def)
  qed
  then show ?case using r_string c by (intro repr.r_string [where q = q]) auto
next
  case (r_ptr t e p q x)
  note c = block_cells(1) [OF env r_ptr.prems(1), of p]
  have "\<forall>a\<in>block G e q. m_cell M' a = m_cell M a" using r_ptr(5) r_ptr.prems(3) by (auto simp: agree_on_def)
  then have "repr fl G M' Z' e q x" using r_ptr go_parts(1) [OF env r_ptr.prems(1) r_ptr(2)] by blast
  then show ?case using r_ptr c by (intro repr.r_ptr [where q = q and e = e]) auto
next
  case (r_slice t e p q vs sz)
  note c = block_cells [OF env r_slice(9)]
  have "repr fl G M' Z' e (q + i * sz) (vs ! i)" if i: "i < length vs" for i
  proof -
    have "\<forall>a\<in>block G e (q + i * sz). m_cell M' a = m_cell M a"
      using block_elem [OF i r_slice(6), of q] r_slice(7,11) by (auto simp: agree_on_def)
    then show ?thesis using r_slice(8,11,12) i go_parts(1) [OF env r_slice(9,2)] by blast
  qed
  then show ?case using r_slice c by (intro repr.r_slice [where q = q and e = e]) auto
next
  case (r_array t e vs sz p)
  have "repr fl G M' Z' e (p + i * sz) (vs ! i)" if i: "i < length vs" for i
  proof -
    have "\<forall>a\<in>block G e (p + i * sz). m_cell M' a = m_cell M a"
      using block_elem [OF i r_array(4), of p] block_array [OF env r_array(6,3,2), of p] r_array(4,7) by auto
    then show ?thesis using r_array i go_parts(1) [OF env r_array(6,2)] by blast
  qed
  then show ?case using r_array by (intro repr.r_array [where e = e]) auto
next
  case (r_struct t fs vs p)
  have "repr fl G M' Z' (fld_type (fs ! i)) (p + field_offset (g_word G) (g_types G) t i) (vs ! i)"
    if i: "i < length fs" for i
    using r_struct(3,5,6,7) i block_field [OF env r_struct(4,1) i, of p] go_parts(3) [OF env r_struct(4,1) nth_mem [OF i]]
    by blast
  then show ?case using r_struct by (intro repr.r_struct) auto
next
  case (r_map t p h kvs)
  note c = block_cells(1) [OF env r_map(7), of p]
  then show ?case using r_map by (intro repr.r_map [where h = h]) (auto simp: agree_on_def)
next
  case (r_iface t p h x)
  note c = block_cells(1) [OF env r_iface(7), of p]
  then show ?case using r_iface by (intro repr.r_iface [where h = h]) (auto simp: agree_on_def)
qed (use block_cells [OF env] in \<open>auto intro!: repr.intros\<close>)

end
