(* ===== verification/UnsafeEnc.thy ===== *)
theory UnsafeEnc
  imports Memory
begin

text \<open>
  The encoding methods of the default build (the files \<open>codec_*_unsafe.go\<close>) on memory: one
  definition per \<open>encodeUnsafe\<close> method, the \<open>Encode\<close> methods on a \<open>reflect.Value\<close>, which
  here is an address, a type and the flag \<open>CanAddr\<close>, and their dispatch \<open>uenc\<close>. On values
  without a pointer to follow (scalars, strings, the content of maps and interfaces) the
  \<open>Encode\<close> methods are those of the \<open>nounsafe\<close> build, on what \<open>reflect\<close> loads from the
  address.
\<close>

section \<open>Calls\<close>

text \<open>How a codec is called: \<open>encodeUnsafe\<close>, or \<open>Encode\<close> with a type and \<open>CanAddr\<close>.\<close>

datatype entry = Unsafe | Reflect gtype bool

text \<open>Foreign code as it acts on memory: marshalers by type, registered codecs by number.\<close>

record hooks =
  h_marshal :: "gtype \<Rightarrow> nat \<Rightarrow> memory \<Rightarrow> enc_prog"
  h_unmarshal :: "gtype \<Rightarrow> nat \<Rightarrow> memory \<Rightarrow> memory dec_prog"
  h_foreign_enc :: "nat \<Rightarrow> nat \<Rightarrow> memory \<Rightarrow> enc_prog"
  h_foreign_dec :: "nat \<Rightarrow> nat \<Rightarrow> memory \<Rightarrow> memory dec_prog"

type_synonym 'e encode_at = "nat \<Rightarrow> 'e \<Rightarrow> 'e enc_result"
type_synonym 'e encode_call = "codec \<Rightarrow> entry \<Rightarrow> 'e encode_at"

definition no_method :: "'a outcome" where
  "no_method = Panic ''interface conversion: missing method encodeUnsafe''"

section \<open>Primitive codecs\<close>

definition boolCodec_encodeUnsafe :: "'e encoder_fn \<Rightarrow> memory \<Rightarrow> 'e encode_at" where
  "boolCodec_encodeUnsafe E M p e = Ret (E (EncBool (m_cell M p \<noteq> 0)) e)"

definition int8Codec_encodeUnsafe :: "'e encoder_fn \<Rightarrow> memory \<Rightarrow> 'e encode_at" where
  "int8Codec_encodeUnsafe E M p e = Ret (E (EncInt (scast (ld M p :: u8))) e)"

definition int16Codec_encodeUnsafe :: "'e encoder_fn \<Rightarrow> memory \<Rightarrow> 'e encode_at" where
  "int16Codec_encodeUnsafe E M p e = Ret (E (EncInt (scast (ld M p :: u16))) e)"

definition int32Codec_encodeUnsafe :: "'e encoder_fn \<Rightarrow> memory \<Rightarrow> 'e encode_at" where
  "int32Codec_encodeUnsafe E M p e = Ret (E (EncInt (ld M p)) e)"

definition uint8Codec_encodeUnsafe :: "'e encoder_fn \<Rightarrow> memory \<Rightarrow> 'e encode_at" where
  "uint8Codec_encodeUnsafe E M p e = Ret (E (EncUnsignedInt (ucast (ld M p :: u8))) e)"

definition uint16Codec_encodeUnsafe :: "'e encoder_fn \<Rightarrow> memory \<Rightarrow> 'e encode_at" where
  "uint16Codec_encodeUnsafe E M p e = Ret (E (EncUnsignedInt (ucast (ld M p :: u16))) e)"

definition uint32Codec_encodeUnsafe :: "'e encoder_fn \<Rightarrow> memory \<Rightarrow> 'e encode_at" where
  "uint32Codec_encodeUnsafe E M p e = Ret (E (EncUnsignedInt (ld M p)) e)"

definition hyperCodec_encodeUnsafe :: "'e encoder_fn \<Rightarrow> memory \<Rightarrow> 'e encode_at" where
  "hyperCodec_encodeUnsafe E M p e = Ret (E (EncHyper (ld M p)) e)"

definition uhyperCodec_encodeUnsafe :: "'e encoder_fn \<Rightarrow> memory \<Rightarrow> 'e encode_at" where
  "uhyperCodec_encodeUnsafe E M p e = Ret (E (EncUnsignedHyper (ld M p)) e)"

definition floatCodec_encodeUnsafe :: "'e encoder_fn \<Rightarrow> memory \<Rightarrow> 'e encode_at" where
  "floatCodec_encodeUnsafe E M p e = Ret (E (EncFloat (ld M p)) e)"

definition doubleCodec_encodeUnsafe :: "'e encoder_fn \<Rightarrow> memory \<Rightarrow> 'e encode_at" where
  "doubleCodec_encodeUnsafe E M p e = Ret (E (EncDouble (ld M p)) e)"

definition complex64Codec_encodeUnsafe :: "'e encoder_fn \<Rightarrow> memory \<Rightarrow> 'e encode_at" where
  "complex64Codec_encodeUnsafe E M p e =
     enc_then (Ret (E (EncFloat (ld M p)) e)) (\<lambda>e'. Ret (E (EncFloat (ld M (p + 4))) e'))"

definition complex128Codec_encodeUnsafe :: "'e encoder_fn \<Rightarrow> memory \<Rightarrow> 'e encode_at" where
  "complex128Codec_encodeUnsafe E M p e =
     enc_then (Ret (E (EncDouble (ld M p)) e)) (\<lambda>e'. Ret (E (EncDouble (ld M (p + 8))) e'))"

section \<open>Strings, arrays and slices\<close>

definition fixedStringCodec_encodeUnsafe :: "nat \<Rightarrow> nat \<Rightarrow> 'e encoder_fn \<Rightarrow> memory \<Rightarrow> 'e encode_at" where
  "fixedStringCodec_encodeUnsafe w len E M p e = fixedString_encode len E (ld_string w M p) e"

definition varStringCodec_encodeUnsafe :: "nat \<Rightarrow> nat \<Rightarrow> u32 \<Rightarrow> 'e encoder_fn \<Rightarrow> memory \<Rightarrow> 'e encode_at" where
  "varStringCodec_encodeUnsafe w maxlen origMax E M p e = varString_encode maxlen origMax E (ld_string w M p) e"

definition opaqueArrayCodec_encodeUnsafe :: "nat \<Rightarrow> 'e encoder_fn \<Rightarrow> memory \<Rightarrow> 'e encode_at" where
  "opaqueArrayCodec_encodeUnsafe len E M p e = Ret (E (EncFixedOpaque (bytes_at M p len)) e)"

text \<open>The elements at \<open>p\<close>, \<open>p + size\<close>, and so on.\<close>

fun enc_cells :: "'e encode_at \<Rightarrow> nat \<Rightarrow> nat \<Rightarrow> 'e encode_at" where
  "enc_cells f sz 0 p e = Ret (None, e)"
| "enc_cells f sz (Suc n) p e = enc_then (f p e) (\<lambda>e'. enc_cells f sz n (p + sz) e')"

definition arrayCodec_encodeUnsafe :: "'e encode_at \<Rightarrow> nat \<Rightarrow> nat \<Rightarrow> 'e encode_at" where
  "arrayCodec_encodeUnsafe elem len sz p e = enc_cells elem sz len p e"

definition opaqueSliceCodec_encodeUnsafe :: "nat \<Rightarrow> nat \<Rightarrow> u32 \<Rightarrow> 'e encoder_fn \<Rightarrow> memory \<Rightarrow> 'e encode_at" where
  "opaqueSliceCodec_encodeUnsafe w maxlen origMax E M p e = (let s = ld_string w M p in
     if length s > maxlen then Ret (Some (LengthError (word_of_nat (length s)) (ucast origMax)), e)
     else Ret (E (EncOpaque s) e))"

definition sliceCodec_encodeUnsafe ::
  "nat \<Rightarrow> nat \<Rightarrow> nat \<Rightarrow> u32 \<Rightarrow> 'e encoder_fn \<Rightarrow> memory \<Rightarrow> 'e encode_at \<Rightarrow> 'e encode_at" where
  "sliceCodec_encodeUnsafe w maxlen sz origMax E M elem p e = (let l = m_cell M (p + w) in
     if l > maxlen then Ret (Some (LengthError (word_of_nat l) (ucast origMax)), e)
     else enc_then (Ret (E (EncUnsignedInt (word_of_nat l)) e)) (\<lambda>e'. enc_cells elem sz l (m_cell M p) e'))"

section \<open>Pointers and optional values\<close>

definition ptrCodec_encodeUnsafe :: "memory \<Rightarrow> 'e encode_at \<Rightarrow> 'e encode_at" where
  "ptrCodec_encodeUnsafe M elem p e = (if m_cell M p = 0 then Ret (Some ErrNilPointer, e) else elem (m_cell M p) e)"

definition optCodec_encodeUnsafe :: "'e encoder_fn \<Rightarrow> memory \<Rightarrow> 'e encode_at \<Rightarrow> 'e encode_at" where
  "optCodec_encodeUnsafe E M elem p e = (let isNil = (m_cell M p = 0) in
     enc_then (Ret (E (EncBool (\<not> isNil)) e)) (\<lambda>e'. if isNil then Ret (None, e') else elem p e'))"

section \<open>Structs and unions\<close>

definition field_encodeUnsafe ::
  "'e encode_call \<Rightarrow> codec field \<Rightarrow> nat \<Rightarrow> 'e \<Rightarrow> (nat \<times> gerror option \<times> 'e) outcome" where
  "field_encodeUnsafe rc f pparent e = (let p = pparent + f_offset f in
     obind (rc (f_codec f) Unsafe p e) (\<lambda>(err, e'). Ret (p, err, e')))"

fun structCodec_encodeUnsafe :: "'e encode_call \<Rightarrow> string \<Rightarrow> codec field list \<Rightarrow> 'e encode_at" where
  "structCodec_encodeUnsafe rc name [] p e = Ret (None, e)"
| "structCodec_encodeUnsafe rc name (f # fs) p e =
     obind (field_encodeUnsafe rc f p e) (\<lambda>(_, err, e').
       if err \<noteq> None then Ret (WithFieldError err [name, f_name f], e')
       else structCodec_encodeUnsafe rc name fs p e')"

text \<open>The switch value, read as a bool or as 32 bits.\<close>

definition swVal_at :: "switch_kind \<Rightarrow> memory \<Rightarrow> nat \<Rightarrow> u32" where
  "swVal_at switchKind M swp = (case switchKind of
      SwitchBool \<Rightarrow> if m_cell M swp \<noteq> 0 then 1 else 0 | _ \<Rightarrow> ld M swp)"

definition unionCodec_encodeUnsafe ::
  "'e encode_call \<Rightarrow> memory \<Rightarrow> string \<Rightarrow> codec field \<Rightarrow> codec field option list \<Rightarrow> (u32 \<times> nat) list
     \<Rightarrow> int \<Rightarrow> switch_kind \<Rightarrow> 'e encode_at" where
  "unionCodec_encodeUnsafe rc M name switchField bodyFields cases defaultCase switchKind p e =
     obind (field_encodeUnsafe rc switchField p e) (\<lambda>(swp, err, e1).
       if err \<noteq> None then Ret (WithFieldError err [name, f_name switchField, ''union:switch''], e1)
       else let swVal = swVal_at switchKind M swp; caseField = union_case cases defaultCase swVal in
         if caseField = -1 then Ret (undefined_arm name caseField, e1)
         else obind (body_field bodyFields caseField) (\<lambda>f.
           obind (field_encodeUnsafe rc f p e1) (\<lambda>(_, err2, e2).
             Ret (arm_error name (f_name f) swVal err2, e2))))"

section \<open>Special codecs\<close>

definition deferredCodec_encodeUnsafe :: "genv \<Rightarrow> nat \<Rightarrow> 'e encode_call \<Rightarrow> 'e encode_at" where
  "deferredCodec_encodeUnsafe G k rc p e = (case g_real G k of None \<Rightarrow> Blocked | Some c \<Rightarrow> rc c Unsafe p e)"

definition unsafeCodecWrapper_encodeUnsafe :: "'e encode_call \<Rightarrow> codec \<Rightarrow> gtype \<Rightarrow> 'e encode_at" where
  "unsafeCodecWrapper_encodeUnsafe rc c t p e = rc c (Reflect t True) p e"

section \<open>Encode on a reflect.Value\<close>

text \<open>\<open>v.IsNil()\<close>, \<open>v.Index(i)\<close> and \<open>v.Field(i)\<close> on the variable at \<open>p\<close>.\<close>

definition nil_at :: "genv \<Rightarrow> memory \<Rightarrow> gtype \<Rightarrow> nat \<Rightarrow> bool outcome" where
  "nil_at G M t p = (if kind (g_types G) t \<in> {KPtr, KSlice, KMap, KInterface} then Ret (m_cell M p = 0)
     else reflected None)"

definition elem_of :: "genv \<Rightarrow> gkind \<Rightarrow> gtype \<Rightarrow> (gtype \<times> nat) outcome" where
  "elem_of G k t = (case (elem_type (g_types G) t, kind (g_types G) t = k) of
      (Some e, True) \<Rightarrow> Ret (e, size_of (g_word G) (g_types G) e) | _ \<Rightarrow> reflected None)"

definition field_of :: "genv \<Rightarrow> gtype \<Rightarrow> nat \<Rightarrow> nat \<Rightarrow> (gtype \<times> nat) outcome" where
  "field_of G t i p = (case struct_fields (g_types G) t of
      Some fs \<Rightarrow> if i < length fs then Ret (fld_type (fs ! i), p + field_offset (g_word G) (g_types G) t i)
        else reflected None
    | None \<Rightarrow> reflected None)"

definition opaqueArrayCodec_Encode_at :: "genv \<Rightarrow> 'e encoder_fn \<Rightarrow> memory \<Rightarrow> gtype \<Rightarrow> 'e encode_at" where
  "opaqueArrayCodec_Encode_at G E M t p e =
     (if byte_kind (g_types G) t \<and> kind (g_types G) t = KArray
      then obind (reflected (array_len (g_types G) t)) (\<lambda>n. Ret (E (EncFixedOpaque (bytes_at M p n)) e))
      else reflected None)"

definition arrayCodec_Encode_at :: "genv \<Rightarrow> 'e encode_call \<Rightarrow> codec \<Rightarrow> gtype \<Rightarrow> bool \<Rightarrow> 'e encode_at" where
  "arrayCodec_Encode_at G rc c t a p e = obind (elem_of G KArray t) (\<lambda>(et, sz).
     obind (reflected (array_len (g_types G) t)) (\<lambda>n. enc_cells (rc c (Reflect et a)) sz n p e))"

definition opaqueSliceCodec_Encode_at ::
  "genv \<Rightarrow> nat \<Rightarrow> u32 \<Rightarrow> 'e encoder_fn \<Rightarrow> memory \<Rightarrow> gtype \<Rightarrow> 'e encode_at" where
  "opaqueSliceCodec_Encode_at G maxlen origMax E M t p e =
     (if byte_kind (g_types G) t \<and> kind (g_types G) t = KSlice
      then opaqueSliceCodec_encodeUnsafe (g_word G) maxlen origMax E M p e else reflected None)"

definition sliceCodec_Encode_at ::
  "genv \<Rightarrow> nat \<Rightarrow> u32 \<Rightarrow> 'e encoder_fn \<Rightarrow> memory \<Rightarrow> 'e encode_call \<Rightarrow> codec \<Rightarrow> gtype \<Rightarrow> 'e encode_at" where
  "sliceCodec_Encode_at G maxlen origMax E M rc c t p e = obind (elem_of G KSlice t) (\<lambda>(et, sz).
     sliceCodec_encodeUnsafe (g_word G) maxlen sz origMax E M (rc c (Reflect et True)) p e)"

definition ptrCodec_Encode_at :: "genv \<Rightarrow> memory \<Rightarrow> 'e encode_call \<Rightarrow> codec \<Rightarrow> gtype \<Rightarrow> 'e encode_at" where
  "ptrCodec_Encode_at G M rc c t p e = obind (nil_at G M t p) (\<lambda>isNil.
     if isNil then Ret (Some ErrNilPointer, e) else rc c Unsafe (m_cell M p) e)"

definition optCodec_Encode_at ::
  "genv \<Rightarrow> 'e encoder_fn \<Rightarrow> memory \<Rightarrow> 'e encode_call \<Rightarrow> codec \<Rightarrow> gtype \<Rightarrow> bool \<Rightarrow> 'e encode_at" where
  "optCodec_Encode_at G E M rc c t a p e = obind (nil_at G M t p) (\<lambda>isNil.
     enc_then (Ret (E (EncBool (\<not> isNil)) e)) (\<lambda>e'. if isNil then Ret (None, e') else rc c (Reflect t a) p e'))"

text \<open>The method \<open>encode\<close> of a field on a struct that is not addressable.\<close>

definition field_encode_at ::
  "genv \<Rightarrow> 'e encode_call \<Rightarrow> codec field \<Rightarrow> gtype \<Rightarrow> nat \<Rightarrow> 'e \<Rightarrow> ((gtype \<times> nat) \<times> gerror option \<times> 'e) outcome" where
  "field_encode_at G rc f t p e = obind (field_of G t (f_index f) p) (\<lambda>(ft, q).
     obind (rc (f_codec f) (Reflect ft False) q e) (\<lambda>(err, e'). Ret ((ft, q), err, e')))"

fun struct_encodeReflect_at :: "genv \<Rightarrow> 'e encode_call \<Rightarrow> string \<Rightarrow> codec field list \<Rightarrow> gtype \<Rightarrow> 'e encode_at" where
  "struct_encodeReflect_at G rc name [] t p e = Ret (None, e)"
| "struct_encodeReflect_at G rc name (f # fs) t p e =
     obind (field_encode_at G rc f t p e) (\<lambda>(_, err, e').
       if err \<noteq> None then Ret (WithFieldError err [name, f_name f], e')
       else struct_encodeReflect_at G rc name fs t p e')"

definition union_encodeReflect_at ::
  "genv \<Rightarrow> 'e encode_call \<Rightarrow> memory \<Rightarrow> string \<Rightarrow> codec field \<Rightarrow> codec field option list \<Rightarrow> (u32 \<times> nat) list
     \<Rightarrow> int \<Rightarrow> switch_kind \<Rightarrow> gtype \<Rightarrow> 'e encode_at" where
  "union_encodeReflect_at G rc M name switchField bodyFields cases defaultCase switchKind t p e =
     obind (field_encode_at G rc switchField t p e) (\<lambda>((st, sp), err, e1).
       if err \<noteq> None then Ret (WithFieldError err [name, f_name switchField, ''union:switch''], e1)
       else obind (union_swVal switchKind (load G M st sp)) (\<lambda>swVal.
         let caseField = union_case cases defaultCase swVal in
         if caseField = -1 then Ret (undefined_arm name caseField, e1)
         else obind (body_field bodyFields caseField) (\<lambda>f.
           obind (field_encode_at G rc f t p e1) (\<lambda>(_, err2, e2).
             Ret (arm_error name (f_name f) swVal err2, e2)))))"

definition structCodec_Encode_at ::
  "genv \<Rightarrow> 'e encode_call \<Rightarrow> string \<Rightarrow> codec field list \<Rightarrow> gtype \<Rightarrow> bool \<Rightarrow> 'e encode_at" where
  "structCodec_Encode_at G rc name fs t canAddr p e =
     (if canAddr then structCodec_encodeUnsafe rc name fs p e else struct_encodeReflect_at G rc name fs t p e)"

definition unionCodec_Encode_at ::
  "genv \<Rightarrow> 'e encode_call \<Rightarrow> memory \<Rightarrow> string \<Rightarrow> codec field \<Rightarrow> codec field option list \<Rightarrow> (u32 \<times> nat) list
     \<Rightarrow> int \<Rightarrow> switch_kind \<Rightarrow> gtype \<Rightarrow> bool \<Rightarrow> 'e encode_at" where
  "unionCodec_Encode_at G rc M name sw body cases dflt sk t canAddr p e =
     (if canAddr then unionCodec_encodeUnsafe rc M name sw body cases dflt sk p e
      else union_encodeReflect_at G rc M name sw body cases dflt sk t p e)"

definition marshalerCodec_Encode_at :: "genv \<Rightarrow> hooks \<Rightarrow> 'e encoder_fn \<Rightarrow> memory \<Rightarrow> gtype \<Rightarrow> 'e encode_at" where
  "marshalerCodec_Encode_at G H E M t p e =
     (if kind (g_types G) t = KInterface \<and> m_cell M p = 0 then Panic ''interface conversion: interface is nil''
      else Ret (run_enc E (h_marshal H t p M) e))"

section \<open>Dispatch\<close>

definition encode_unsafe ::
  "genv \<Rightarrow> 'e encoder_fn \<Rightarrow> memory \<Rightarrow> 'e encode_call \<Rightarrow> codec \<Rightarrow> 'e encode_at" where
  "encode_unsafe G E M rc c = (case c of
      CBool \<Rightarrow> boolCodec_encodeUnsafe E M | CInt8 \<Rightarrow> int8Codec_encodeUnsafe E M
    | CInt16 \<Rightarrow> int16Codec_encodeUnsafe E M | CInt32 \<Rightarrow> int32Codec_encodeUnsafe E M
    | CUint8 \<Rightarrow> uint8Codec_encodeUnsafe E M | CUint16 \<Rightarrow> uint16Codec_encodeUnsafe E M
    | CUint32 \<Rightarrow> uint32Codec_encodeUnsafe E M | CHyper \<Rightarrow> hyperCodec_encodeUnsafe E M
    | CUhyper \<Rightarrow> uhyperCodec_encodeUnsafe E M | CFloat \<Rightarrow> floatCodec_encodeUnsafe E M
    | CDouble \<Rightarrow> doubleCodec_encodeUnsafe E M | CComplex64 \<Rightarrow> complex64Codec_encodeUnsafe E M
    | CComplex128 \<Rightarrow> complex128Codec_encodeUnsafe E M
    | CFixedString len \<Rightarrow> fixedStringCodec_encodeUnsafe (g_word G) len E M
    | CVarString maxlen om \<Rightarrow> varStringCodec_encodeUnsafe (g_word G) maxlen om E M
    | COpaqueArray t len \<Rightarrow> opaqueArrayCodec_encodeUnsafe len E M
    | CArray ec len sz \<Rightarrow> arrayCodec_encodeUnsafe (rc ec Unsafe) len sz
    | COpaqueSlice t maxlen om \<Rightarrow> opaqueSliceCodec_encodeUnsafe (g_word G) maxlen om E M
    | CSlice ec et maxlen sz om \<Rightarrow> sliceCodec_encodeUnsafe (g_word G) maxlen sz om E M (rc ec Unsafe)
    | CPtr ec et \<Rightarrow> ptrCodec_encodeUnsafe M (rc ec Unsafe)
    | COpt ec nilp \<Rightarrow> optCodec_encodeUnsafe E M (rc ec Unsafe)
    | CStruct name fs \<Rightarrow> structCodec_encodeUnsafe rc name fs
    | CUnion name sw body cases dflt sk \<Rightarrow> unionCodec_encodeUnsafe rc M name sw body cases dflt sk
    | CDeferred k \<Rightarrow> deferredCodec_encodeUnsafe G k rc
    | CWrapper wc t \<Rightarrow> unsafeCodecWrapper_encodeUnsafe rc wc t
    | _ \<Rightarrow> (\<lambda>p e. no_method))"

text \<open>\<open>ev\<close> encodes values, for the content of maps.\<close>

definition encode_reflect ::
  "genv \<Rightarrow> hooks \<Rightarrow> 'e encoder_fn \<Rightarrow> memory \<Rightarrow> 'e encode_call \<Rightarrow> (codec \<Rightarrow> 'e encode_fn) \<Rightarrow> codec
    \<Rightarrow> gtype \<Rightarrow> bool \<Rightarrow> 'e encode_at" where
  "encode_reflect G H E M rc ev c t a p = (case c of
      CBool \<Rightarrow> boolCodec_Encode E (load G M t p)
    | CInt8 \<Rightarrow> intCodec_Encode E (load G M t p) | CInt16 \<Rightarrow> intCodec_Encode E (load G M t p)
    | CInt32 \<Rightarrow> intCodec_Encode E (load G M t p) | CUint8 \<Rightarrow> uintCodec_Encode E (load G M t p)
    | CUint16 \<Rightarrow> uintCodec_Encode E (load G M t p) | CUint32 \<Rightarrow> uintCodec_Encode E (load G M t p)
    | CHyper \<Rightarrow> hyperCodec_Encode E (load G M t p) | CUhyper \<Rightarrow> uhyperCodec_Encode E (load G M t p)
    | CFloat \<Rightarrow> floatCodec_Encode E (load G M t p) | CDouble \<Rightarrow> doubleCodec_Encode E (load G M t p)
    | CComplex64 \<Rightarrow> complex64Codec_Encode E (load G M t p)
    | CComplex128 \<Rightarrow> complex128Codec_Encode E (load G M t p)
    | CFixedString len \<Rightarrow> fixedStringCodec_Encode len E (load G M t p)
    | CVarString maxlen om \<Rightarrow> varStringCodec_Encode maxlen om E (load G M t p)
    | COpaqueArray ot len \<Rightarrow> opaqueArrayCodec_Encode_at G E M t p
    | CArray ec len sz \<Rightarrow> arrayCodec_Encode_at G rc ec t a p
    | COpaqueSlice ot maxlen om \<Rightarrow> opaqueSliceCodec_Encode_at G maxlen om E M t p
    | CSlice ec et maxlen sz om \<Rightarrow> sliceCodec_Encode_at G maxlen om E M rc ec t p
    | CPtr ec et \<Rightarrow> ptrCodec_Encode_at G M rc ec t p
    | COpt ec nilp \<Rightarrow> optCodec_Encode_at G E M rc ec t a p
    | CMap kc vc kt vt maxlen om \<Rightarrow> mapCodec_Encode maxlen om E (ev kc) (ev vc) (load G M t p)
    | CStruct name fs \<Rightarrow> structCodec_Encode_at G rc name fs t a p
    | CUnion name sw body cases dflt sk \<Rightarrow> unionCodec_Encode_at G rc M name sw body cases dflt sk t a p
    | CError err \<Rightarrow> (\<lambda>e. Ret (Some err, e))
    | CDeferred k \<Rightarrow> (\<lambda>e. case g_real G k of None \<Rightarrow> Blocked | Some c \<Rightarrow> rc c (Reflect t a) p e)
    | CMarshaler mt \<Rightarrow> marshalerCodec_Encode_at G H E M t p
    | CForeign k \<Rightarrow> (\<lambda>e. Ret (run_enc E (h_foreign_enc H k p M) e))
    | CWrapper wc wt \<Rightarrow> rc wc (Reflect t a) p)"

primrec uenc :: "nat \<Rightarrow> genv \<Rightarrow> hooks \<Rightarrow> 'e encoder_fn \<Rightarrow> memory \<Rightarrow> 'e encode_call" where
  "uenc 0 G H E M c en p e = Spent"
| "uenc (Suc n) G H E M c en p e = (case en of
      Unsafe \<Rightarrow> encode_unsafe G E M (uenc n G H E M) c p e
    | Reflect t a \<Rightarrow> encode_reflect G H E M (uenc n G H E M) (enc n G E) c t a p e)"

end
