(* ===== verification/UnsafeEncEq.thy ===== *)
theory UnsafeEncEq
  imports UnsafeEnc GoTyped Wire
begin

text \<open>
  The default build encodes what the \<open>nounsafe\<close> build encodes: on memory that represents a
  value, \<open>uenc\<close> and \<open>enc\<close> do the same.
\<close>

section \<open>Scalars\<close>

text \<open>Floats whose bits in memory are those of the value, which is not a signalling NaN.\<close>

definition exact :: "u32 \<Rightarrow> u32 \<Rightarrow> bool" where
  "exact a b \<longleftrightarrow> a = b \<and> f32_via_f64 b = b"

lemma ld_unat: "m_cell M p = unat x \<Longrightarrow> ld M p = x"
  by (simp add: ld_def)

lemma narrow_sign:
  "(ucast (scast (x :: u8) :: u64) :: u32) = scast x" "(ucast (scast (y :: u16) :: u64) :: u32) = scast y"
  "(ucast (scast (z :: u32) :: u64) :: u32) = z"
  "(ucast (ucast (x :: u8) :: u64) :: u32) = ucast x" "(ucast (ucast (y :: u16) :: u64) :: u32) = ucast y"
  "(ucast (ucast (z :: u32) :: u64) :: u32) = z"
proof -
  show "(ucast (scast z :: u64) :: u32) = z"
  proof (rule bit_word_eqI)
    fix n assume "n < LENGTH(32)"
    then show "bit (ucast (scast z :: u64) :: u32) n = bit z n"
      by (cases "n = 31") (auto simp: bit_simps min_def)
  qed
qed (rule bit_word_eqI; auto simp: bit_simps min_def)+

definition loadable :: "gkind set" where
  "loadable = {KBool, KInt8, KInt16, KInt32, KInt64, KUint8, KUint16, KUint32, KUint64, KFloat32, KFloat64,
     KComplex64, KComplex128, KString, KMap, KInterface}"

lemma bytes_at_eq:
  "length s = n \<Longrightarrow> \<forall>i<n. m_cell M (q + i) = unat (s ! i) \<Longrightarrow> bytes_at M q n = s"
  by (rule nth_equalityI) (auto simp: bytes_at_def ld_unat)

lemma string_at:
  "m_cell M (p + w) = length s \<Longrightarrow> \<forall>i<length s. m_cell M (m_cell M p + i) = unat (s ! i) \<Longrightarrow> ld_string w M p = s"
  by (simp add: ld_string_def bytes_at_eq)

lemma load_repr:
  assumes "kind (g_types G) t \<in> loadable" "repr exact G M Z t p v"
  shows "load G M t p = v"
  using assms unfolding loadable_def
  by (auto simp: load_def repr_kind ld_unat string_at exact_def split: if_splits)

lemma prim_same:
  assumes "(kind (g_types G) t, c) \<in> {(KBool, CBool), (KInt8, CInt8), (KInt16, CInt16), (KInt32, CInt32),
     (KUint8, CUint8), (KUint16, CUint16), (KUint32, CUint32), (KInt64, CHyper), (KUint64, CUhyper),
     (KFloat32, CFloat), (KFloat64, CDouble), (KComplex64, CComplex64), (KComplex128, CComplex128)}"
    and "repr exact G M Z t p v"
  shows "encode_unsafe G E M rc c p e = enc (Suc n) G E c v e"
    and "encode_reflect G H E M rc ev c t a p e = enc (Suc n) G E c v e"
proof -
  show "encode_unsafe G E M rc c p e = enc (Suc n) G E c v e"
    using assms by (auto simp: encode_unsafe_def repr_kind ld_unat exact_def reflected_def narrow_sign
      boolCodec_encodeUnsafe_def int8Codec_encodeUnsafe_def int16Codec_encodeUnsafe_def int32Codec_encodeUnsafe_def
      uint8Codec_encodeUnsafe_def uint16Codec_encodeUnsafe_def uint32Codec_encodeUnsafe_def
      hyperCodec_encodeUnsafe_def uhyperCodec_encodeUnsafe_def floatCodec_encodeUnsafe_def doubleCodec_encodeUnsafe_def
      complex64Codec_encodeUnsafe_def complex128Codec_encodeUnsafe_def
      boolCodec_Encode_def intCodec_Encode_def uintCodec_Encode_def hyperCodec_Encode_def uhyperCodec_Encode_def
      floatCodec_Encode_def doubleCodec_Encode_def complex64Codec_Encode_def complex128Codec_Encode_def)
  have "load G M t p = v" by (rule load_repr [OF _ assms(2)]) (use assms(1) in \<open>auto simp: loadable_def\<close>)
  then show "encode_reflect G H E M rc ev c t a p e = enc (Suc n) G E c v e"
    using assms(1) by (auto simp: encode_reflect_def)
qed

lemma string_same:
  assumes "kind (g_types G) t = KString" "repr exact G M Z t p v"
  shows "fixedStringCodec_encodeUnsafe (g_word G) k E M p e = fixedStringCodec_Encode k E v e"
    "varStringCodec_encodeUnsafe (g_word G) m om E M p e = varStringCodec_Encode m om E v e"
  using assms by (auto simp: repr_kind string_at fixedStringCodec_encodeUnsafe_def varStringCodec_encodeUnsafe_def
      fixedStringCodec_Encode_def varStringCodec_Encode_def reflected_def)

section \<open>Arrays and slices\<close>

lemma byte_cells:
  assumes "byte_kind (g_types G) t" "elem_type (g_types G) t = Some e" "go_env (g_types G)" "go_type (g_types G) e"
  shows "size_of (g_word G) (g_types G) e = 1" "kind (g_types G) e = KUint8"
proof -
  show "kind (g_types G) e = KUint8" using assms(1,2) by (simp add: byte_kind_def)
  then show "size_of (g_word G) (g_types G) e = 1" by (intro size_of_kind(1) go_solid assms(3,4)) simp
qed

lemma bytes_repr:
  assumes "kind (g_types G) e = KUint8" "\<forall>i<length vs. repr fl G M Z e (q + i) (vs ! i)"
  shows "\<exists>s. vs = map VUint8 s \<and> bytes_at M q (length vs) = s"
proof -
  have "\<forall>i<length vs. vs ! i = VUint8 (ld M (q + i))"
    using assms by (auto simp: repr_kind ld_unat)
  then have "vs = map VUint8 (bytes_at M q (length vs))"
    by (intro nth_equalityI) (auto simp: bytes_at_def)
  then show ?thesis by blast
qed

lemma enc_cells_same:
  assumes "\<And>i e. i < length vs \<Longrightarrow> f (q + i * sz) e = g (vs ! i) e"
  shows "enc_cells f sz (length vs) q e = enc_elems g vs e"
  using assms
proof (induction vs arbitrary: q e)
  case (Cons v vs)
  have "f q e = g v e" for e using Cons.prems [of 0] by simp
  moreover have "enc_cells f sz (length vs) (q + sz) = enc_elems g vs"
    using Cons.prems [of "Suc i" for i] by (intro ext Cons.IH) (simp add: add.assoc)
  ultimately show ?case by simp
qed simp

lemma slice_same:
  assumes "kind (g_types G) t = KSlice" "elem_type (g_types G) t = Some e"
    "repr fl G M Z t p v" "sz = size_of (g_word G) (g_types G) e"
    "\<And>q x e'. repr fl G M Z e q x \<Longrightarrow> f q e' = g x e'"
  shows "sliceCodec_encodeUnsafe (g_word G) m sz om E M f p e' = sliceCodec_Encode m om E g v e'"
proof -
  from assms(3) consider "v = VSlice None" "m_cell M (p + g_word G) = 0"
    | vs where "v = VSlice (Some vs)" "m_cell M (p + g_word G) = length vs"
      "\<forall>i<length vs. repr fl G M Z e (m_cell M p + i * sz) (vs ! i)"
    by (auto simp: repr_kind(16) [OF assms(1,2,4)])
  moreover have "enc_cells f sz 0 (m_cell M p) = enc_elems g []" by (rule ext) simp
  ultimately show ?thesis
  proof cases
    case (2 vs)
    then have "enc_cells f sz (length vs) (m_cell M p) = enc_elems g vs"
      by (intro ext enc_cells_same) (simp add: assms(5))
    then show ?thesis using 2 by (simp add: sliceCodec_encodeUnsafe_def sliceCodec_Encode_def reflected_def Let_def)
  qed (simp add: sliceCodec_encodeUnsafe_def sliceCodec_Encode_def reflected_def Let_def)
qed

lemma array_same:
  assumes "kind (g_types G) t = KArray" "elem_type (g_types G) t = Some e" "array_len (g_types G) t = Some n"
    "repr fl G M Z t p v" "sz = size_of (g_word G) (g_types G) e"
    "\<And>q x e'. repr fl G M Z e q x \<Longrightarrow> f q e' = g x e'"
  shows "enc_cells f sz n p e' = arrayCodec_Encode g v e'"
proof -
  from assms(4) obtain vs where vs: "v = VArray vs" "length vs = n" "\<forall>i<n. repr fl G M Z e (p + i * sz) (vs ! i)"
    by (auto simp: repr_kind(17) [OF assms(1-3,5)])
  then have "enc_cells f sz (length vs) p e' = enc_elems g vs e'"
    by (intro enc_cells_same) (simp add: assms(6))
  then show ?thesis using vs by (simp add: arrayCodec_Encode_def reflected_def)
qed

lemma opaque_same:
  assumes env: "go_env (g_types G)" "go_type (g_types G) t" and b: "byte_kind (g_types G) t" and r: "repr fl G M Z t p v"
  shows "kind (g_types G) t = KArray \<Longrightarrow> array_len (g_types G) t = Some n \<Longrightarrow>
      Ret (E (EncFixedOpaque (bytes_at M p n)) e') = opaqueArrayCodec_Encode G t E v e'"
    and "kind (g_types G) t = KSlice \<Longrightarrow>
      opaqueSliceCodec_encodeUnsafe (g_word G) m om E M p e' = opaqueSliceCodec_Encode G t m om E v e'"
proof -
  obtain e where e: "elem_type (g_types G) t = Some e" using b by (auto simp: byte_kind_def split: option.splits)
  note c = byte_cells [OF b e env(1) go_parts(1) [OF env e]]
  show "Ret (E (EncFixedOpaque (bytes_at M p n)) e') = opaqueArrayCodec_Encode G t E v e'"
    if k: "kind (g_types G) t = KArray" "array_len (g_types G) t = Some n"
  proof -
    obtain vs where vs: "v = VArray vs" "length vs = n" "\<forall>i<n. repr fl G M Z e (p + i) (vs ! i)"
      using r by (auto simp: repr_kind(17) [OF k(1) e k(2) c(1) [symmetric]])
    with bytes_repr [OF c(2), of vs fl M Z p] obtain s where "vs = map VUint8 s" "bytes_at M p n = s" by auto
    then show ?thesis using vs b by (simp add: opaqueArrayCodec_Encode_def reflected_def)
  qed
  show "opaqueSliceCodec_encodeUnsafe (g_word G) m om E M p e' = opaqueSliceCodec_Encode G t m om E v e'"
    if k: "kind (g_types G) t = KSlice"
  proof -
    from r consider "v = VSlice None" "m_cell M (p + g_word G) = 0"
      | vs where "v = VSlice (Some vs)" "m_cell M (p + g_word G) = length vs"
        "\<forall>i<length vs. repr fl G M Z e (m_cell M p + i) (vs ! i)"
      by (auto simp: repr_kind(16) [OF k e c(1) [symmetric]])
    then show ?thesis
    proof cases
      case (2 vs)
      obtain s where "vs = map VUint8 s" "bytes_at M (m_cell M p) (length vs) = s"
        using bytes_repr [OF c(2) 2(3)] by blast
      then show ?thesis using 2 b
        by (simp add: opaqueSliceCodec_encodeUnsafe_def opaqueSliceCodec_Encode_def ld_string_def reflected_def Let_def)
    qed (use b in \<open>simp add: opaqueSliceCodec_encodeUnsafe_def opaqueSliceCodec_Encode_def ld_string_def bytes_at_def
        reflected_def Let_def\<close>)
  qed
qed

section \<open>Structs and unions\<close>

text \<open>Both ways of calling the codec of a field do what it does on the field's value.\<close>

definition field_same ::
  "genv \<Rightarrow> 'e encode_call \<Rightarrow> (codec \<Rightarrow> 'e encode_fn) \<Rightarrow> gtype \<Rightarrow> gfield list \<Rightarrow> nat \<Rightarrow> gvalue list \<Rightarrow> codec field \<Rightarrow> bool" where
  "field_same G rc g t fs p vs f \<longleftrightarrow> f_index f < length fs
     \<and> f_offset f = field_offset (g_word G) (g_types G) t (f_index f)
     \<and> (\<forall>e. rc (f_codec f) Unsafe (p + f_offset f) e = g (f_codec f) (vs ! f_index f) e)
     \<and> (\<forall>e. rc (f_codec f) (Reflect (fld_type (fs ! f_index f)) False) (p + f_offset f) e = g (f_codec f) (vs ! f_index f) e)"

lemma field_step:
  assumes "struct_fields (g_types G) t = Some fs" "length vs = length fs" "field_same G rc g t fs p vs f"
  shows "field_encodeUnsafe rc f p e
      = obind (field_encode g f (VStruct vs) e) (\<lambda>(_, err, e'). Ret (p + f_offset f, err, e'))"
    and "field_encode_at G rc f t p e = obind (field_encode g f (VStruct vs) e)
      (\<lambda>(_, err, e'). Ret ((fld_type (fs ! f_index f), p + f_offset f), err, e'))"
proof -
  note f = assms(3) [unfolded field_same_def]
  have off: "field_offset (g_word G) (g_types G) t (f_index f) = f_offset f" using f by simp
  have i: "f_index f < length fs" using f by simp
  show "field_encodeUnsafe rc f p e
      = obind (field_encode g f (VStruct vs) e) (\<lambda>(_, err, e'). Ret (p + f_offset f, err, e'))"
    using f assms(2) by (cases "g (f_codec f) (vs ! f_index f) e")
      (auto simp: field_encodeUnsafe_def field_encode_def reflected_def Let_def)
  show "field_encode_at G rc f t p e = obind (field_encode g f (VStruct vs) e)
      (\<lambda>(_, err, e'). Ret ((fld_type (fs ! f_index f), p + f_offset f), err, e'))"
    using f assms(2) by (cases "g (f_codec f) (vs ! f_index f) e")
      (auto simp: field_encode_at_def field_of_def assms(1) off field_encode_def reflected_def)
qed

lemma struct_same:
  assumes "struct_fields (g_types G) t = Some fs" "length vs = length fs"
  shows "\<forall>f\<in>set fds. field_same G rc g t fs p vs f \<Longrightarrow>
     structCodec_encodeUnsafe rc name fds p e = struct_encodeReflect g name fds (VStruct vs) e
   \<and> struct_encodeReflect_at G rc name fds t p e = struct_encodeReflect g name fds (VStruct vs) e"
proof (induction fds arbitrary: e)
  case (Cons f fds)
  have f: "field_same G rc g t fs p vs f" using Cons.prems by simp
  note s = field_step [OF assms f]
  show ?case using Cons by (cases "field_encode g f (VStruct vs) e") (auto simp: s)
qed simp

lemma switch_same:
  assumes "(sk, kind (g_types G) u) \<in> set switch_kinds" "repr fl G M Z u sp v"
  shows "union_swVal sk v = Ret (swVal_at sk M sp)" "union_swVal sk (load G M u sp) = Ret (swVal_at sk M sp)"
proof -
  consider "sk = SwitchBool" "kind (g_types G) u = KBool" | "sk = SwitchInt" "kind (g_types G) u = KInt32"
    | "sk = SwitchUint" "kind (g_types G) u = KUint32"
    using assms(1) by (auto simp: switch_kinds_def)
  then have "union_swVal sk v = Ret (swVal_at sk M sp) \<and> union_swVal sk (load G M u sp) = Ret (swVal_at sk M sp)"
  proof cases
    case 1
    then obtain b where "v = VBool b" "m_cell M sp = (if b then 1 else 0)" using assms(2) by (auto simp: repr_kind)
    then show ?thesis using 1 by (cases b) (simp_all add: union_swVal_def swVal_at_def reflected_def load_def)
  qed (use assms(2) in \<open>auto simp: repr_kind union_swVal_def swVal_at_def reflected_def load_def ld_unat narrow_sign\<close>)
  then show "union_swVal sk v = Ret (swVal_at sk M sp)" "union_swVal sk (load G M u sp) = Ret (swVal_at sk M sp)"
    by blast+
qed

lemma union_same:
  assumes t: "struct_fields (g_types G) t = Some fs" "length vs = length fs"
    and arms: "arms_ok body cases dflt"
    and f: "\<forall>f\<in>insert sw {f. Some f \<in> set body}. field_same G rc g t fs p vs f"
    and sk: "(sk, kind (g_types G) (fld_type (fs ! f_index sw))) \<in> set switch_kinds"
    and r: "repr fl G M Z (fld_type (fs ! f_index sw)) (p + f_offset sw) (vs ! f_index sw)"
  shows "unionCodec_encodeUnsafe rc M name sw body cases dflt sk p e
      = union_encodeReflect g name sw body cases dflt sk (VStruct vs) e"
    and "union_encodeReflect_at G rc M name sw body cases dflt sk t p e
      = union_encodeReflect g name sw body cases dflt sk (VStruct vs) e"
proof -
  have sw: "field_same G rc g t fs p vs sw" using f by simp
  note w = switch_same [OF sk r] and s = field_step [OF t sw]
  have i: "f_index sw < length vs" using sw t(2) by (simp add: field_same_def)
  let ?w = "swVal_at sk M (p + f_offset sw)"
  have arm: "obind (body_field body (union_case cases dflt ?w)) (\<lambda>f. obind (field_encodeUnsafe rc f p e1)
        (\<lambda>(_, err2, e2). Ret (arm_error name (f_name f) ?w err2, e2)))
      = obind (body_field body (union_case cases dflt ?w)) (\<lambda>f. obind (field_encode g f (VStruct vs) e1)
        (\<lambda>(_, err2, e2). Ret (arm_error name (f_name f) ?w err2, e2)))
    \<and> obind (body_field body (union_case cases dflt ?w)) (\<lambda>f. obind (field_encode_at G rc f t p e1)
        (\<lambda>(_, err2, e2). Ret (arm_error name (f_name f) ?w err2, e2)))
      = obind (body_field body (union_case cases dflt ?w)) (\<lambda>f. obind (field_encode g f (VStruct vs) e1)
        (\<lambda>(_, err2, e2). Ret (arm_error name (f_name f) ?w err2, e2)))"
    if u: "union_case cases dflt ?w \<noteq> -1" for e1
  proof -
    obtain f' where f': "body_field body (union_case cases dflt ?w) = Ret f'" "Some f' \<in> set body"
      using arm_selected [OF arms u] by metis
    then have "field_same G rc g t fs p vs f'" using f by simp
    note s' = field_step [OF t this]
    show ?thesis using f'(1) by (cases "field_encode g f' (VStruct vs) e1") (auto simp: s')
  qed
  have v: "fst x = vs ! f_index sw" if "field_encode g sw (VStruct vs) e = Ret x" for x
    using that i by (auto simp: field_encode_def reflected_def)
  show "unionCodec_encodeUnsafe rc M name sw body cases dflt sk p e
      = union_encodeReflect g name sw body cases dflt sk (VStruct vs) e"
    using v arm unfolding unionCodec_encodeUnsafe_def union_encodeReflect_def s Let_def
    by (cases "field_encode g sw (VStruct vs) e") (auto simp: w(1))
  show "union_encodeReflect_at G rc M name sw body cases dflt sk t p e
      = union_encodeReflect g name sw body cases dflt sk (VStruct vs) e"
    using v arm unfolding union_encodeReflect_at_def union_encodeReflect_def s Let_def
    by (cases "field_encode g sw (VStruct vs) e") (auto simp: w)
qed

section \<open>Pointers and optional values\<close>

lemma repr_nil:
  assumes "repr fl G M Z t p v" "v_IsNil v = Some b" "g_word G > 0"
  shows "m_cell M p = 0 \<longleftrightarrow> b" "nil_at G M t p = Ret b"
  using assms by (cases rule: repr.cases; auto simp: nil_at_def struct_kind)+

lemma ptr_same:
  assumes "kind (g_types G) t = KPtr" "elem_type (g_types G) t = Some e" "repr fl G M Z t p v"
    "\<And>q x e'. repr fl G M Z e q x \<Longrightarrow> rc c Unsafe q e' = g x e'"
  shows "ptrCodec_encodeUnsafe M (rc c Unsafe) p e' = ptrCodec_Encode g v e'"
    "ptrCodec_Encode_at G M rc c t p e' = ptrCodec_Encode g v e'"
  using assms(3,4) by (auto simp: repr_kind(15) [OF assms(1,2)] ptrCodec_encodeUnsafe_def ptrCodec_Encode_def
      ptrCodec_Encode_at_def nil_at_def assms(1) reflected_def)

lemma opt_same:
  assumes "repr fl G M Z t p v" "v_IsNil v = Some b" "\<And>e'. rc c Unsafe p e' = g v e'" "\<And>e'. rc c (Reflect t a) p e' = g v e'"
  shows "optCodec_encodeUnsafe E M (rc c Unsafe) p e' = optCodec_Encode E g v e'"
    "optCodec_Encode_at G E M rc c t a p e' = optCodec_Encode E g v e'"
proof -
  have n: "(m_cell M p = 0) = b" "nil_at G M t p = Ret b" by (rule repr_nil [OF assms(1,2) g_word_pos])+
  show "optCodec_encodeUnsafe E M (rc c Unsafe) p e' = optCodec_Encode E g v e'"
    unfolding optCodec_encodeUnsafe_def optCodec_Encode_def Let_def n assms(2,3) reflected_def by simp
  show "optCodec_Encode_at G E M rc c t a p e' = optCodec_Encode E g v e'"
    unfolding optCodec_Encode_at_def optCodec_Encode_def Let_def n assms(2,4) reflected_def by simp
qed

section \<open>The equivalence\<close>

text \<open>A codec is called through \<open>encodeUnsafe\<close> if it has the method, else on its type.\<close>

definition called_on :: "gtype \<Rightarrow> codec \<Rightarrow> entry \<Rightarrow> bool" where
  "called_on t c en \<longleftrightarrow> (case en of Unsafe \<Rightarrow> codecUnsafe c | Reflect t' a \<Rightarrow> t' = t)"

lemma called_simps [simp]:
  "called_on t c Unsafe \<longleftrightarrow> codecUnsafe c" "called_on t c (Reflect t' a) \<longleftrightarrow> t' = t"
  by (simp_all add: called_on_def)

text \<open>At one bound on the depth of calls, with any value the memory represents.\<close>

definition agrees_at ::
  "genv \<Rightarrow> hooks \<Rightarrow> 'e encoder_fn \<Rightarrow> memory \<Rightarrow> nat set \<Rightarrow> nat \<Rightarrow> gtype \<Rightarrow> codec \<Rightarrow> bool" where
  "agrees_at G H E M Z n t c \<longleftrightarrow> (\<forall>en p v e. called_on t c en \<longrightarrow> repr exact G M Z t p v \<longrightarrow>
     uenc n G H E M c en p e = enc n G E c v e)"

lemma agrees_atI:
  assumes "\<And>p v e. repr exact G M Z t p v \<Longrightarrow>
      (codecUnsafe c \<longrightarrow> uenc n G H E M c Unsafe p e = enc n G E c v e)
    \<and> (\<forall>a. uenc n G H E M c (Reflect t a) p e = enc n G E c v e)"
  shows "agrees_at G H E M Z n t c"
  unfolding agrees_at_def
proof (intro allI impI)
  fix en p v e assume "called_on t c en" "repr exact G M Z t p v"
  then show "uenc n G H E M c en p e = enc n G E c v e" using assms by (cases en) auto
qed

lemma agrees_atD:
  assumes "agrees_at G H E M Z n t c" "repr exact G M Z t p v"
  shows "codecUnsafe c \<Longrightarrow> uenc n G H E M c Unsafe p e = enc n G E c v e"
    "uenc n G H E M c (Reflect t a) p e = enc n G E c v e"
  using assms by (simp_all add: agrees_at_def)

lemmas encoders = encode_unsafe_def encode_reflect_def enc_unfold

lemma prims_agree:
  assumes "(kind (g_types G) t, c) \<in> {(KBool, CBool), (KInt8, CInt8), (KInt16, CInt16), (KInt32, CInt32),
     (KUint8, CUint8), (KUint16, CUint16), (KUint32, CUint32), (KInt64, CHyper), (KUint64, CUhyper),
     (KFloat32, CFloat), (KFloat64, CDouble), (KComplex64, CComplex64), (KComplex128, CComplex128)}"
  shows "agrees_at G H E M Z (Suc n) t c"
  by (rule agrees_atI) (use prim_same [OF assms] in auto)

lemma loaded_agree:
  shows "kind (g_types G) t = KString \<Longrightarrow> agrees_at G H E M Z (Suc n) t (CFixedString k)"
    and "kind (g_types G) t = KString \<Longrightarrow> agrees_at G H E M Z (Suc n) t (CVarString m om)"
    and "kind (g_types G) t = KMap \<Longrightarrow> agrees_at G H E M Z (Suc n) t (CMap kc vc kt et m om)"
proof -
  have l: "load G M t p = v" if "repr exact G M Z t p v" "kind (g_types G) t \<in> {KString, KMap}" for p v
    using that by (intro load_repr) (auto simp: loadable_def)
  show "agrees_at G H E M Z (Suc n) t (CFixedString k)" if "kind (g_types G) t = KString"
    by (rule agrees_atI) (use string_same(1) [OF that] l that in \<open>simp add: encoders\<close>)
  show "agrees_at G H E M Z (Suc n) t (CVarString m om)" if "kind (g_types G) t = KString"
    by (rule agrees_atI) (use string_same(2) [OF that] l that in \<open>simp add: encoders\<close>)
  show "agrees_at G H E M Z (Suc n) t (CMap kc vc kt et m om)" if "kind (g_types G) t = KMap"
    by (rule agrees_atI) (use l that in \<open>simp add: encoders\<close>)
qed

lemma opaque_agree:
  assumes "go_env (g_types G)" "go_type (g_types G) t" "byte_kind (g_types G) t"
  shows "kind (g_types G) t = KArray \<Longrightarrow> array_len (g_types G) t = Some k \<Longrightarrow>
      agrees_at G H E M Z (Suc n) t (COpaqueArray t k)"
    and "kind (g_types G) t = KSlice \<Longrightarrow> agrees_at G H E M Z (Suc n) t (COpaqueSlice t m om)"
proof -
  show "agrees_at G H E M Z (Suc n) t (COpaqueArray t k)"
    if k: "kind (g_types G) t = KArray" "array_len (g_types G) t = Some k"
    by (rule agrees_atI) (use opaque_same(1) [OF assms _ k, of exact M Z] k assms(3) in
      \<open>auto simp: encoders opaqueArrayCodec_encodeUnsafe_def opaqueArrayCodec_Encode_at_def reflected_def\<close>)
  show "agrees_at G H E M Z (Suc n) t (COpaqueSlice t m om)" if k: "kind (g_types G) t = KSlice"
    by (rule agrees_atI) (use opaque_same(2) [OF assms _ k, of exact M Z] k assms(3) in
      \<open>auto simp: encoders opaqueSliceCodec_Encode_at_def\<close>)
qed

lemma parts_agree:
  assumes elem: "elem_type (g_types G) t = Some e" and sz: "sz = size_of (g_word G) (g_types G) e"
    and c: "codecUnsafe c" "agrees_at G H E M Z n e c"
  shows "kind (g_types G) t = KArray \<Longrightarrow> array_len (g_types G) t = Some k \<Longrightarrow>
      agrees_at G H E M Z (Suc n) t (CArray c k sz)"
    and "kind (g_types G) t = KSlice \<Longrightarrow> agrees_at G H E M Z (Suc n) t (CSlice c e m sz om)"
    and "kind (g_types G) t = KPtr \<Longrightarrow> agrees_at G H E M Z (Suc n) t (CPtr c e)"
proof -
  note f = agrees_atD [OF c(2)]
  show "agrees_at G H E M Z (Suc n) t (CArray c k sz)"
    if k: "kind (g_types G) t = KArray" "array_len (g_types G) t = Some k"
    by (rule agrees_atI) (use array_same [OF k(1) elem k(2) _ sz, of exact M Z _ _ _ "enc n G E c"] f c k elem sz in
      \<open>simp add: encoders arrayCodec_encodeUnsafe_def arrayCodec_Encode_at_def elem_of_def reflected_def\<close>)
  show "agrees_at G H E M Z (Suc n) t (CSlice c e m sz om)" if k: "kind (g_types G) t = KSlice"
    by (rule agrees_atI) (use slice_same [OF k elem _ sz, of exact M Z _ _ _ "enc n G E c"] f c k elem sz in
      \<open>simp add: encoders sliceCodec_Encode_at_def elem_of_def\<close>)
  show "agrees_at G H E M Z (Suc n) t (CPtr c e)" if k: "kind (g_types G) t = KPtr"
    by (rule agrees_atI) (use ptr_same [OF k elem, of exact M Z _ _ "uenc n G H E M" c "enc n G E c"] f(1) c(1) in
      \<open>simp add: encoders\<close>)
qed

lemma opt_agree:
  assumes "of_type (g_types G) t z" "v_IsNil z = Some True" "codecUnsafe c" "agrees_at G H E M Z n t c"
  shows "agrees_at G H E M Z (Suc n) t (COpt c nilp)"
proof (rule agrees_atI)
  fix p v e assume r: "repr exact G M Z t p v"
  obtain b where b: "v_IsNil v = Some b" using nilable [OF assms(1,2) repr_of_type [OF r]] by blast
  note f = agrees_atD [OF assms(4) r]
  show "(codecUnsafe (COpt c nilp) \<longrightarrow>
      uenc (Suc n) G H E M (COpt c nilp) Unsafe p e = enc (Suc n) G E (COpt c nilp) v e) \<and>
    (\<forall>a. uenc (Suc n) G H E M (COpt c nilp) (Reflect t a) p e = enc (Suc n) G E (COpt c nilp) v e)"
    using opt_same [OF r b, of "uenc n G H E M" c "enc n G E c", OF f(1) [OF assms(3)] f(2)] by (simp add: encoders)
qed

lemma fields_agree:
  assumes t: "struct_fields (g_types G) t = Some fs" and r: "repr exact G M Z t p (VStruct vs)"
    and i: "f_index f < length fs" "f_offset f = field_offset (g_word G) (g_types G) t (f_index f)"
    and c: "codecUnsafe (f_codec f)" "agrees_at G H E M Z n (fld_type (fs ! f_index f)) (f_codec f)"
  shows "field_same G (uenc n G H E M) (enc n G E) t fs p vs f"
  using r i c(1) agrees_atD [OF c(2)] by (simp add: repr_kind(18) [OF t] field_same_def)

lemma struct_agree:
  assumes t: "struct_fields (g_types G) t = Some fs"
    and f: "\<And>f. f \<in> set fds \<Longrightarrow> f_index f < length fs"
      "\<And>f. f \<in> set fds \<Longrightarrow> f_offset f = field_offset (g_word G) (g_types G) t (f_index f)"
      "\<And>f. f \<in> set fds \<Longrightarrow> codecUnsafe (f_codec f)"
      "\<And>f. f \<in> set fds \<Longrightarrow> agrees_at G H E M Z n (fld_type (fs ! f_index f)) (f_codec f)"
  shows "agrees_at G H E M Z (Suc n) t (CStruct name fds)"
proof (rule agrees_atI, goal_cases)
  case (1 p v e)
  then obtain vs where v: "v = VStruct vs" "length vs = length fs" by (auto simp: repr_kind(18) [OF t])
  have "\<forall>f\<in>set fds. field_same G (uenc n G H E M) (enc n G E) t fs p vs f"
    by (intro ballI fields_agree [OF t 1 [unfolded v(1)]] f)
  from struct_same [OF t v(2) this] show ?case using v(1) by (simp add: encoders structCodec_Encode_at_def)
qed

lemma union_agree:
  assumes t: "struct_fields (g_types G) t = Some fs" and arms: "arms_ok body cases dflt"
    and sk: "(sk, kind (g_types G) (fld_type (fs ! f_index sw))) \<in> set switch_kinds"
    and f: "\<And>f. f \<in> insert sw {f. Some f \<in> set body} \<Longrightarrow> f_index f < length fs"
      "\<And>f. f \<in> insert sw {f. Some f \<in> set body} \<Longrightarrow>
         f_offset f = field_offset (g_word G) (g_types G) t (f_index f)"
      "\<And>f. f \<in> insert sw {f. Some f \<in> set body} \<Longrightarrow> codecUnsafe (f_codec f)"
      "\<And>f. f \<in> insert sw {f. Some f \<in> set body} \<Longrightarrow>
         agrees_at G H E M Z n (fld_type (fs ! f_index f)) (f_codec f)"
  shows "agrees_at G H E M Z (Suc n) t (CUnion name sw body cases dflt sk)"
proof (rule agrees_atI, goal_cases)
  case (1 p v e)
  then obtain vs where v: "v = VStruct vs" "length vs = length fs" by (auto simp: repr_kind(18) [OF t])
  have *: "\<forall>f\<in>insert sw {f. Some f \<in> set body}. field_same G (uenc n G H E M) (enc n G E) t fs p vs f"
    by (intro ballI fields_agree [OF t 1 [unfolded v(1)]] f)
  have "repr exact G M Z (fld_type (fs ! f_index sw)) (p + f_offset sw) (vs ! f_index sw)"
    using 1 f(1,2) [of sw] v by (auto simp: repr_kind(18) [OF t])
  from union_same [OF t v(2) arms * sk this] show ?case
    using v(1) by (simp add: encoders unionCodec_Encode_at_def)
qed

lemma through_agree:
  assumes "\<And>c. g_real G k = Some c \<Longrightarrow> codecUnsafe c" "\<And>c. g_real G k = Some c \<Longrightarrow> agrees_at G H E M Z n t c"
  shows "agrees_at G H E M Z (Suc n) t (CDeferred k)"
proof (cases "g_real G k")
  case None
  then show ?thesis
    by (intro agrees_atI) (simp add: encoders deferredCodec_encodeUnsafe_def deferredCodec_Encode_def)
next
  case (Some c)
  note f = agrees_atD [OF assms(2) [OF Some]]
  show ?thesis using f assms(1) [OF Some] Some
    by (intro agrees_atI) (simp add: encoders deferredCodec_encodeUnsafe_def deferredCodec_Encode_def)
qed

lemma encoders_agree:
  assumes env: "typed_env G dt" and "fits G dt t c" "plain G c" "go_type (g_types G) t" and build: "\<not> g_nounsafe G"
  shows "agrees_at G H E M Z n t c"
  using assms(1-4)
proof (induction n t c rule: typed_codec_induct)
  case (wrapper n t c)
  then show ?case unfolding agrees_at_def
    by (auto simp: encoders unsafeCodecWrapper_encodeUnsafe_def called_on_def split: entry.splits)
next
  case (error n t err)
  show ?case by (rule agrees_atI) (simp add: encoders)
qed ((rule prims_agree loaded_agree opaque_agree parts_agree opt_agree struct_agree union_agree through_agree;
    use env build zero_of_type in \<open>auto simp: typed_env_def callable_def plain_byte_kind\<close>)
  | simp add: agrees_at_def)+

lemma uenc_same:
  assumes "typed_env G dt" "\<not> g_nounsafe G" "fits G dt t c" "plain G c" "go_type (g_types G) t" "called_on t c en"
    "repr exact G M Z t p v"
  shows "uenc n G H E M c en p e = enc n G E c v e"
  using encoders_agree [OF assms(1,3-5,2), of H E M Z n] assms(6,7) unfolding agrees_at_def by blast

text \<open>A codec that a coder of the default build hands out, in a later registry.\<close>

lemma default_codec:
  assumes "same_platform P G" "\<not> p_nounsafe P" "handed_out P t c cr" "g_real G = cr_real cr"
    and "\<forall>c'\<in>insert c (ran (cr_real cr)). plain G c'"
  obtains dt where "typed_env G dt" "\<not> g_nounsafe G" "fits G dt t c" "go_type (g_types G) t"
proof -
  obtain dt where "typed_env G dt" "fits G dt t c"
    by (rule handed_out_env [OF assms(1,3,4)]) (use assms(5) in simp)
  then show thesis using that handed_out_fits(1) [OF assms(1,3)] assms(1,2) by (simp add: same_platform_def)
qed

section \<open>Properties\<close>

text \<open>
  C28. The default build encodes through memory what the reflection methods encode from the
  value: with any codec a coder of that build hands out, to any goroutine, on any memory whose block of the
  requested type represents a value, \<open>encodeUnsafe\<close> (where the codec has it) and \<open>Encode\<close>,
  on an addressable variable or not, make the same calls of the encoder with the same
  results, errors and panics included. The codecs involved must not run foreign code, and
  use \<open>opaque\<close> on bytes proper only; floats in memory are not signalling NaNs.
\<close>

theorem default_build_encodes_alike:
  assumes "same_platform P G" and "\<not> p_nounsafe P" and "handed_out P t c cr" and "g_real G = cr_real cr"
    and "\<forall>c'\<in>insert c (ran (cr_real cr)). plain G c'" and "repr exact G M Z t p v"
  shows "(codecUnsafe c \<longrightarrow> uenc m G H E M c Unsafe p e = enc m G E c v e)
    \<and> uenc m G H E M c (Reflect t canAddr) p e = enc m G E c v e"
proof -
  obtain dt where dt: "typed_env G dt" "\<not> g_nounsafe G" "fits G dt t c" and t: "go_type (g_types G) t"
    by (rule default_codec [OF assms(1-5)])
  have c: "plain G c" using assms(5) by simp
  note same = uenc_same [OF dt c t _ assms(6)]
  have "codecUnsafe c \<longrightarrow> uenc m G H E M c Unsafe p e = enc m G E c v e" by (intro impI same) simp
  moreover have "uenc m G H E M c (Reflect t canAddr) p e = enc m G E c v e" by (rule same) simp
  ultimately show ?thesis ..
qed

text \<open>A pointer to an array of two int16, and memory that holds it.\<close>

definition cell_platform :: platform where
  "cell_platform = \<lparr>p_maxInt = 2 ^ 63 - 1, p_types = [], p_nounsafe = False\<rparr>"

definition cell_type :: gtype where "cell_type = GPtr (GArray 2 GInt16)"

definition cell_codec :: codec where "cell_codec = CPtr (CArray CInt16 2 2) (GArray 2 GInt16)"

definition cell_coder :: coder where
  "cell_coder = \<lparr>cr_base = [GInt16 \<mapsto> CInt16, GArray 2 GInt16 \<mapsto> CArray CInt16 2 2, cell_type \<mapsto> cell_codec],
     cr_known = [(GInt16, []) \<mapsto> CInt16, (GArray 2 GInt16, []) \<mapsto> CArray CInt16 2 2, (cell_type, []) \<mapsto> cell_codec],
     cr_next = Suc (Suc (Suc 0)), cr_real = [Suc (Suc 0) \<mapsto> CInt16, 1 \<mapsto> CArray CInt16 2 2, 0 \<mapsto> cell_codec]\<rparr>"

definition cell_env :: genv where
  "cell_env = (plain_env (cr_real cell_coder))\<lparr>g_nounsafe := False\<rparr>"

definition cell_memory :: memory where
  "cell_memory = \<lparr>m_cell = (\<lambda>_. 0)(100 := 200, 200 := 7, 202 := 5), m_next = 300, m_obj = \<lambda>_. VOther\<rparr>"

lemma cell_request: "getCodec 3 cell_platform cell_type [] NewCoder = Ret (cell_codec, cell_coder)"
  by (simp add: numeral_3_eq_3 NewCoder_def getNewCodec_def buildCodec_def makePtrCodec_def makeArrayCodec_def kind_def
      under_def reflect_elem_def elem_type_def array_len_def next_tag_def ByteString_def as_xCodec_def xCodec_def
      reflect_len_def plain_codec_def p_size_def size_of_def word_bytes_def implements_marshaler_def
      toXCodec_def Let_def kind_defs cell_platform_def tag_Empty_def cell_coder_def cell_type_def cell_codec_def)

lemma cell_setting:
  "same_platform cell_platform cell_env" "\<not> p_nounsafe cell_platform"
  "handed_out cell_platform cell_type cell_codec cell_coder" "g_real cell_env = cr_real cell_coder"
  "\<forall>c'\<in>insert cell_codec (ran (cr_real cell_coder)). plain cell_env c'"
proof -
  show "handed_out cell_platform cell_type cell_codec cell_coder"
    by (rule by_getCodec [OF _ _ cell_request]) (simp_all add: reachable_def later_def go_type_def cell_type_def)
  show "\<forall>c'\<in>insert cell_codec (ran (cr_real cell_coder)). plain cell_env c'"
    by (auto simp: cell_codec_def cell_coder_def ran_def)
qed (simp_all add: same_platform_def cell_platform_def cell_env_def plain_env_def go_env_def)

lemma cell_repr:
  "repr exact cell_env cell_memory {200..<204} cell_type 100 (VPtr (Some (VArray [VInt16 7, VInt16 5])))"
proof -
  have s: "size_of (g_word cell_env) (g_types cell_env) GInt16 = 2"
    "block cell_env (GArray 2 GInt16) 200 = {200..<204}"
    by (simp_all add: size_of_def block_def cell_env_def plain_env_def)
  have "repr exact cell_env cell_memory {200..<204} GInt16 (200 + i * 2) ([VInt16 7, VInt16 5] ! i)"
    if "i < 2" for i
  proof -
    have "i = 0 \<or> i = 1" using that by auto
    then show ?thesis by (auto simp: cell_memory_def kind_def under_def intro!: r_int16)
  qed
  then have "repr exact cell_env cell_memory {200..<204} (GArray 2 GInt16) 200 (VArray [VInt16 7, VInt16 5])"
    by (intro r_array [where sz = 2 and e = GInt16]) (simp_all add: s kind_def under_def elem_type_def array_len_def)
  then show ?thesis
    by (intro r_ptr [where q = 200 and e = "GArray 2 GInt16"])
      (simp_all add: s cell_type_def kind_def under_def elem_type_def cell_memory_def)
qed

theorem default_build_encodes_alike_witness:
  "\<exists>e'. uenc 3 cell_env \<lparr>h_marshal = \<lambda>_ _ _. EDone None, h_unmarshal = \<lambda>_ _ M. DDone None M,
       h_foreign_enc = \<lambda>_ _ _. EDone None, h_foreign_dec = \<lambda>_ _ M. DDone None M\<rparr>
     (encoder_call buffer_ops) cell_memory cell_codec Unsafe 100
     \<lparr>enc_w = [], enc_ws = True, enc_cr = 0, enc_cache = [], enc_slot = 3, enc_scratch = []\<rparr> = Ret (None, e')
   \<and> enc_w e' = be32 7 @ be32 5"
proof -
  have u: "codecUnsafe cell_codec" by (simp add: cell_codec_def)
  show ?thesis
    unfolding default_build_encodes_alike [OF cell_setting cell_repr,
      THEN conjunct1, THEN mp, OF u]
    by (simp add: numeral_3_eq_3 cell_codec_def ptrCodec_Encode_def arrayCodec_Encode_def reflected_def
        intCodec_Encode_def EncodeInt_be32 write_to_def buffer_ops_def enc_then_def)
qed

end
