(* ===== verification/UnsafeDec.thy ===== *)
theory UnsafeDec
  imports UnsafeEnc
begin

text \<open>
  The decoding methods of the default build on memory: one definition per \<open>decodeUnsafe\<close>
  method, the \<open>Decode\<close> methods on an addressable variable, given by its address and type,
  and their dispatch \<open>udec\<close>. (The package decodes into addressable variables only: what a
  pointer leads to, what \<open>reflect.New\<close> made, and their parts.) Each method returns the
  memory it leaves, also when it fails. Scalars, strings, and the content of maps are read
  and written by \<open>load\<close> and \<open>store\<close>.
\<close>

section \<open>Calls\<close>

type_synonym 'd decode_at = "nat \<Rightarrow> memory \<Rightarrow> 'd \<Rightarrow> (gerror option \<times> memory \<times> 'd) outcome"
type_synonym 'd decode_call = "codec \<Rightarrow> entry \<Rightarrow> 'd decode_at"

text \<open>\<open>x, err := call(); *p = x; return err\<close>\<close>

definition dec_put :: "'d decoder_fn \<Rightarrow> dec_call \<Rightarrow> (dec_reply \<Rightarrow> memory \<Rightarrow> memory) \<Rightarrow> memory \<Rightarrow> 'd
    \<Rightarrow> (gerror option \<times> memory \<times> 'd) outcome" where
  "dec_put D k put M d = obind (D k d) (\<lambda>(r, err, d'). Ret (err, put r M, d'))"

text \<open>\<open>if x, err := call(); err != nil { return err }\<close> and then \<open>k\<close>.\<close>

definition dec_next :: "('a \<times> gerror option \<times> 'd) outcome \<Rightarrow> memory
    \<Rightarrow> ('a \<Rightarrow> 'd \<Rightarrow> (gerror option \<times> memory \<times> 'd) outcome) \<Rightarrow> (gerror option \<times> memory \<times> 'd) outcome" where
  "dec_next m M k = obind m (\<lambda>(r, err, d'). if err \<noteq> None then Ret (err, M, d') else k r d')"

section \<open>Primitive codecs\<close>

definition boolCodec_decodeUnsafe :: "'d decoder_fn \<Rightarrow> 'd decode_at" where
  "boolCodec_decodeUnsafe D p = dec_put D DecBool (\<lambda>r. st p (if rep_bool r then 1 else 0))"

definition int8Codec_decodeUnsafe :: "'d decoder_fn \<Rightarrow> 'd decode_at" where
  "int8Codec_decodeUnsafe D p = dec_put D DecInt (\<lambda>r. st_word p (ucast (rep32 r) :: u8))"

definition int16Codec_decodeUnsafe :: "'d decoder_fn \<Rightarrow> 'd decode_at" where
  "int16Codec_decodeUnsafe D p = dec_put D DecInt (\<lambda>r. st_word p (ucast (rep32 r) :: u16))"

definition int32Codec_decodeUnsafe :: "'d decoder_fn \<Rightarrow> 'd decode_at" where
  "int32Codec_decodeUnsafe D p = dec_put D DecInt (\<lambda>r. st_word p (rep32 r))"

definition uint8Codec_decodeUnsafe :: "'d decoder_fn \<Rightarrow> 'd decode_at" where
  "uint8Codec_decodeUnsafe D p = dec_put D DecUnsignedInt (\<lambda>r. st_word p (ucast (rep32 r) :: u8))"

definition uint16Codec_decodeUnsafe :: "'d decoder_fn \<Rightarrow> 'd decode_at" where
  "uint16Codec_decodeUnsafe D p = dec_put D DecUnsignedInt (\<lambda>r. st_word p (ucast (rep32 r) :: u16))"

definition uint32Codec_decodeUnsafe :: "'d decoder_fn \<Rightarrow> 'd decode_at" where
  "uint32Codec_decodeUnsafe D p = dec_put D DecUnsignedInt (\<lambda>r. st_word p (rep32 r))"

definition hyperCodec_decodeUnsafe :: "'d decoder_fn \<Rightarrow> 'd decode_at" where
  "hyperCodec_decodeUnsafe D p = dec_put D DecHyper (\<lambda>r. st_word p (rep64 r))"

definition uhyperCodec_decodeUnsafe :: "'d decoder_fn \<Rightarrow> 'd decode_at" where
  "uhyperCodec_decodeUnsafe D p = dec_put D DecUnsignedHyper (\<lambda>r. st_word p (rep64 r))"

definition floatCodec_decodeUnsafe :: "'d decoder_fn \<Rightarrow> 'd decode_at" where
  "floatCodec_decodeUnsafe D p = dec_put D DecFloat (\<lambda>r. st_word p (rep32 r))"

definition doubleCodec_decodeUnsafe :: "'d decoder_fn \<Rightarrow> 'd decode_at" where
  "doubleCodec_decodeUnsafe D p = dec_put D DecDouble (\<lambda>r. st_word p (rep64 r))"

definition complex64Codec_decodeUnsafe :: "'d decoder_fn \<Rightarrow> 'd decode_at" where
  "complex64Codec_decodeUnsafe D p M d = dec_next (D DecFloat d) M (\<lambda>re d1.
     dec_next (D DecFloat d1) M (\<lambda>im d2. Ret (None, st_word (p + 4) (rep32 im) (st_word p (rep32 re) M), d2)))"

definition complex128Codec_decodeUnsafe :: "'d decoder_fn \<Rightarrow> 'd decode_at" where
  "complex128Codec_decodeUnsafe D p M d = dec_next (D DecDouble d) M (\<lambda>re d1.
     dec_next (D DecDouble d1) M (\<lambda>im d2. Ret (None, st_word (p + 8) (rep64 im) (st_word p (rep64 re) M), d2)))"

section \<open>Strings, arrays and slices\<close>

definition fixedStringCodec_decodeUnsafe :: "nat \<Rightarrow> nat \<Rightarrow> 'd decoder_fn \<Rightarrow> 'd decode_at" where
  "fixedStringCodec_decodeUnsafe w len D p = dec_put D (DecFixedString len) (\<lambda>r. st_string w p (rep_bytes r))"

definition varStringCodec_decodeUnsafe :: "nat \<Rightarrow> nat \<Rightarrow> u32 \<Rightarrow> 'd decoder_fn \<Rightarrow> 'd decode_at" where
  "varStringCodec_decodeUnsafe w maxlen origMax D p M d =
     obind (varString_decode maxlen origMax D d) (\<lambda>(s, err, d'). Ret (err, st_string w p s M, d'))"

text \<open>The bytes are read into the array itself.\<close>

definition opaqueArrayCodec_decodeUnsafe :: "nat \<Rightarrow> 'd decoder_fn \<Rightarrow> 'd decode_at" where
  "opaqueArrayCodec_decodeUnsafe len D p M d =
     dec_put D (DecFixedOpaque (bytes_at M p len)) (\<lambda>r. st_bytes p (rep_bytes r)) M d"

fun dec_cells :: "'d decode_at \<Rightarrow> nat \<Rightarrow> nat \<Rightarrow> 'd decode_at" where
  "dec_cells f sz 0 p M d = Ret (None, M, d)"
| "dec_cells f sz (Suc n) p M d = obind (f p M d) (\<lambda>(err, M', d').
     if err \<noteq> None then Ret (err, M', d') else dec_cells f sz n (p + sz) M' d')"

definition arrayCodec_decodeUnsafe :: "'d decode_at \<Rightarrow> nat \<Rightarrow> nat \<Rightarrow> 'd decode_at" where
  "arrayCodec_decodeUnsafe elem len sz p = dec_cells elem sz len p"

definition opaqueSliceCodec_decodeUnsafe :: "nat \<Rightarrow> nat \<Rightarrow> 'd decoder_fn \<Rightarrow> 'd decode_at" where
  "opaqueSliceCodec_decodeUnsafe w maxlen D p = dec_put D (DecOpaque maxlen) (\<lambda>r. st_byte_slice w p (rep_bytes r))"

text \<open>\<open>sz\<close> is \<open>c.size\<close>, the size of the elements, of which \<open>MakeSlice\<close> allocates as many as the input says.\<close>

definition sliceCodec_decodeUnsafe ::
  "genv \<Rightarrow> nat \<Rightarrow> nat \<Rightarrow> u32 \<Rightarrow> 'd decoder_fn \<Rightarrow> 'd decode_at \<Rightarrow> 'd decode_at" where
  "sliceCodec_decodeUnsafe G maxlen sz origMax D elem p M d = dec_next (D DecUnsignedInt d) M (\<lambda>r d1.
     let l = rep32 r in
     if l = 0 then Ret (None, st_header (g_word G) p 0 0 M, d1)
     else if l > word_of_nat maxlen then Ret (Some (LengthError (ucast l) (ucast origMax)), M, d1)
     else obind (newarray G sz (unat l)) (\<lambda>_. case alloc (unat l * sz) M of (q, M1) \<Rightarrow>
       dec_cells elem sz (unat l) q (st_header (g_word G) p q (unat l) M1) d1))"

section \<open>Pointers and optional values\<close>

text \<open>\<open>sz\<close> is the size of what the pointer leads to.\<close>

definition ptrCodec_decodeUnsafe :: "nat \<Rightarrow> 'd decode_at \<Rightarrow> 'd decode_at" where
  "ptrCodec_decodeUnsafe sz elem p M d = (case alloc sz M of (q, M1) \<Rightarrow> elem q (st p q M1) d)"

definition optCodec_decodeUnsafe :: "'d decoder_fn \<Rightarrow> 'd decode_at \<Rightarrow> 'd decode_at" where
  "optCodec_decodeUnsafe D elem p M d = dec_next (D DecBool d) M (\<lambda>r d1.
     if rep_bool r then elem p M d1 else Ret (None, st p 0 M, d1))"

section \<open>Structs and unions\<close>

definition field_decodeUnsafe ::
  "'d decode_call \<Rightarrow> codec field \<Rightarrow> nat \<Rightarrow> memory \<Rightarrow> 'd \<Rightarrow> (nat \<times> gerror option \<times> memory \<times> 'd) outcome" where
  "field_decodeUnsafe rc f pparent M d = (let p = pparent + f_offset f in
     obind (rc (f_codec f) Unsafe p M d) (\<lambda>(err, M', d'). Ret (p, err, M', d')))"

fun structCodec_decodeUnsafe :: "'d decode_call \<Rightarrow> string \<Rightarrow> codec field list \<Rightarrow> 'd decode_at" where
  "structCodec_decodeUnsafe rc name [] p M d = Ret (None, M, d)"
| "structCodec_decodeUnsafe rc name (f # fs) p M d =
     obind (field_decodeUnsafe rc f p M d) (\<lambda>(_, err, M', d').
       if err \<noteq> None then Ret (WithFieldError err [name, f_name f], M', d')
       else structCodec_decodeUnsafe rc name fs p M' d')"

definition unionCodec_decodeUnsafe ::
  "'d decode_call \<Rightarrow> string \<Rightarrow> codec field \<Rightarrow> codec field option list \<Rightarrow> (u32 \<times> nat) list
     \<Rightarrow> int \<Rightarrow> switch_kind \<Rightarrow> 'd decode_at" where
  "unionCodec_decodeUnsafe rc name switchField bodyFields cases defaultCase switchKind p M d =
     obind (field_decodeUnsafe rc switchField p M d) (\<lambda>(swp, err, M1, d1).
       if err \<noteq> None then Ret (WithFieldError err [name, f_name switchField, ''union:switch''], M1, d1)
       else let swVal = swVal_at switchKind M1 swp; caseField = union_case cases defaultCase swVal in
         if caseField = -1 then Ret (undefined_arm name caseField, M1, d1)
         else obind (body_field bodyFields caseField) (\<lambda>f.
           obind (field_decodeUnsafe rc f p M1 d1) (\<lambda>(_, err2, M2, d2).
             Ret (arm_error name (f_name f) swVal err2, M2, d2))))"

section \<open>Special codecs\<close>

definition deferredCodec_decodeUnsafe :: "genv \<Rightarrow> nat \<Rightarrow> 'd decode_call \<Rightarrow> 'd decode_at" where
  "deferredCodec_decodeUnsafe G k rc p M d = (case g_real G k of None \<Rightarrow> Blocked | Some c \<Rightarrow> rc c Unsafe p M d)"

definition unsafeCodecWrapper_decodeUnsafe :: "'d decode_call \<Rightarrow> codec \<Rightarrow> gtype \<Rightarrow> 'd decode_at" where
  "unsafeCodecWrapper_decodeUnsafe rc c t p M d = rc c (Reflect t True) p M d"

section \<open>Decode on an addressable reflect.Value\<close>

text \<open>A method that works on the value of the variable.\<close>

definition via_value :: "genv \<Rightarrow> gtype \<Rightarrow> 'd decode_fn \<Rightarrow> 'd decode_at" where
  "via_value G t f p M d = obind (f (load G M t p) d) (\<lambda>(err, v, d'). Ret (err, store G p v M, d'))"

definition opaqueArrayCodec_Decode_at :: "genv \<Rightarrow> 'd decoder_fn \<Rightarrow> gtype \<Rightarrow> 'd decode_at" where
  "opaqueArrayCodec_Decode_at G D t p M d =
     (if byte_kind (g_types G) t \<and> kind (g_types G) t = KArray
      then obind (reflected (array_len (g_types G) t)) (\<lambda>n. opaqueArrayCodec_decodeUnsafe n D p M d)
      else reflected None)"

definition arrayCodec_Decode_at :: "genv \<Rightarrow> 'd decode_call \<Rightarrow> codec \<Rightarrow> gtype \<Rightarrow> 'd decode_at" where
  "arrayCodec_Decode_at G rc c t p M d = obind (elem_of G KArray t) (\<lambda>(et, sz).
     obind (reflected (array_len (g_types G) t)) (\<lambda>n. dec_cells (rc c (Reflect et True)) sz n p M d))"

definition opaqueSliceCodec_Decode_at :: "genv \<Rightarrow> nat \<Rightarrow> 'd decoder_fn \<Rightarrow> gtype \<Rightarrow> 'd decode_at" where
  "opaqueSliceCodec_Decode_at G maxlen D t p M d = obind (D (DecOpaque maxlen) d) (\<lambda>(r, err, d').
     if elem_type (g_types G) t \<noteq> Some GUint8 then Panic ''reflect.Set: value of type []uint8 is not assignable''
     else Ret (err, st_byte_slice (g_word G) p (rep_bytes r) M, d'))"

text \<open>\<open>v.Set\<close> of a slice or a pointer of the codec's type to a variable of another type panics.\<close>

definition sliceCodec_Decode_at ::
  "genv \<Rightarrow> nat \<Rightarrow> u32 \<Rightarrow> 'd decoder_fn \<Rightarrow> 'd decode_call \<Rightarrow> codec \<Rightarrow> gtype \<Rightarrow> 'd decode_at" where
  "sliceCodec_Decode_at G maxlen origMax D rc c t p M d = obind (elem_of G KSlice t) (\<lambda>(et, sz).
     sliceCodec_decodeUnsafe G maxlen sz origMax D (rc c (Reflect et True)) p M d)"

definition ptrCodec_Decode_at :: "genv \<Rightarrow> 'd decode_call \<Rightarrow> codec \<Rightarrow> gtype \<Rightarrow> 'd decode_at" where
  "ptrCodec_Decode_at G rc c t p M d = obind (elem_of G KPtr t) (\<lambda>(et, sz).
     ptrCodec_decodeUnsafe sz (rc c Unsafe) p M d)"

text \<open>\<open>Decode\<close> first sets the variable to nil, a nil of as many words as the type has.\<close>

definition st_nil :: "genv \<Rightarrow> gtype \<Rightarrow> nat \<Rightarrow> memory \<Rightarrow> memory outcome" where
  "st_nil G t p M = (case kind (g_types G) t of
      KPtr \<Rightarrow> Ret (st p 0 M) | KMap \<Rightarrow> Ret (st p 0 M) | KInterface \<Rightarrow> Ret (st p 0 M)
    | KSlice \<Rightarrow> Ret (st_header (g_word G) p 0 0 M) | _ \<Rightarrow> reflected None)"

definition optCodec_Decode_at :: "genv \<Rightarrow> 'd decoder_fn \<Rightarrow> 'd decode_call \<Rightarrow> codec \<Rightarrow> gtype \<Rightarrow> 'd decode_at" where
  "optCodec_Decode_at G D rc c t p M d = obind (st_nil G t p M) (\<lambda>M1.
     dec_next (D DecBool d) M1 (\<lambda>r d1.
       if rep_bool r then rc c (Reflect t True) p M1 d1
       else obind (st_nil G t p M1) (\<lambda>M2. Ret (None, M2, d1))))"

definition marshalerCodec_Decode_at :: "genv \<Rightarrow> hooks \<Rightarrow> 'd decoder_fn \<Rightarrow> gtype \<Rightarrow> 'd decode_at" where
  "marshalerCodec_Decode_at G H D t p M d =
     (if kind (g_types G) t = KInterface \<and> m_cell M p = 0 then Panic ''interface conversion: interface is nil''
      else run_dec D (h_unmarshal H t p M) d)"

text \<open>\<open>Decode\<close> of structs and unions: the address of the addressable value.\<close>

definition structCodec_Decode_at :: "'d decode_call \<Rightarrow> string \<Rightarrow> codec field list \<Rightarrow> 'd decode_at" where
  [simp]: "structCodec_Decode_at rc name fs = structCodec_decodeUnsafe rc name fs"

definition unionCodec_Decode_at ::
  "'d decode_call \<Rightarrow> string \<Rightarrow> codec field \<Rightarrow> codec field option list \<Rightarrow> (u32 \<times> nat) list
     \<Rightarrow> int \<Rightarrow> switch_kind \<Rightarrow> 'd decode_at" where
  [simp]: "unionCodec_Decode_at rc name sw body cases dflt sk = unionCodec_decodeUnsafe rc name sw body cases dflt sk"

section \<open>Dispatch\<close>

definition decode_unsafe :: "genv \<Rightarrow> 'd decoder_fn \<Rightarrow> 'd decode_call \<Rightarrow> codec \<Rightarrow> 'd decode_at" where
  "decode_unsafe G D rc c = (case c of
      CBool \<Rightarrow> boolCodec_decodeUnsafe D | CInt8 \<Rightarrow> int8Codec_decodeUnsafe D
    | CInt16 \<Rightarrow> int16Codec_decodeUnsafe D | CInt32 \<Rightarrow> int32Codec_decodeUnsafe D
    | CUint8 \<Rightarrow> uint8Codec_decodeUnsafe D | CUint16 \<Rightarrow> uint16Codec_decodeUnsafe D
    | CUint32 \<Rightarrow> uint32Codec_decodeUnsafe D | CHyper \<Rightarrow> hyperCodec_decodeUnsafe D
    | CUhyper \<Rightarrow> uhyperCodec_decodeUnsafe D | CFloat \<Rightarrow> floatCodec_decodeUnsafe D
    | CDouble \<Rightarrow> doubleCodec_decodeUnsafe D | CComplex64 \<Rightarrow> complex64Codec_decodeUnsafe D
    | CComplex128 \<Rightarrow> complex128Codec_decodeUnsafe D
    | CFixedString len \<Rightarrow> fixedStringCodec_decodeUnsafe (g_word G) len D
    | CVarString maxlen om \<Rightarrow> varStringCodec_decodeUnsafe (g_word G) maxlen om D
    | COpaqueArray t len \<Rightarrow> opaqueArrayCodec_decodeUnsafe len D
    | CArray ec len sz \<Rightarrow> arrayCodec_decodeUnsafe (rc ec Unsafe) len sz
    | COpaqueSlice t maxlen om \<Rightarrow> opaqueSliceCodec_decodeUnsafe (g_word G) maxlen D
    | CSlice ec et maxlen sz om \<Rightarrow> sliceCodec_decodeUnsafe G maxlen sz om D (rc ec Unsafe)
    | CPtr ec et \<Rightarrow> ptrCodec_decodeUnsafe (size_of (g_word G) (g_types G) et) (rc ec Unsafe)
    | COpt ec nilp \<Rightarrow> optCodec_decodeUnsafe D (rc ec Unsafe)
    | CStruct name fs \<Rightarrow> structCodec_decodeUnsafe rc name fs
    | CUnion name sw body cases dflt sk \<Rightarrow> unionCodec_decodeUnsafe rc name sw body cases dflt sk
    | CDeferred k \<Rightarrow> deferredCodec_decodeUnsafe G k rc
    | CWrapper wc t \<Rightarrow> unsafeCodecWrapper_decodeUnsafe rc wc t
    | _ \<Rightarrow> (\<lambda>p M d. no_method))"

text \<open>\<open>dv\<close> decodes into values, for the keys and elements of maps.\<close>

definition decode_reflect ::
  "genv \<Rightarrow> hooks \<Rightarrow> 'd decoder_fn \<Rightarrow> 'd decode_call \<Rightarrow> (codec \<Rightarrow> 'd decode_fn) \<Rightarrow> codec \<Rightarrow> gtype \<Rightarrow> 'd decode_at" where
  "decode_reflect G H D rc dv c t = (case c of
      CBool \<Rightarrow> via_value G t (boolCodec_Decode D)
    | CInt8 \<Rightarrow> via_value G t (intCodec_Decode D) | CInt16 \<Rightarrow> via_value G t (intCodec_Decode D)
    | CInt32 \<Rightarrow> via_value G t (intCodec_Decode D) | CUint8 \<Rightarrow> via_value G t (uintCodec_Decode D)
    | CUint16 \<Rightarrow> via_value G t (uintCodec_Decode D) | CUint32 \<Rightarrow> via_value G t (uintCodec_Decode D)
    | CHyper \<Rightarrow> via_value G t (hyperCodec_Decode D) | CUhyper \<Rightarrow> via_value G t (uhyperCodec_Decode D)
    | CFloat \<Rightarrow> via_value G t (floatCodec_Decode D) | CDouble \<Rightarrow> via_value G t (doubleCodec_Decode D)
    | CComplex64 \<Rightarrow> via_value G t (complex64Codec_Decode D)
    | CComplex128 \<Rightarrow> via_value G t (complex128Codec_Decode D)
    | CFixedString len \<Rightarrow> via_value G t (fixedStringCodec_Decode len D)
    | CVarString maxlen om \<Rightarrow> via_value G t (varStringCodec_Decode maxlen om D)
    | COpaqueArray ot len \<Rightarrow> opaqueArrayCodec_Decode_at G D t
    | CArray ec len sz \<Rightarrow> arrayCodec_Decode_at G rc ec t
    | COpaqueSlice ot maxlen om \<Rightarrow> opaqueSliceCodec_Decode_at G maxlen D t
    | CSlice ec et maxlen sz om \<Rightarrow> sliceCodec_Decode_at G maxlen om D rc ec t
    | CPtr ec et \<Rightarrow> ptrCodec_Decode_at G rc ec t
    | COpt ec nilp \<Rightarrow> optCodec_Decode_at G D rc ec t
    | CMap kc vc kt vt maxlen om \<Rightarrow> via_value G t (mapCodec_Decode G kt vt maxlen om D (dv kc) (dv vc))
    | CStruct name fs \<Rightarrow> structCodec_Decode_at rc name fs
    | CUnion name sw body cases dflt sk \<Rightarrow> unionCodec_Decode_at rc name sw body cases dflt sk
    | CError err \<Rightarrow> (\<lambda>p M d. Ret (Some err, M, d))
    | CDeferred k \<Rightarrow> (\<lambda>p M d. case g_real G k of None \<Rightarrow> Blocked | Some c \<Rightarrow> rc c (Reflect t True) p M d)
    | CMarshaler mt \<Rightarrow> marshalerCodec_Decode_at G H D t
    | CForeign k \<Rightarrow> (\<lambda>p M d. run_dec D (h_foreign_dec H k p M) d)
    | CWrapper wc wt \<Rightarrow> rc wc (Reflect t True))"

primrec udec :: "nat \<Rightarrow> genv \<Rightarrow> hooks \<Rightarrow> 'd decoder_fn \<Rightarrow> 'd decode_call" where
  "udec 0 G H D c en p M d = Spent"
| "udec (Suc n) G H D c en p M d = (case en of
      Unsafe \<Rightarrow> decode_unsafe G D (udec n G H D) c p M d
    | Reflect t a \<Rightarrow> decode_reflect G H D (udec n G H D) (dec n G D) c t p M d)"

end
