(* ===== verification/MemSteps.thy ===== *)
theory MemSteps
  imports UnsafeDec UnsafeEncEq
begin

text \<open>
  Writing to memory. A step changes the cells of one block and what lies beyond the
  allocated memory, nothing else; blocks that are apart keep what they represent. Then what
  zeroed memory represents, storing the value of a variable, and allocation. These are the
  tools for comparing decoding into memory with decoding into values.
\<close>

section \<open>Steps\<close>

definition changes :: "nat set \<Rightarrow> memory \<Rightarrow> memory \<Rightarrow> bool" where
  "changes A M M' \<longleftrightarrow> m_next M \<le> m_next M' \<and> agree_on M M' ({..<m_next M} - A)"

lemma changes_refl [simp]: "changes A M M"
  by (simp add: changes_def agree_on_def)

lemma changes_trans:
  assumes "changes A M M1" "changes B M1 M2" "A \<union> B \<subseteq> C \<union> {m_next M..}"
  shows "changes C M M2"
  unfolding changes_def agree_on_def
proof (intro conjI ballI, goal_cases)
  case 1
  then show ?case using assms(1,2) by (simp add: changes_def)
next
  case (2 a)
  then have "a \<in> {..<m_next M} - A" "a \<in> {..<m_next M1} - B" using assms by (auto simp: changes_def)
  then show ?case using assms(1,2) by (simp add: changes_def agree_on_def)
next
  case (3 a)
  then have "a \<in> {..<m_next M} - A" "a \<in> {..<m_next M1} - B" using assms by (auto simp: changes_def)
  then show ?case using assms(1,2) by (simp add: changes_def agree_on_def)
qed

lemma changes_mono: "changes A M M' \<Longrightarrow> A \<subseteq> C \<union> {m_next M..} \<Longrightarrow> changes C M M'"
  by (rule changes_trans [OF changes_refl]) auto

lemma changes_next: "changes A M M' \<Longrightarrow> m_next M \<le> m_next M'"
  by (simp add: changes_def)

lemma changes_cell: "changes A M M' \<Longrightarrow> a < m_next M \<Longrightarrow> a \<notin> A \<Longrightarrow> m_cell M' a = m_cell M a"
  by (simp add: changes_def agree_on_def)

lemma changes_st: "p \<in> A \<Longrightarrow> changes A M (st p x M)"
  by (simp add: changes_def agree_on_def st_def)

lemma changes_fresh: "changes {} M M1 \<Longrightarrow> changes A M M1"
  by (erule changes_mono) simp

lemma changes_after_st: "changes A M M1 \<Longrightarrow> p \<in> A \<Longrightarrow> changes A M (st p x M1)"
  by (erule changes_trans [OF _ changes_st]) auto

lemma st_simps [simp]:
  "m_next (st p x M) = m_next M" "m_obj (st p x M) = m_obj M" "m_cell (st p x M) = (m_cell M)(p := x)"
  by (simp_all add: st_def)

lemma alloc_changes:
  assumes "alloc sz M = (q, M')"
  shows "changes {} M M'" "q = m_next M" "q + sz \<le> m_next M'" "q < m_next M'"
    "\<forall>a\<in>{q..<q + sz}. m_cell M' a = 0" "\<forall>a. a < m_next M \<longrightarrow> m_cell M' a = m_cell M a"
  using assms by (auto simp: alloc_def changes_def agree_on_def)

lemma alloc_bytes_changes:
  assumes "alloc_bytes bs M = (q, M')"
  shows "changes {} M M'" "q = m_next M" "q + length bs \<le> m_next M'"
    "\<forall>i<length bs. m_cell M' (q + i) = unat (bs ! i)"
  using assms by (auto simp: alloc_bytes_def alloc_def st_bytes_def changes_def agree_on_def)

section \<open>What a variable holds\<close>

text \<open>Floats in memory and in the value, up to the quieting of signalling NaNs.\<close>

definition loose :: "u32 \<Rightarrow> u32 \<Rightarrow> bool" where
  "loose a b \<longleftrightarrow> f32_via_f64 a = f32_via_f64 b"

lemma loose_simps [simp]: "loose a a" "loose a (f32_via_f64 a)"
  by (simp_all add: loose_def)

text \<open>
  A variable in allocated memory that holds a value whose pointers lead into \<open>Z\<close>, apart from
  the variable itself.
\<close>

definition room :: "genv \<Rightarrow> memory \<Rightarrow> nat set \<Rightarrow> gtype \<Rightarrow> nat \<Rightarrow> bool" where
  "room G M Z t p \<longleftrightarrow> 0 < m_next M \<and> block G t p \<subseteq> {..<m_next M} \<and> Z \<subseteq> {..<m_next M} \<and> block G t p \<inter> Z = {}"

definition held :: "genv \<Rightarrow> memory \<Rightarrow> nat set \<Rightarrow> gtype \<Rightarrow> nat \<Rightarrow> gvalue \<Rightarrow> bool" where
  "held G M Z t p v \<longleftrightarrow> room G M Z t p \<and> repr loose G M Z t p v"

text \<open>What the pointers may lead to after a step.\<close>

definition heap :: "memory \<Rightarrow> memory \<Rightarrow> nat set \<Rightarrow> nat set" where
  "heap M M' Z = Z \<union> {m_next M..<m_next M'}"

lemma heap_simps [simp]: "heap M M Z = Z" "Z \<subseteq> heap M M' Z"
  by (auto simp: heap_def)

lemma heap_heap: "m_next M \<le> m_next M1 \<Longrightarrow> m_next M1 \<le> m_next M2 \<Longrightarrow> heap M1 M2 (heap M M1 Z) = heap M M2 Z"
  by (auto simp: heap_def)

lemma heap_below: "Z \<subseteq> {..<m_next M} \<Longrightarrow> m_next M \<le> m_next M' \<Longrightarrow> heap M M' Z \<subseteq> {..<m_next M'}"
  by (fastforce simp: heap_def)

lemma repr_mono:
  assumes "go_env (g_types G)" "go_type (g_types G) t" "repr fl G M Z t p v" "Z \<subseteq> Z'"
  shows "repr fl G M Z' t p v"
  by (rule repr_frame [OF assms(1,3,2) _ _ assms(4)]) (simp_all add: agree_on_def)

lemma repr_changes:
  assumes "go_env (g_types G)" "go_type (g_types G) t" "repr fl G M Z t p v" "changes A M M'"
    and "block G t p \<subseteq> {..<m_next M} - A" "Z \<subseteq> {..<m_next M} - A" "Z \<subseteq> Z'"
  shows "repr fl G M' Z' t p v"
proof (rule repr_frame [OF assms(1,3,2) _ _ assms(7)])
  show "\<forall>a\<in>block G t p. m_cell M' a = m_cell M a" using assms(4,5) by (auto simp: changes_def agree_on_def)
  show "agree_on M M' Z" using assms(4,6) by (auto simp: changes_def agree_on_def)
qed

text \<open>
  What a decoding step leaves, against what the value-based step leaves: the same error and
  the same state of the decoder; it writes in the variable and to fresh memory only; the
  variable holds a value, which is the same one if there was no error.
\<close>

definition decodes :: "genv \<Rightarrow> gtype \<Rightarrow> nat \<Rightarrow> nat set \<Rightarrow> memory \<Rightarrow> (gerror option \<times> memory \<times> 'd)
    \<Rightarrow> (gerror option \<times> gvalue \<times> 'd) \<Rightarrow> bool" where
  "decodes G t p Z M = (\<lambda>(err, M', d) (err0, v, d0). err = err0 \<and> d = d0 \<and> changes (block G t p) M M'
     \<and> (\<exists>x. repr loose G M' (heap M M' Z) t p x \<and> (err = None \<longrightarrow> x = v)))"

definition dec_sim :: "genv \<Rightarrow> gtype \<Rightarrow> 'd decode_at \<Rightarrow> 'd decode_fn \<Rightarrow> bool" where
  "dec_sim G t f g \<longleftrightarrow> (\<forall>p Z M v d. held G M Z t p v \<longrightarrow> rel_outcome (decodes G t p Z M) (f p M d) (g v d))"

lemma dec_simD: "dec_sim G t f g \<Longrightarrow> held G M Z t p v \<Longrightarrow> rel_outcome (decodes G t p Z M) (f p M d) (g v d)"
  by (simp add: dec_sim_def)

lemma rel_bind:
  "rel_outcome R m m' \<Longrightarrow> (\<And>a b. R a b \<Longrightarrow> rel_outcome S (k a) (k' b)) \<Longrightarrow> rel_outcome S (obind m k) (obind m' k')"
  by (cases m; cases m') auto

lemma rel_same:
  "(\<And>a. m = Ret a \<Longrightarrow> rel_outcome S (k a) (k' a)) \<Longrightarrow> rel_outcome S (obind m k) (obind m k')"
  by (cases m) auto

section \<open>Parts\<close>

text \<open>\<open>n\<close> variables apart from one another, and the values they hold.\<close>

definition parts :: "genv \<Rightarrow> memory \<Rightarrow> nat set \<Rightarrow> nat \<Rightarrow> (nat \<Rightarrow> gtype) \<Rightarrow> (nat \<Rightarrow> nat) \<Rightarrow> gvalue list \<Rightarrow> bool" where
  "parts G M Z n ty ad vs \<longleftrightarrow> length vs = n \<and> (\<forall>i<n. held G M Z (ty i) (ad i) (vs ! i))
     \<and> (\<forall>i<n. \<forall>j<n. i \<noteq> j \<longrightarrow> block G (ty i) (ad i) \<inter> block G (ty j) (ad j) = {})"

lemma parts_step:
  assumes env: "go_env (g_types G)" "\<forall>i<n. go_type (g_types G) (ty i)" and ps: "parts G M Z n ty ad vs" and i: "i < n"
    and ch: "changes (block G (ty i) (ad i)) M M'" and x: "repr loose G M' (heap M M' Z) (ty i) (ad i) x"
  shows "parts G M' (heap M M' Z) n ty ad (vs[i := x])"
proof -
  have room: "room G M' (heap M M' Z) (ty j) (ad j)" if "j < n" for j
  proof -
    have r: "room G M Z (ty j) (ad j)" using ps that by (simp add: parts_def held_def)
    have "block G (ty j) (ad j) \<inter> heap M M' Z = {}" using r by (fastforce simp: room_def heap_def)
    moreover have "heap M M' Z \<subseteq> {..<m_next M'}" using r changes_next [OF ch] by (intro heap_below) (auto simp: room_def)
    ultimately show ?thesis using r changes_next [OF ch] by (fastforce simp: room_def)
  qed
  have "repr loose G M' (heap M M' Z) (ty j) (ad j) (vs ! j)" if "j < n" "j \<noteq> i" for j
  proof (rule repr_changes [OF env(1) _ _ ch])
    have j: "held G M Z (ty j) (ad j) (vs ! j)" "held G M Z (ty i) (ad i) (vs ! i)" using ps that i by (auto simp: parts_def)
    then show "repr loose G M Z (ty j) (ad j) (vs ! j)" by (simp add: held_def)
    have "block G (ty j) (ad j) \<inter> block G (ty i) (ad i) = {}" using ps that i unfolding parts_def by metis
    then show "block G (ty j) (ad j) \<subseteq> {..<m_next M} - block G (ty i) (ad i)" using j by (auto simp: held_def room_def)
    show "Z \<subseteq> {..<m_next M} - block G (ty i) (ad i)" using j by (auto simp: held_def room_def)
  qed (use env(2) that in auto)
  then have "held G M' (heap M M' Z) (ty j) (ad j) (vs[i := x] ! j)" if "j < n" for j
    using room [OF that] x that ps i by (cases "j = i") (auto simp: held_def parts_def)
  then show ?thesis using ps by (simp add: parts_def)
qed

lemma parts_held: "parts G M Z n ty ad vs \<Longrightarrow> i < n \<Longrightarrow> held G M Z (ty i) (ad i) (vs ! i)"
  by (simp add: parts_def)

section \<open>Arrays and structs as parts\<close>

lemma elem_blocks:
  assumes "sz = size_of (g_word G) (g_types G) e" "i \<noteq> (j :: nat)"
  shows "block G e (q + i * sz) \<inter> block G e (q + j * sz) = {}"
proof -
  have "a * sz + sz \<le> b * sz" if "a < b" for a b :: nat
    using mult_le_mono1 [of "Suc a" b sz] that by simp
  then have "i * sz + sz \<le> j * sz \<or> j * sz + sz \<le> i * sz" using assms(2) by (meson linorder_neqE_nat)
  then show ?thesis unfolding block_def assms(1) [symmetric] by auto
qed

lemma parts_elems:
  assumes "sz = size_of (g_word G) (g_types G) e"
  shows "parts G M Z n (\<lambda>_. e) (\<lambda>i. q + i * sz) vs \<longleftrightarrow> length vs = n
    \<and> (\<forall>i<n. held G M Z e (q + i * sz) (vs ! i))"
  using elem_blocks [OF assms] by (auto simp: parts_def)

lemma field_blocks:
  assumes t: "struct_fields (g_types G) t = Some fs" and ij: "i < length fs" "j < length fs" "i \<noteq> j"
  shows "block G (fld_type (fs ! i)) (p + field_offset (g_word G) (g_types G) t i)
    \<inter> block G (fld_type (fs ! j)) (p + field_offset (g_word G) (g_types G) t j) = {}"
  using field_apart [OF g_word_pos [of G] t, of i j] field_apart [OF g_word_pos [of G] t, of j i] ij
  by (cases "i < j") (auto simp: block_def)

text \<open>A struct that is held, as its fields, and back.\<close>

abbreviation struct_parts where
  "struct_parts G M Z t fs p vs \<equiv> parts G M Z (length fs) (\<lambda>i. fld_type (fs ! i))
     (\<lambda>i. p + field_offset (g_word G) (g_types G) t i) vs"

lemma room_sub: "room G M Z t p \<Longrightarrow> block G u q \<subseteq> block G t p \<Longrightarrow> room G M Z u q"
  by (auto simp: room_def)

lemma struct_held:
  assumes env: "go_env (g_types G)" "go_type (g_types G) t" and t: "struct_fields (g_types G) t = Some fs"
  shows "held G M Z t p v \<longleftrightarrow> (\<exists>vs. v = VStruct vs \<and> room G M Z t p \<and> struct_parts G M Z t fs p vs)"
  using room_sub [OF _ block_field [OF env t]] field_blocks [OF t]
  by (auto simp: held_def parts_def repr_kind(18) [OF t])

lemma array_held:
  assumes env: "go_env (g_types G)" "go_type (g_types G) t" and t: "kind (g_types G) t = KArray"
    "elem_type (g_types G) t = Some e" "array_len (g_types G) t = Some n" and sz: "sz = size_of (g_word G) (g_types G) e"
  shows "held G M Z t p v \<longleftrightarrow> (\<exists>vs. v = VArray vs \<and> room G M Z t p \<and> parts G M Z n (\<lambda>_. e) (\<lambda>i. p + i * sz) vs)"
proof -
  have "block G e (p + i * sz) \<subseteq> block G t p" if "i < n" for i
    using block_elem [OF that sz, of p] block_array [OF env t(3,2), of p] sz by simp
  then show ?thesis using room_sub by (auto simp: held_def parts_elems [OF sz] repr_kind(17) [OF t sz])
qed

section \<open>Zeroed memory\<close>

fun zeroish :: "gvalue \<Rightarrow> bool" where
  "zeroish (VBool b) = (\<not> b)" | "zeroish (VInt8 x) = (x = 0)" | "zeroish (VInt16 x) = (x = 0)"
| "zeroish (VInt32 x) = (x = 0)" | "zeroish (VInt64 x) = (x = 0)" | "zeroish (VUint8 x) = (x = 0)"
| "zeroish (VUint16 x) = (x = 0)" | "zeroish (VUint32 x) = (x = 0)" | "zeroish (VUint64 x) = (x = 0)"
| "zeroish (VFloat32 x) = (x = 0)" | "zeroish (VFloat64 x) = (x = 0)"
| "zeroish (VComplex64 x y) = (x = 0 \<and> y = 0)" | "zeroish (VComplex128 x y) = (x = 0 \<and> y = 0)"
| "zeroish (VString s) = (s = [])" | "zeroish (VPtr x) = (x = None)" | "zeroish (VIface x) = (x = None)"
| "zeroish (VSlice x) = (x = None)" | "zeroish (VMap x) = (x = None)"
| "zeroish (VArray vs) = (\<forall>v\<in>set vs. zeroish v)" | "zeroish (VStruct vs) = (\<forall>v\<in>set vs. zeroish v)"
| "zeroish VOther = True"

lemma zero_zeroish: "zeroish (zero_value G t)"
  by (induction G t rule: zero_value.induct) (auto split: option.splits)

lemma zero_repr:
  assumes env: "go_env (g_types G)"
  shows "of_type (g_types G) t v \<Longrightarrow> go_type (g_types G) t \<Longrightarrow> zeroish v \<Longrightarrow> \<forall>a\<in>block G t p. m_cell M a = 0 \<Longrightarrow>
    repr loose G M Z t p v"
proof (induction arbitrary: p rule: of_type.induct)
  case (ot_array t e vs)
  have "repr loose G M Z e (p + i * size_of (g_word G) (g_types G) e) (vs ! i)" if i: "i < length vs" for i
    using ot_array i block_elem [OF i refl, of G e p] block_array [OF env ot_array.prems(1) ot_array(3,2), of p]
      go_parts(1) [OF env ot_array.prems(1) ot_array(2)] by (auto simp: subset_eq)
  then show ?case using ot_array by (intro r_array [where e = e]) auto
next
  case (ot_struct t fs vs)
  have "repr loose G M Z (fld_type (fs ! i)) (p + field_offset (g_word G) (g_types G) t i) (vs ! i)"
    if i: "i < length fs" for i
    using ot_struct i block_field [OF env ot_struct.prems(1) ot_struct(1) i, of p]
      go_parts(3) [OF env ot_struct.prems(1) ot_struct(1) nth_mem [OF i]] by (auto simp: subset_eq)
  then show ?case using ot_struct by (intro r_struct) auto
next
  case (ot_float t x)
  then show ?case using block_cells(1) [OF env ot_float.prems(1)] by (intro r_float [where ?b32.0 = 0]) auto
next
  case (ot_complex64 t x y)
  then show ?case using block_cells(1,2) [OF env ot_complex64.prems(1)]
    by (intro r_complex64 [where ?b32.0 = 0 and ?c32.0 = 0]) auto
qed (use block_cells [OF env] in \<open>auto intro!: repr.intros\<close>)

lemma fresh_block:
  assumes env: "go_env (g_types G)" "go_type (g_types G) e"
    and "\<forall>a\<in>block G e q. m_cell M a = 0" "block G e q \<subseteq> {..<m_next M}" "0 < m_next M"
  shows "held G M {} e q (zero_value (g_types G) e)"
  using zero_repr [OF env(1) zero_of_type [OF env] env(2) zero_zeroish assms(3)] assms(4,5)
  by (simp add: held_def room_def)

section \<open>Storing\<close>

lemma g_word_nz [simp]: "g_word G \<noteq> 0"
  using g_word_pos [of G] by (rule gr_implies_not0)

lemma st_string_repr:
  assumes env: "go_env (g_types G)" "go_type (g_types G) t" and k: "kind (g_types G) t = KString" and r: "room G M Z t p"
  shows "changes (block G t p) M (st_string (g_word G) p s M)"
    "repr loose G (st_string (g_word G) p s M) (heap M (st_string (g_word G) p s M) Z) t p (VString s)"
proof -
  obtain q M1 where a: "alloc_bytes s M = (q, M1)" by (cases "alloc_bytes s M")
  note al = alloc_bytes_changes [OF a]
  have m: "st_string (g_word G) p s M = st (p + g_word G) (length s) (st p q M1)" by (simp add: st_string_def a)
  have b: "p \<in> block G t p" "p + g_word G \<in> block G t p" using block_cells(1,4) [OF env] k by auto
  then have lt: "p < q" "p + g_word G < q" using r al(2) by (auto simp: room_def)
  show "changes (block G t p) M (st_string (g_word G) p s M)" unfolding m
    using b by (intro changes_after_st changes_fresh [OF al(1)])
  have "m_cell (st_string (g_word G) p s M) (q + i) = unat (s ! i)" if "i < length s" for i
    using al(4) that lt by (simp add: m)
  moreover have "{q..<q + length s} \<subseteq> heap M (st_string (g_word G) p s M) Z" using al(2,3) by (auto simp: heap_def m)
  ultimately show "repr loose G (st_string (g_word G) p s M) (heap M (st_string (g_word G) p s M) Z) t p (VString s)"
    using k g_word_pos [of G] by (intro r_string [where q = q]) (simp_all add: m)
qed

lemma st_header_changes:
  assumes env: "go_env (g_types G)" "go_type (g_types G) t" and k: "kind (g_types G) t = KSlice"
  shows "changes (block G t p) M (st_header (g_word G) p q l M)"
    "m_cell (st_header (g_word G) p q l M) p = q" "m_cell (st_header (g_word G) p q l M) (p + g_word G) = l"
    "m_next (st_header (g_word G) p q l M) = m_next M"
    "a \<notin> block G t p \<Longrightarrow> m_cell (st_header (g_word G) p q l M) a = m_cell M a"
proof -
  have b: "p \<in> block G t p" "p + g_word G \<in> block G t p" "p + 2 * g_word G \<in> block G t p"
    using block_cells(1,4,5) [OF env] k by auto
  then show "changes (block G t p) M (st_header (g_word G) p q l M)"
    unfolding st_header_def by (intro changes_after_st changes_refl)
  show "a \<notin> block G t p \<Longrightarrow> m_cell (st_header (g_word G) p q l M) a = m_cell M a"
    using b by (auto simp: st_header_def)
qed (use g_word_pos [of G] in \<open>simp_all add: st_header_def\<close>)

lemma st_byte_slice_repr:
  assumes env: "go_env (g_types G)" "go_type (g_types G) t" and k: "kind (g_types G) t = KSlice"
    "elem_type (g_types G) t = Some e" "kind (g_types G) e = KUint8" and r: "room G M Z t p"
    and x: "x = VSlice (if s = [] then None else Some (map VUint8 s))"
  shows "changes (block G t p) M (st_byte_slice (g_word G) p s M)
    \<and> repr loose G (st_byte_slice (g_word G) p s M) (heap M (st_byte_slice (g_word G) p s M) Z) t p x"
proof (cases "s = []")
  case True
  then show ?thesis using st_header_changes [OF env k(1)] k x by (auto simp: st_byte_slice_def intro!: r_nil_slice)
next
  case False
  obtain q M1 where a: "alloc_bytes s M = (q, M1)" by (cases "alloc_bytes s M")
  note al = alloc_bytes_changes [OF a]
  let ?M = "st_header (g_word G) p q (length s) M1"
  have m: "st_byte_slice (g_word G) p s M = ?M" using False by (simp add: st_byte_slice_def a)
  note h = st_header_changes [OF env k(1), where p = p and M = M1 and q = q and l = "length s"]
  have sz: "size_of (g_word G) (g_types G) e = 1"
    using size_of_kind(1) [OF go_solid [OF env(1) go_parts(1) [OF env k(2)]]] k(3) by simp
  have "m_cell ?M (q + i) = unat (s ! i)" if "i < length s" for i
  proof -
    have "q + i \<notin> block G t p" using r al(2) by (auto simp: room_def)
    then show ?thesis using h(5) al(4) that by simp
  qed
  then have "repr loose G ?M (heap M ?M Z) e (q + i) (map VUint8 s ! i)" if "i < length s" for i
    using that k(3) by (simp add: r_uint8)
  moreover have "{q..<q + length s} \<subseteq> heap M ?M Z" "q \<noteq> 0" using al(2,3) h(4) r by (auto simp: heap_def room_def)
  moreover have "changes (block G t p) M ?M" by (rule changes_trans [OF al(1) h(1)]) simp
  ultimately show ?thesis using h(2,3) k sz x False unfolding m by (auto intro!: r_slice [where q = q and e = e])
qed

lemma store_handle:
  assumes env: "go_env (g_types G)" "go_type (g_types G) t" and k: "kind (g_types G) t \<in> {KMap, KInterface}"
    and r: "room G M Z t p" and m: "alloc_obj v M = (h, M1)"
  shows "changes (block G t p) M (st p h M1)" "h \<noteq> 0" "h \<in> heap M (st p h M1) Z" "m_obj (st p h M1) h = v"
proof -
  have h: "h = m_next M" "m_next M1 = Suc (m_next M)" "m_obj M1 h = v" "changes {} M M1"
    using m by (auto simp: alloc_obj_def changes_def agree_on_def)
  have "p \<in> block G t p" using block_cells(1) [OF env] k by auto
  then show "changes (block G t p) M (st p h M1)" by (intro changes_trans [OF h(4) changes_st]) auto
  show "h \<noteq> 0" "h \<in> heap M (st p h M1) Z" "m_obj (st p h M1) h = v" using h r by (auto simp: room_def heap_def)
qed

lemma store_repr:
  assumes env: "go_env (g_types G)" "go_type (g_types G) t" and k: "kind (g_types G) t \<in> loadable" and r: "room G M Z t p"
  shows "of_type (g_types G) t x \<Longrightarrow> changes (block G t p) M (store G p x M)
    \<and> repr loose G (store G p x M) (heap M (store G p x M) Z) t p x"
proof -
  have b: "p \<in> block G t p" using block_cells(1) [OF env, of p] k by (auto simp: loadable_def)
  note c = block_cells [OF env, of p]
  assume x: "of_type (g_types G) t x"
  then show ?thesis
  proof cases
    case (ot_float a)
    then show ?thesis using b by (auto simp: st_word_def intro!: changes_st r_float)
  next
    case (ot_complex64 a b')
    then show ?thesis using b c
      by (auto simp: st_word_def intro!: changes_after_st r_complex64)
  next
    case (ot_complex128 a b')
    then show ?thesis using b c
      by (auto simp: st_word_def intro!: changes_after_st r_complex128)
  next
    case (ot_string s)
    then show ?thesis using st_string_repr [OF env _ r] by simp
  next
    case (ot_map k e kvs)
    then show ?thesis using store_handle [OF env _ r, of "VMap (Some kvs)"] x
      by (cases "alloc_obj (VMap (Some kvs)) M") (auto intro!: r_map)
  next
    case (ot_iface u y)
    then show ?thesis using store_handle [OF env _ r, of "VIface (Some (u, y))"] x
      by (cases "alloc_obj (VIface (Some (u, y))) M") (auto intro!: r_iface)
  qed (use b k in \<open>auto simp: st_word_def loadable_def dest: struct_kind intro!: changes_st repr.intros\<close>)
qed

end
