(* ===== verification/DecSteps.thy ===== *)
theory DecSteps
  imports MemSteps
begin

text \<open>
  Decoding step by step: how steps on memory that match steps on values compose, and the
  codecs of scalars and strings, whose memory methods match their value methods
  (\<open>dec_sim\<close>).
\<close>

section \<open>Composing steps\<close>

lemma held_changes:
  assumes "room G M Z t p" "changes (block G t p) M M1" "repr loose G M1 (heap M M1 Z) t p x"
  shows "held G M1 (heap M M1 Z) t p x"
proof -
  have "block G t p \<inter> heap M M1 Z = {}" using assms(1) by (fastforce simp: room_def heap_def)
  moreover have "heap M M1 Z \<subseteq> {..<m_next M1}"
    using assms(1) changes_next [OF assms(2)] by (intro heap_below) (auto simp: room_def)
  ultimately show ?thesis using assms changes_next [OF assms(2)] by (fastforce simp: held_def room_def)
qed

lemma decodes_after:
  assumes "changes (block G t p) M M1" "decodes G t p (heap M M1 Z) M1 r r'"
  shows "decodes G t p Z M r r'"
proof -
  obtain err M2 d err0 v d0 where r: "r = (err, M2, d)" "r' = (err0, v, d0)" by (cases r, cases r')
  then have "changes (block G t p) M1 M2" using assms(2) by (simp add: decodes_def)
  then have "changes (block G t p) M M2" "heap M1 M2 (heap M M1 Z) = heap M M2 Z"
    using changes_trans [OF assms(1)] heap_heap [OF changes_next [OF assms(1)] changes_next] by auto
  then show ?thesis using assms(2) r by (auto simp: decodes_def)
qed

lemma decodes_ret:
  "changes (block G t p) M M1 \<Longrightarrow> held G M1 (heap M M1 Z) t p x \<Longrightarrow> (err = None \<Longrightarrow> x = v) \<Longrightarrow>
     decodes G t p Z M (err, M1, d) (err, v, d)"
  by (auto simp: decodes_def held_def)

lemma decodesI:
  "changes (block G t p) M M' \<Longrightarrow> repr loose G M' (heap M M' Z) t p v \<Longrightarrow> decodes G t p Z M (err, M', d) (err, v, d)"
  by (auto simp: decodes_def)

lemma decodes_same: "held G M Z t p v \<Longrightarrow> decodes G t p Z M (err, M, d) (err, v, d)"
  by (auto simp: decodes_def held_def)

lemma rel_bind_right:
  "rel_outcome R m m' \<Longrightarrow> (\<And>a b. R a b \<Longrightarrow> rel_outcome S (Ret a) (k b)) \<Longrightarrow> rel_outcome S m (obind m' k)"
  by (cases m; cases m') auto

text \<open>The same result, up to the value left by an error.\<close>

definition alike :: "(gerror option \<times> gvalue \<times> 'd) \<Rightarrow> (gerror option \<times> gvalue \<times> 'd) \<Rightarrow> bool" where
  "alike = (\<lambda>(err, v, d) (err', v', d'). err = err' \<and> d = d' \<and> (err = None \<longrightarrow> v = v'))"

lemma alike_refl [simp]: "alike r r"
  by (auto simp: alike_def)

lemma alike_error [simp]: "alike (Some e, v, d) (Some e, v', d)"
  by (simp add: alike_def)

lemma rel_alike_refl [simp]: "rel_outcome alike m m"
  by (cases m) auto

lemma decodes_alike:
  "rel_outcome (decodes G t p Z M) m m' \<Longrightarrow> rel_outcome alike m' m'' \<Longrightarrow> rel_outcome (decodes G t p Z M) m m''"
  by (cases m; cases m'; cases m'') (auto simp: decodes_def alike_def)

text \<open>What was in the variable before does not matter to a successful decoding.\<close>

definition blind :: "tenv \<Rightarrow> gtype \<Rightarrow> 'd decode_fn \<Rightarrow> bool" where
  "blind G t g \<longleftrightarrow> (\<forall>v v' d. of_type G t v \<longrightarrow> of_type G t v' \<longrightarrow> rel_outcome alike (g v d) (g v' d))"

section \<open>Scalars\<close>

lemma put_sim:
  assumes "\<And>M Z p v r. held G M Z t p v \<Longrightarrow> \<exists>x. put' v r = Some x \<and> changes (block G t p) M (put p r M)
     \<and> repr loose G (put p r M) (heap M (put p r M) Z) t p x"
  shows "dec_sim G t (\<lambda>p. dec_put D k (put p)) (\<lambda>v. dec_set D k (put' v))"
  unfolding dec_sim_def
proof (intro allI impI)
  fix p Z M v d assume h: "held G M Z t p v"
  show "rel_outcome (decodes G t p Z M) (dec_put D k (put p) M d) (dec_set D k (put' v) d)"
    unfolding dec_put_def dec_set_def
  proof (rule rel_same, goal_cases)
    case (1 a)
    obtain r err d' where a: "a = (r, err, d')" by (cases a)
    obtain x where "put' v r = Some x" "changes (block G t p) M (put p r M)"
      "repr loose G (put p r M) (heap M (put p r M) Z) t p x" using assms [OF h] by blast
    then show ?case by (auto simp: a reflected_def decodes_def)
  qed
qed

lemma load_of_type:
  assumes "kind (g_types G) t \<in> loadable" "repr fl G M Z t p v"
  shows "of_type (g_types G) t (load G M t p)"
  using assms repr_of_type [OF assms(2)] unfolding loadable_def
  by (auto simp: load_def repr_kind intro: of_type.intros)

lemma via_sim:
  assumes env: "go_env (g_types G)" "go_type (g_types G) t" "kind (g_types G) t \<in> loadable"
    and g: "safe_dec B (g_types G) t g" "blind (g_types G) t g"
  shows "dec_sim G t (via_value G t g) g"
  unfolding dec_sim_def
proof (intro allI impI)
  fix p Z M v d assume h: "held G M Z t p v"
  then have v: "of_type (g_types G) t v" and r: "room G M Z t p" by (auto simp: held_def dest: repr_of_type)
  have l: "of_type (g_types G) t (load G M t p)" using h load_of_type [OF env(3)] by (auto simp: held_def)
  have "rel_outcome (decodes G t p Z M) (via_value G t g p M d) (g (load G M t p) d)"
  proof -
    have "rel_outcome (decodes G t p Z M) (obind m (\<lambda>(err, v, d'). Ret (err, store G p v M, d'))) m"
      if "calm_ret B m (\<lambda>(err, v', d'). of_type (g_types G) t v')" for m :: "(gerror option \<times> gvalue \<times> 'a) outcome"
      using that store_repr [OF env r] by (cases m; force simp: decodes_def)
    then show ?thesis unfolding via_value_def using safe_decD [OF g(1) l] by blast
  qed
  then show "rel_outcome (decodes G t p Z M) (via_value G t g p M d) (g v d)"
    by (rule decodes_alike) (use g(2) l v in \<open>simp add: blind_def\<close>)
qed

lemma blind_set: "(\<And>v v' r. of_type G t v \<Longrightarrow> of_type G t v' \<Longrightarrow> put v r = put v' r) \<Longrightarrow> blind G t (\<lambda>v. dec_set D k (put v))"
  unfolding blind_def
proof (intro allI impI)
  fix v v' d assume a: "\<And>v v' r. of_type G t v \<Longrightarrow> of_type G t v' \<Longrightarrow> put v r = put v' r" "of_type G t v" "of_type G t v'"
  have "put v = put v'" by (rule ext) (rule a(1) [OF a(2,3)])
  then show "rel_outcome alike (dec_set D k (put v) d) (dec_set D k (put v') d)" by simp
qed

lemma rel_then:
  "(\<And>r d'. rel_outcome alike (k r d') (k' r d')) \<Longrightarrow> rel_outcome alike (dec_then m v k) (dec_then m v' k')"
  unfolding dec_then_def by (rule rel_same) (auto simp: alike_def)

lemma prims_blind:
  assumes "(kind (g_types G) t, c) \<in> {(KBool, CBool), (KInt8, CInt8), (KInt16, CInt16), (KInt32, CInt32),
     (KUint8, CUint8), (KUint16, CUint16), (KUint32, CUint32), (KInt64, CHyper), (KUint64, CUhyper),
     (KFloat32, CFloat), (KFloat64, CDouble), (KComplex64, CComplex64), (KComplex128, CComplex128)}"
  shows "blind (g_types G) t (dec (Suc n) G D c)"
  using assms
  by (auto simp: dec_unfold blind_def of_kind boolCodec_Decode_def intCodec_Decode_def uintCodec_Decode_def
      hyperCodec_Decode_def uhyperCodec_Decode_def floatCodec_Decode_def doubleCodec_Decode_def
      complex64Codec_Decode_def complex128Codec_Decode_def dec_set_def intro!: rel_then)

lemma narrow_store:
  "(ucast (scast (x :: u32) :: u64) :: u8) = ucast x" "(ucast (scast (x :: u32) :: u64) :: u16) = ucast x"
  "(ucast (ucast (x :: u32) :: u64) :: u8) = ucast x" "(ucast (ucast (x :: u32) :: u64) :: u16) = ucast x"
  by (rule bit_word_eqI; auto simp: bit_simps min_def)+

lemma loose_word [simp]: "\<exists>x. unat a = unat x \<and> loose x (f32_via_f64 a)"
  by (rule exI [of _ a]) simp

lemmas decode_scalars = boolCodec_decodeUnsafe_def [abs_def] int8Codec_decodeUnsafe_def [abs_def]
  int16Codec_decodeUnsafe_def [abs_def] int32Codec_decodeUnsafe_def [abs_def] uint8Codec_decodeUnsafe_def [abs_def]
  uint16Codec_decodeUnsafe_def [abs_def] uint32Codec_decodeUnsafe_def [abs_def] hyperCodec_decodeUnsafe_def [abs_def]
  uhyperCodec_decodeUnsafe_def [abs_def] floatCodec_decodeUnsafe_def [abs_def] doubleCodec_decodeUnsafe_def [abs_def]
  boolCodec_Decode_def [abs_def] intCodec_Decode_def [abs_def] uintCodec_Decode_def [abs_def] hyperCodec_Decode_def [abs_def]
  uhyperCodec_Decode_def [abs_def] floatCodec_Decode_def [abs_def] doubleCodec_Decode_def [abs_def]

lemma scalar_sims:
  assumes p: "\<And>p. p \<in> block G t p"
  shows "kind (g_types G) t = KBool \<Longrightarrow> dec_sim G t (boolCodec_decodeUnsafe D) (boolCodec_Decode D)"
    "kind (g_types G) t = KInt8 \<Longrightarrow> dec_sim G t (int8Codec_decodeUnsafe D) (intCodec_Decode D)"
    "kind (g_types G) t = KInt16 \<Longrightarrow> dec_sim G t (int16Codec_decodeUnsafe D) (intCodec_Decode D)"
    "kind (g_types G) t = KInt32 \<Longrightarrow> dec_sim G t (int32Codec_decodeUnsafe D) (intCodec_Decode D)"
    "kind (g_types G) t = KUint8 \<Longrightarrow> dec_sim G t (uint8Codec_decodeUnsafe D) (uintCodec_Decode D)"
    "kind (g_types G) t = KUint16 \<Longrightarrow> dec_sim G t (uint16Codec_decodeUnsafe D) (uintCodec_Decode D)"
    "kind (g_types G) t = KUint32 \<Longrightarrow> dec_sim G t (uint32Codec_decodeUnsafe D) (uintCodec_Decode D)"
    "kind (g_types G) t = KInt64 \<Longrightarrow> dec_sim G t (hyperCodec_decodeUnsafe D) (hyperCodec_Decode D)"
    "kind (g_types G) t = KUint64 \<Longrightarrow> dec_sim G t (uhyperCodec_decodeUnsafe D) (uhyperCodec_Decode D)"
    "kind (g_types G) t = KFloat32 \<Longrightarrow> dec_sim G t (floatCodec_decodeUnsafe D) (floatCodec_Decode D)"
    "kind (g_types G) t = KFloat64 \<Longrightarrow> dec_sim G t (doubleCodec_decodeUnsafe D) (doubleCodec_Decode D)"
  unfolding decode_scalars
  by (rule put_sim; auto simp: held_def repr_kind st_word_def p narrow_sign narrow_store intro!: changes_st)+

lemma then_sim:
  assumes h: "held G M Z t p v" and v: "m' = m"
    and k: "\<And>r d'. m = Ret (r, None, d') \<Longrightarrow> rel_outcome (decodes G t p Z M) (k r d') (k' r d')"
  shows "rel_outcome (decodes G t p Z M) (dec_next m M k) (dec_then m' v k')"
  unfolding dec_next_def dec_then_def v by (rule rel_same) (use decodes_same [OF h] k in auto)

lemma complex_sims:
  assumes env: "go_env (g_types G)" "go_type (g_types G) t"
  shows "kind (g_types G) t = KComplex64 \<Longrightarrow> dec_sim G t (complex64Codec_decodeUnsafe D) (complex64Codec_Decode D)"
    "kind (g_types G) t = KComplex128 \<Longrightarrow> dec_sim G t (complex128Codec_decodeUnsafe D) (complex128Codec_Decode D)"
proof -
  note c = block_cells [OF env]
  show "dec_sim G t (complex64Codec_decodeUnsafe D) (complex64Codec_Decode D)" if k: "kind (g_types G) t = KComplex64"
    unfolding dec_sim_def complex64Codec_decodeUnsafe_def complex64Codec_Decode_def
  proof (intro allI impI, rule then_sim, assumption, rule refl, rule then_sim, assumption, rule refl)
    fix p Z M v d r d1 r' d2 assume h: "held G M Z t p v"
    let ?M = "st_word (p + 4) (rep32 r') (st_word p (rep32 r) M)"
    have "changes (block G t p) M ?M" using c k by (auto simp: st_word_def intro!: changes_after_st)
    moreover have "repr loose G ?M (heap M ?M Z) t p (VComplex64 (f32_via_f64 (rep32 r)) (f32_via_f64 (rep32 r')))"
      using k by (intro r_complex64 [where ?b32.0 = "rep32 r" and ?c32.0 = "rep32 r'"]) (auto simp: st_word_def)
    moreover obtain a b where "v = VComplex64 a b" using h repr_kind(12) [OF k] by (auto simp: held_def)
    ultimately show "rel_outcome (decodes G t p Z M) (Ret (None, ?M, d2))
        (obind (reflected (v_SetComplex64 v (rep32 r) (rep32 r'))) (\<lambda>v'. Ret (None, v', d2)))"
      by (simp add: reflected_def decodesI)
  qed
  show "dec_sim G t (complex128Codec_decodeUnsafe D) (complex128Codec_Decode D)" if k: "kind (g_types G) t = KComplex128"
    unfolding dec_sim_def complex128Codec_decodeUnsafe_def complex128Codec_Decode_def
  proof (intro allI impI, rule then_sim, assumption, rule refl, rule then_sim, assumption, rule refl)
    fix p Z M v d r d1 r' d2 assume h: "held G M Z t p v"
    let ?M = "st_word (p + 8) (rep64 r') (st_word p (rep64 r) M)"
    have "changes (block G t p) M ?M" using c k by (auto simp: st_word_def intro!: changes_after_st)
    moreover have "repr loose G ?M (heap M ?M Z) t p (VComplex128 (rep64 r) (rep64 r'))"
      using k by (intro r_complex128) (auto simp: st_word_def)
    ultimately show "rel_outcome (decodes G t p Z M) (Ret (None, ?M, d2))
        (obind (reflected (v_SetComplex128 v (rep64 r) (rep64 r'))) (\<lambda>v'. Ret (None, v', d2)))"
      using h k by (auto simp: held_def repr_kind reflected_def decodes_def)
  qed
qed

lemma prims_sim:
  assumes env: "go_env (g_types G)" "go_type (g_types G) t"
    and c: "(kind (g_types G) t, c) \<in> {(KBool, CBool), (KInt8, CInt8), (KInt16, CInt16), (KInt32, CInt32),
     (KUint8, CUint8), (KUint16, CUint16), (KUint32, CUint32), (KInt64, CHyper), (KUint64, CUhyper),
     (KFloat32, CFloat), (KFloat64, CDouble), (KComplex64, CComplex64), (KComplex128, CComplex128)}"
    and D: "typed_decoder D"
  shows "dec_sim G t (decode_unsafe G D rc c) (dec (Suc n) G D c)"
    and "dec_sim G t (decode_reflect G H D rc dv c t) (dec (Suc n) G D c)"
proof -
  have p: "p \<in> block G t p" for p using c block_cells(1) [OF env, of p] by auto
  note s = scalar_sims [of G t, OF p]
  have "(kind (g_types G) t, c) \<in> {(KBool, CBool), (KInt8, CInt8), (KInt16, CInt16), (KInt32, CInt32),
     (KUint8, CUint8), (KUint16, CUint16)} \<or> (kind (g_types G) t, c) \<in> {(KUint32, CUint32), (KInt64, CHyper),
     (KUint64, CUhyper), (KFloat32, CFloat), (KFloat64, CDouble)} \<or>
     (kind (g_types G) t, c) \<in> {(KComplex64, CComplex64), (KComplex128, CComplex128)}" using c by auto
  then show "dec_sim G t (decode_unsafe G D rc c) (dec (Suc n) G D c)"
    using s complex_sims [OF env, of D] by (auto simp: decode_unsafe_def dec_unfold)
  have "kind (g_types G) t \<in> loadable" using c by (auto simp: loadable_def)
  from via_sim [OF env this typed_decoder.prims_safe [OF D c] prims_blind [OF c]]
  show "dec_sim G t (decode_reflect G H D rc dv c t) (dec (Suc n) G D c)"
    using c by (auto simp: decode_reflect_def dec_unfold)
qed

section \<open>Strings and opaque data\<close>

lemma string_sims:
  assumes env: "go_env (g_types G)" "go_type (g_types G) t" and k: "kind (g_types G) t = KString" and D: "typed_decoder D"
  shows "dec_sim G t (fixedStringCodec_decodeUnsafe (g_word G) n D) (fixedStringCodec_Decode n D)"
    "dec_sim G t (varStringCodec_decodeUnsafe (g_word G) m om D) (varStringCodec_Decode m om D)"
    "dec_sim G t (via_value G t (fixedStringCodec_Decode n D)) (fixedStringCodec_Decode n D)"
    "dec_sim G t (via_value G t (varStringCodec_Decode m om D)) (varStringCodec_Decode m om D)"
proof -
  note st = st_string_repr [OF env k]
  have l: "kind (g_types G) t \<in> loadable" using k by (simp add: loadable_def)
  show "dec_sim G t (fixedStringCodec_decodeUnsafe (g_word G) n D) (fixedStringCodec_Decode n D)"
    unfolding fixedStringCodec_decodeUnsafe_def [abs_def] fixedStringCodec_Decode_def [abs_def]
    by (rule put_sim) (use st k in \<open>auto simp: held_def repr_kind\<close>)
  show "dec_sim G t (varStringCodec_decodeUnsafe (g_word G) m om D) (varStringCodec_Decode m om D)"
    unfolding dec_sim_def varStringCodec_decodeUnsafe_def varStringCodec_Decode_def
    by (intro allI impI rel_same)
      (use st k in \<open>auto simp: held_def reflected_def intro!: decodesI dest!: repr_kind(14) [OF k, THEN iffD1]\<close>)
  show "dec_sim G t (via_value G t (fixedStringCodec_Decode n D)) (fixedStringCodec_Decode n D)"
    by (rule via_sim [OF env l typed_decoder.prim_safe(8) [OF D k]])
      (auto simp: fixedStringCodec_Decode_def [abs_def] of_kind(14) [OF k] intro!: blind_set)
  have "blind (g_types G) t (varStringCodec_Decode m om D)"
    by (auto simp: blind_def varStringCodec_Decode_def of_kind(14) [OF k])
  then show "dec_sim G t (via_value G t (varStringCodec_Decode m om D)) (varStringCodec_Decode m om D)"
    by (rule via_sim [OF env l typed_decoder.var_string_safe [OF D k]])
qed

end
