(* ===== verification/UnsafeDecEq.thy ===== *)
theory UnsafeDecEq
  imports DecSteps
begin

text \<open>
  The default build decodes what the \<open>nounsafe\<close> build decodes: from memory that represents a
  value \<open>udec\<close> leads to memory that represents what \<open>dec\<close> makes of the value, with the same
  error and the same state of the decoder, and writes to the variable and to fresh memory
  only. (On an error the two builds may leave different values.)
\<close>

section \<open>Opaque data\<close>

lemma opaque_array_sim:
  assumes env: "go_env (g_types G)" "go_type (g_types G) t" and k: "kind (g_types G) t = KArray"
    "array_len (g_types G) t = Some n" "byte_kind (g_types G) t" and D: "typed_decoder D"
  shows "dec_sim G t (opaqueArrayCodec_decodeUnsafe n D) (opaqueArrayCodec_Decode G t D)"
  unfolding dec_sim_def
proof (intro allI impI)
  fix p Z M v d assume h: "held G M Z t p v"
  obtain e where e: "elem_type (g_types G) t = Some e" using k(3) by (auto simp: byte_kind_def split: option.splits)
  note c = byte_cells [OF k(3) e env(1) go_parts(1) [OF env e]]
  obtain vs where vs: "v = VArray vs" "length vs = n" "\<forall>i<n. repr loose G M Z e (p + i) (vs ! i)"
    using h by (auto simp: held_def repr_kind(17) [OF k(1) e k(2) c(1) [symmetric]])
  obtain s where s: "vs = map VUint8 s" "bytes_at M p n = s" using bytes_repr [OF c(2), of vs loose M Z p] vs by auto
  have b: "block G t p = {p..<p + n}" using block_array [OF env k(2) e] c(1) by simp
  have "decodes G t p Z M (err, st_bytes p (rep_bytes r) M, d') (err, VArray (map VUint8 (rep_bytes r)), d')"
    if r: "D (DecFixedOpaque s) d = Ret (r, err, d')" for r err d'
  proof (rule decodesI)
    have l: "length (rep_bytes r) = n" using typed_decoder.fills [OF D r] s(1) vs(2) by simp
    show "changes (block G t p) M (st_bytes p (rep_bytes r) M)"
      by (auto simp: b changes_def agree_on_def st_bytes_def l)
    show "repr loose G (st_bytes p (rep_bytes r) M) (heap M (st_bytes p (rep_bytes r) M) Z) t p (VArray (map VUint8 (rep_bytes r)))"
      using k e c l by (intro r_array [where e = e and sz = 1]) (auto simp: st_bytes_def intro!: r_uint8)
  qed
  then show "rel_outcome (decodes G t p Z M) (opaqueArrayCodec_decodeUnsafe n D p M d) (opaqueArrayCodec_Decode G t D v d)"
    using vs(1) s k(3) unfolding opaqueArrayCodec_decodeUnsafe_def opaqueArrayCodec_Decode_def dec_put_def
    by (cases "D (DecFixedOpaque s) d") (auto simp: reflected_def)
qed

lemma opaque_slice_sim:
  assumes env: "go_env (g_types G)" "go_type (g_types G) t" and k: "kind (g_types G) t = KSlice"
    "elem_type (g_types G) t = Some GUint8"
  shows "dec_sim G t (opaqueSliceCodec_decodeUnsafe (g_word G) m D) (opaqueSliceCodec_Decode G t m D)"
    "dec_sim G t (opaqueSliceCodec_Decode_at G m D t) (opaqueSliceCodec_Decode G t m D)"
proof -
  have e: "kind (g_types G) GUint8 = KUint8" by (simp add: kind_def under_def)
  have "decodes G t p Z M (err, st_byte_slice (g_word G) p bs M, d)
      (err, VSlice (if bs = [] then None else Some (map VUint8 bs)), d)"
    if "held G M Z t p v" for p Z M v bs err and d :: 'a
    using st_byte_slice_repr [OF env k e _ refl] that by (intro decodesI) (auto simp only: held_def)
  then have s: "dec_sim G t (opaqueSliceCodec_decodeUnsafe (g_word G) m D) (opaqueSliceCodec_Decode G t m D)"
    unfolding dec_sim_def opaqueSliceCodec_decodeUnsafe_def opaqueSliceCodec_Decode_def dec_put_def
    by (intro allI impI rel_same) (simp add: k(2) split: prod.splits split del: if_split)
  moreover have "opaqueSliceCodec_Decode_at G m D t = opaqueSliceCodec_decodeUnsafe (g_word G) m D"
    using k(2) by (intro ext) (simp add: opaqueSliceCodec_Decode_at_def opaqueSliceCodec_decodeUnsafe_def dec_put_def)
  ultimately show "dec_sim G t (opaqueSliceCodec_decodeUnsafe (g_word G) m D) (opaqueSliceCodec_Decode G t m D)"
    "dec_sim G t (opaqueSliceCodec_Decode_at G m D t) (opaqueSliceCodec_Decode G t m D)" by simp_all
qed

section \<open>Arrays and slices\<close>

lemma cells_sim:
  assumes env: "go_env (g_types G)" "go_type (g_types G) e" and sz: "sz = size_of (g_word G) (g_types G) e"
    and f: "dec_sim G e f g"
  shows "parts G M Z n (\<lambda>_. e) (\<lambda>i. q + i * sz) vs \<Longrightarrow> k + m = n \<Longrightarrow>
     rel_outcome (\<lambda>(err, M', d') (err0, ws, d0). err = err0 \<and> d' = d0 \<and> changes {q..<q + n * sz} M M'
       \<and> (\<exists>us. parts G M' (heap M M' Z) n (\<lambda>_. e) (\<lambda>i. q + i * sz) us \<and> (err = None \<longrightarrow> us = take k vs @ ws)))
     (dec_cells f sz m (q + k * sz) M d) (dec_elems g (drop k vs) d)"
proof (induction m arbitrary: k M Z vs d)
  case 0
  then have "length vs = k" by (simp add: parts_def)
  then show ?case using 0 by auto
next
  case (Suc m)
  then have k: "k < n" "length vs = n" by (auto simp: parts_def)
  then have drop: "drop k vs = vs ! k # drop (Suc k) vs" by (simp add: Cons_nth_drop_Suc)
  have b: "block G e (q + k * sz) \<subseteq> {q..<q + n * sz}" by (rule block_elem [OF k(1) sz])
  show ?case unfolding drop dec_cells.simps dec_elems.simps
  proof (rule rel_bind [OF dec_simD [OF f parts_held [OF Suc.prems(1) k(1)]]], goal_cases)
    case (1 a a')
    obtain err M1 d1 v where a: "a = (err, M1, d1)" "a' = (err, v, d1)" "changes (block G e (q + k * sz)) M M1"
      using 1 by (cases a; cases a') (auto simp: decodes_def)
    obtain x where x: "repr loose G M1 (heap M M1 Z) e (q + k * sz) x" "err = None \<Longrightarrow> x = v"
      using 1 a by (auto simp: decodes_def)
    have ps: "parts G M1 (heap M M1 Z) n (\<lambda>_. e) (\<lambda>i. q + i * sz) (vs[k := x])"
      using parts_step [OF env(1) _ Suc.prems(1) k(1) a(3) x(1)] env(2) by simp
    have ch: "changes {q..<q + n * sz} M M1" using changes_mono [OF a(3)] b by auto
    show ?case
    proof (cases err)
      case None
      note IH = Suc.IH [OF ps, of "Suc k" d1]
      have "rel_outcome (\<lambda>(err, M', d') (err0, ws, d0). err = err0 \<and> d' = d0 \<and> changes {q..<q + n * sz} M M'
          \<and> (\<exists>us. parts G M' (heap M M' Z) n (\<lambda>_. e) (\<lambda>i. q + i * sz) us \<and> (err = None \<longrightarrow> us = take k vs @ ws)))
        (dec_cells f sz m (q + Suc k * sz) M1 d1)
        (obind (dec_elems g (drop (Suc k) (vs[k := x])) d1) (\<lambda>(err', vs', d'). Ret (err', v # vs', d')))"
      proof (rule rel_bind_right [OF IH], goal_cases)
        case (2 b b')
        then obtain err2 M2 d2 ws us where b: "b = (err2, M2, d2)" "b' = (err2, ws, d2)" "changes {q..<q + n * sz} M1 M2"
          "parts G M2 (heap M1 M2 (heap M M1 Z)) n (\<lambda>_. e) (\<lambda>i. q + i * sz) us"
          "err2 = None \<longrightarrow> us = take (Suc k) (vs[k := x]) @ ws"
          by (cases b; cases b') auto
        have "take (Suc k) (vs[k := x]) = take k vs @ [v]" using k x(2) None by (simp add: take_Suc_conv_app_nth)
        moreover have "heap M1 M2 (heap M M1 Z) = heap M M2 Z"
          by (rule heap_heap [OF changes_next [OF ch] changes_next [OF b(3)]])
        moreover have "changes {q..<q + n * sz} M M2" by (rule changes_trans [OF ch b(3)]) auto
        ultimately show ?case using b by auto
      qed (use Suc.prems(2) in simp)
      then show ?thesis using a None k by (simp add: algebra_simps)
    next
      case (Some e')
      then show ?thesis using a ps ch by auto
    qed
  qed
qed

lemma array_sim:
  assumes env: "go_env (g_types G)" "go_type (g_types G) t" and k: "kind (g_types G) t = KArray"
    "elem_type (g_types G) t = Some e" "array_len (g_types G) t = Some n" and sz: "sz = size_of (g_word G) (g_types G) e"
    and f: "dec_sim G e f g"
  shows "dec_sim G t (dec_cells f sz n) (arrayCodec_Decode g)"
  unfolding dec_sim_def
proof (intro allI impI)
  fix p Z M v d assume h: "held G M Z t p v"
  then obtain vs where v: "v = VArray vs" "room G M Z t p" "parts G M Z n (\<lambda>_. e) (\<lambda>i. p + i * sz) vs"
    using array_held [OF env k sz] by blast
  have b: "block G t p = {p..<p + n * sz}" using block_array [OF env k(3,2)] sz by simp
  have "rel_outcome (decodes G t p Z M) (dec_cells f sz n (p + 0 * sz) M d)
      (obind (dec_elems g (drop 0 vs) d) (\<lambda>(err, vs', d'). Ret (err, VArray vs', d')))"
  proof (rule rel_bind_right [OF cells_sim [OF env(1) go_parts(1) [OF env k(2)] sz f v(3)]], goal_cases)
    case (2 a a')
    then obtain err M1 d1 ws us where a: "a = (err, M1, d1)" "a' = (err, ws, d1)" "changes (block G t p) M M1"
      "parts G M1 (heap M M1 Z) n (\<lambda>_. e) (\<lambda>i. p + i * sz) us" "err = None \<longrightarrow> us = ws"
      unfolding b by (cases a; cases a') auto
    have "repr loose G M1 (heap M M1 Z) t p (VArray us)"
      using a(4) by (auto simp: repr_kind(17) [OF k sz] parts_def held_def)
    then show ?case using a by (auto simp: decodes_def)
  qed simp
  then show "rel_outcome (decodes G t p Z M) (dec_cells f sz n p M d) (arrayCodec_Decode g v d)"
    by (simp add: arrayCodec_Decode_def v(1) reflected_def)
qed

lemma fresh_elems:
  assumes env: "go_env (g_types G)" "go_type (g_types G) e" and sz: "sz = size_of (g_word G) (g_types G) e"
    and q: "\<forall>a\<in>{q..<q + n * sz}. m_cell M a = 0" "q + n * sz \<le> m_next M" "0 < m_next M"
  shows "parts G M {} n (\<lambda>_. e) (\<lambda>i. q + i * sz) (replicate n (zero_value (g_types G) e))"
proof -
  have "held G M {} e (q + i * sz) (zero_value (g_types G) e)" if "i < n" for i
    using block_elem [OF that sz, of q] q by (intro fresh_block [OF env]) auto
  then show ?thesis by (simp add: parts_elems [OF sz])
qed

text \<open>A fresh array behind the header, before and after its elements are decoded.\<close>

lemma fresh_slice:
  assumes env: "go_env (g_types G)" "go_type (g_types G) t" and k: "kind (g_types G) t = KSlice"
    "elem_type (g_types G) t = Some e" and sz: "sz = size_of (g_word G) (g_types G) e" and h: "held G M Z t p v"
    and a: "alloc (n * sz) M = (q, M0)" and M1: "M1 = st_header (g_word G) p q n M0"
  shows "parts G M1 {} n (\<lambda>_. e) (\<lambda>i. q + i * sz) (replicate n (zero_value (g_types G) e))"
    and "changes (block G t p) M M1" "m_cell M1 p = q" "m_cell M1 (p + g_word G) = n" "m_next M1 = m_next M0"
    and "block G t p \<subseteq> {..<q}" "0 < q"
proof -
  note al = alloc_changes [OF a] and hd = st_header_changes [OF env k(1)]
  show b: "block G t p \<subseteq> {..<q}" "0 < q" using h al(2) by (auto simp: held_def room_def)
  show m: "changes (block G t p) M M1" "m_cell M1 p = q" "m_cell M1 (p + g_word G) = n" "m_next M1 = m_next M0"
    using hd changes_trans [OF al(1) hd(1)] by (auto simp: M1)
  have "m_cell M1 a = 0" if "a \<in> {q..<q + n * sz}" for a
  proof -
    have "a \<notin> block G t p" using that b by auto
    then show ?thesis using hd(5) al(5) that by (simp add: M1)
  qed
  then show "parts G M1 {} n (\<lambda>_. e) (\<lambda>i. q + i * sz) (replicate n (zero_value (g_types G) e))"
    using al(3,4) m(4) by (intro fresh_elems [OF env(1) go_parts(1) [OF env k(2)] sz]) auto
qed

lemma filled_slice:
  assumes env: "go_env (g_types G)" "go_type (g_types G) t" and k: "kind (g_types G) t = KSlice"
    "elem_type (g_types G) t = Some e" and sz: "sz = size_of (g_word G) (g_types G) e" and h: "held G M Z t p v"
    and a: "alloc (n * sz) M = (q, M0)" and M1: "M1 = st_header (g_word G) p q n M0"
    and x: "changes {q..<q + n * sz} M1 M2" "parts G M2 (heap M1 M2 {}) n (\<lambda>_. e) (\<lambda>i. q + i * sz) us"
  shows "decodes G t p Z M (err, M2, d) (err, VSlice (Some us), d)"
proof -
  note al = alloc_changes [OF a] and m = fresh_slice(2-) [OF env k sz h a M1]
  have nx: "q \<le> m_next M1" "q + n * sz \<le> m_next M1" "m_next M1 \<le> m_next M2"
    using al m(4) changes_next [OF x(1)] by auto
  have bp: "p \<in> block G t p" "p + g_word G \<in> block G t p" using block_cells(1,4) [OF env] k(1) by auto
  have "m_cell M2 a = m_cell M1 a" if "a \<in> block G t p" for a
    using that m(5) nx by (intro changes_cell [OF x(1)]) auto
  then have cells: "m_cell M2 p = q" "m_cell M2 (p + g_word G) = n" using bp m by auto
  have hs: "heap M1 M2 {} \<subseteq> heap M M2 Z" "{q..<q + n * sz} \<subseteq> heap M M2 Z"
    using al(1,2) nx changes_next [OF m(1)] by (auto simp: heap_def)
  have us: "length us = n" "\<forall>i<n. repr loose G M2 (heap M M2 Z) e (q + i * sz) (us ! i)"
    using x(2) repr_mono [OF env(1) go_parts(1) [OF env k(2)] _ hs(1)] by (auto simp: parts_def held_def)
  have "repr loose G M2 (heap M M2 Z) t p (VSlice (Some us))"
    using k sz cells us hs(2) m(6) by (intro r_slice [where q = q and e = e]) auto
  moreover have "changes (block G t p) M M2" by (rule changes_trans [OF m(1) x(1)]) (use al(2) in auto)
  ultimately show ?thesis by (auto simp: decodes_def)
qed

lemma slice_sim:
  fixes D :: "'d decoder_fn"
  assumes env: "go_env (g_types G)" "go_type (g_types G) t" and k: "kind (g_types G) t = KSlice"
    "elem_type (g_types G) t = Some e" and sz: "sz = size_of (g_word G) (g_types G) e" and f: "dec_sim G e f g"
  shows "dec_sim G t (sliceCodec_decodeUnsafe G m sz om D f) (sliceCodec_Decode G e m om D g)"
  unfolding dec_sim_def sliceCodec_decodeUnsafe_def sliceCodec_Decode_def
proof (intro allI impI, rule then_sim, assumption, rule refl)
  fix p Z M v r and d d1 :: 'd assume h: "held G M Z t p v"
  have nil: "decodes G t p Z M (None, st_header (g_word G) p 0 0 M, d1) (None, VSlice None, d1)"
    using st_header_changes [OF env k(1)] k(1) by (intro decodesI r_nil_slice) auto
  define n where "n = unat (rep32 r)"
  obtain q M0 where a: "alloc (n * sz) M = (q, M0)" by (cases "alloc (n * sz) M")
  define M1 where "M1 = st_header (g_word G) p q n M0"
  have full: "rel_outcome (decodes G t p Z M) (dec_cells f sz n (q + 0 * sz) M1 d1)
      (obind (dec_elems g (drop 0 (replicate n (zero_value (g_types G) e))) d1) (\<lambda>(err, vs, d2). Ret (err, VSlice (Some vs), d2)))"
  proof (rule rel_bind_right [OF cells_sim [OF env(1) go_parts(1) [OF env k(2)] sz f
          fresh_slice(1) [OF env k sz h a M1_def]]], goal_cases)
    case (2 x x')
    then obtain err M2 d2 ws us where x: "x = (err, M2, d2)" "x' = (err, ws, d2)" "changes {q..<q + n * sz} M1 M2"
      "parts G M2 (heap M1 M2 {}) n (\<lambda>_. e) (\<lambda>i. q + i * sz) us" "err = None \<longrightarrow> us = ws"
      by (cases x; cases x') auto
    show ?case using filled_slice [OF env k sz h a M1_def x(3,4), of err d2] x by (auto simp: decodes_def)
  qed simp
  show "rel_outcome (decodes G t p Z M) (let l = rep32 r in
      if l = 0 then Ret (None, st_header (g_word G) p 0 0 M, d1)
      else if l > word_of_nat m then Ret (Some (LengthError (ucast l) (ucast om)), M, d1)
      else obind (newarray G sz (unat l)) (\<lambda>_. case alloc (unat l * sz) M of (q, M1) \<Rightarrow>
        dec_cells f sz (unat l) q (st_header (g_word G) p q (unat l) M1) d1))
    (let l = rep32 r in if l = 0 then Ret (None, VSlice None, d1)
     else if l > word_of_nat m then Ret (Some (LengthError (ucast l) (ucast om)), v, d1)
     else obind (MakeSlice G e (unat l)) (\<lambda>vs0. obind (dec_elems g vs0 d1) (\<lambda>(err, vs, d2). Ret (err, VSlice (Some vs), d2))))"
    using nil full a by (simp add: Let_def M1_def n_def decodes_same [OF h] MakeSlice_def newarray_def sz [symmetric])
qed

section \<open>Pointers and optional values\<close>

lemma ptr_sim:
  assumes env: "go_env (g_types G)" "go_type (g_types G) t" and k: "kind (g_types G) t = KPtr"
    "elem_type (g_types G) t = Some e" and sz: "sz = size_of (g_word G) (g_types G) e" and f: "dec_sim G e f g"
  shows "dec_sim G t (ptrCodec_decodeUnsafe sz f) (ptrCodec_Decode G e g)"
  unfolding dec_sim_def
proof (intro allI impI)
  fix p Z M v d assume h: "held G M Z t p v"
  note e = go_parts(1) [OF env k(2)]
  obtain q M0 where a: "alloc sz M = (q, M0)" by (cases "alloc sz M")
  note al = alloc_changes [OF a]
  define M1 where "M1 = st p q M0"
  have bp: "p \<in> block G t p" using block_cells(1) [OF env] k(1) by auto
  have b: "block G t p \<subseteq> {..<q}" "0 < q" using h al(2) by (auto simp: held_def room_def)
  then have p: "p < q" using bp by auto
  have ch: "changes (block G t p) M M1" unfolding M1_def by (intro changes_after_st changes_fresh [OF al(1)] bp)
  have be: "block G e q = {q..<q + sz}" by (simp add: block_def sz)
  have "held G M1 {} e q (zero_value (g_types G) e)"
    using al p be by (intro fresh_block [OF env(1) e]) (auto simp: M1_def)
  from dec_simD [OF f this] have f': "rel_outcome (decodes G e q {} M1) (f q M1 d) (g (zero_value (g_types G) e) d)" .
  have "rel_outcome (decodes G t p Z M) (f q M1 d)
      (obind (g (zero_value (g_types G) e) d) (\<lambda>(err, x, d'). Ret (err, VPtr (Some x), d')))"
  proof (rule rel_bind_right [OF f'], goal_cases)
    case (1 x x')
    then obtain err M2 d2 w u where x: "x = (err, M2, d2)" "x' = (err, w, d2)" "changes (block G e q) M1 M2"
      "repr loose G M2 (heap M1 M2 {}) e q u" "err = None \<longrightarrow> u = w"
      by (cases x; cases x') (auto simp: decodes_def)
    have n: "q + sz \<le> m_next M1" "m_next M1 \<le> m_next M2" "m_next M \<le> m_next M1"
      using al changes_next [OF x(3)] changes_next [OF ch] by (auto simp: M1_def)
    have "m_cell M2 p = q" using changes_cell [OF x(3), of p] p n be al(4) by (simp add: M1_def)
    moreover have "heap M1 M2 {} \<subseteq> heap M M2 Z" "block G e q \<subseteq> heap M M2 Z"
      using al(2) n be by (auto simp: heap_def)
    ultimately have "repr loose G M2 (heap M M2 Z) t p (VPtr (Some u))"
      using k b(2) repr_mono [OF env(1) e x(4)] by (intro r_ptr [where q = q and e = e]) auto
    moreover have "changes (block G t p) M M2" by (rule changes_trans [OF ch x(3)]) (use al(2) be in auto)
    ultimately show ?case using x by (auto simp: decodes_def)
  qed
  then show "rel_outcome (decodes G t p Z M) (ptrCodec_decodeUnsafe sz f p M d) (ptrCodec_Decode G e g v d)"
    by (simp add: ptrCodec_decodeUnsafe_def ptrCodec_Decode_def a M1_def)
qed


lemma st_nil_repr:
  assumes env: "go_env (g_types G)" "go_type (g_types G) t" and z: "v_IsNil (zero_value (g_types G) t) = Some True"
    and r: "room G M Z t p"
  obtains M1 where "st_nil G t p M = Ret M1" "changes (block G t p) M M1" "held G M1 Z t p (zero_value (g_types G) t)"
    "m_next M1 = m_next M" "kind (g_types G) t \<noteq> KSlice \<Longrightarrow> M1 = st p 0 M"
proof -
  note v = zero_of_type [OF env]
  note c = block_cells(1) [OF env, of p] and hd = st_header_changes [OF env]
  have room: "room G M1 Z t p" if "m_next M1 = m_next M" for M1 using r that by (simp add: room_def)
  from v show thesis
  proof cases
    case ot_nil_slice
    then show thesis using hd room
      by (intro that [of "st_header (g_word G) p 0 0 M"]) (auto simp: st_nil_def held_def intro!: r_nil_slice)
  qed (use z c room in \<open>auto simp: st_nil_def held_def intro!: that [of "st p 0 M"] changes_st repr.intros\<close>)
qed

lemma opt_unsafe_sim:
  assumes env: "go_env (g_types G)" "go_type (g_types G) t"
    and z: "v_IsNil (zero_value (g_types G) t) = Some True" and k: "kind (g_types G) t \<noteq> KSlice"
    and g: "blind (g_types G) t g" "dec_sim G t (rc c Unsafe) g"
  shows "dec_sim G t (optCodec_decodeUnsafe D (rc c Unsafe)) (optCodec_Decode (zero_value (g_types G) t) D g)"
  unfolding dec_sim_def
proof (intro allI impI)
  fix p Z M v d assume h: "held G M Z t p v"
  then have r: "room G M Z t p" and v: "of_type (g_types G) t v" by (auto simp: held_def dest: repr_of_type)
  obtain M1 where "st_nil G t p M = Ret M1" and M1: "changes (block G t p) M M1" "held G M1 Z t p (zero_value (g_types G) t)" "M1 = st p 0 M"
    using st_nil_repr [OF env z r] k by metis
  have nil: "decodes G t p Z M (None, M1, d') (None, (zero_value (g_types G) t), d')" for d'
    using M1 by (intro decodesI) (auto simp: held_def heap_def)
  have err: "decodes G t p Z M (Some er, M, d') (Some er, (zero_value (g_types G) t), d')" for er d'
    using h by (auto simp: decodes_def held_def)
  have "rel_outcome (decodes G t p Z M) (rc c Unsafe p M d') (g (zero_value (g_types G) t) d')" for d'
    by (rule decodes_alike [OF dec_simD [OF g(2) h]]) (use g(1) v zero_of_type [OF env] in \<open>simp add: blind_def\<close>)
  then show "rel_outcome (decodes G t p Z M) (optCodec_decodeUnsafe D (rc c Unsafe) p M d) (optCodec_Decode (zero_value (g_types G) t) D g v d)"
    unfolding optCodec_decodeUnsafe_def optCodec_Decode_def dec_next_def dec_then_def
    by (intro rel_same) (use nil err M1(3) in auto)
qed

lemma opt_reflect_sim:
  assumes env: "go_env (g_types G)" "go_type (g_types G) t"
    and z: "v_IsNil (zero_value (g_types G) t) = Some True" and g: "dec_sim G t (rc c (Reflect t True)) g"
  shows "dec_sim G t (optCodec_Decode_at G D rc c t) (optCodec_Decode (zero_value (g_types G) t) D g)"
  unfolding dec_sim_def
proof (intro allI impI)
  fix p Z M v d assume h: "held G M Z t p v"
  then have r: "room G M Z t p" by (simp add: held_def)
  obtain M1 where M1: "st_nil G t p M = Ret M1" "changes (block G t p) M M1" "held G M1 Z t p (zero_value (g_types G) t)" "m_next M1 = m_next M"
    using st_nil_repr [OF env z r] by metis
  then have r1: "room G M1 Z t p" by (simp add: held_def)
  obtain M2 where M2: "st_nil G t p M1 = Ret M2" "changes (block G t p) M1 M2" "held G M2 Z t p (zero_value (g_types G) t)" "m_next M2 = m_next M1"
    using st_nil_repr [OF env z r1] by metis
  have hp: "heap M M1 Z = Z" "heap M M2 Z = Z" using M1(4) M2(4) by (auto simp: heap_def)
  have ret: "decodes G t p Z M (er, M1, d') (er, (zero_value (g_types G) t), d')" "decodes G t p Z M (None, M2, d') (None, (zero_value (g_types G) t), d')" for er d'
    using M1(2,3) M2(2,3) changes_trans [OF M1(2) M2(2)] hp by (auto intro!: decodesI simp: held_def)
  have "rel_outcome (decodes G t p Z M) (rc c (Reflect t True) p M1 d') (g (zero_value (g_types G) t) d')" for d'
    using dec_simD [OF g M1(3), of d'] decodes_after [OF M1(2), of Z] unfolding hp
    by (rule outcome.rel_mono_strong)
  then show "rel_outcome (decodes G t p Z M) (optCodec_Decode_at G D rc c t p M d) (optCodec_Decode (zero_value (g_types G) t) D g v d)"
    unfolding optCodec_Decode_at_def optCodec_Decode_def M1(1) obind.simps dec_next_def dec_then_def
    by (intro rel_same) (use ret M2(1) in auto)
qed

section \<open>Structs and unions\<close>

text \<open>Decoding a field in memory does what decoding it in the value does.\<close>

definition field_sim :: "genv \<Rightarrow> 'd decode_call \<Rightarrow> (codec \<Rightarrow> 'd decode_fn) \<Rightarrow> gtype \<Rightarrow> gfield list \<Rightarrow> codec field \<Rightarrow> bool" where
  "field_sim G rc g t fs f \<longleftrightarrow> f_index f < length fs \<and> f_offset f = field_offset (g_word G) (g_types G) t (f_index f)
     \<and> dec_sim G (fld_type (fs ! f_index f)) (rc (f_codec f) Unsafe) (g (f_codec f))"

lemma field_sim_step:
  assumes env: "go_env (g_types G)" "go_type (g_types G) t" and t: "struct_fields (g_types G) t = Some fs"
    and f: "field_sim G rc g t fs f" and h: "held G M Z t p v"
  shows "rel_outcome (\<lambda>(q, err, M1, d1) (x, err0, v1, d0). q = p + f_offset f \<and> err = err0 \<and> d1 = d0
      \<and> changes (block G t p) M M1 \<and> (\<exists>y v'. held G M1 (heap M M1 Z) t p v'
         \<and> repr loose G M1 (heap M M1 Z) (fld_type (fs ! f_index f)) q y \<and> (err = None \<longrightarrow> v' = v1 \<and> y = x)))
    (field_decodeUnsafe rc f p M d) (field_decode g f v d)"
proof -
  let ?i = "f_index f" and ?o = "\<lambda>i. p + field_offset (g_word G) (g_types G) t i"
  note f = f [unfolded field_sim_def]
  have i: "?i < length fs" and off: "p + f_offset f = ?o ?i" using f by auto
  obtain vs where v: "v = VStruct vs" "room G M Z t p" "struct_parts G M Z t fs p vs"
    using h struct_held [OF env t] by blast
  have l: "length vs = length fs" using v(3) by (simp add: parts_def)
  have "held G M Z (fld_type (fs ! ?i)) (p + f_offset f) (vs ! ?i)" using parts_held [OF v(3) i] off by simp
  then have d: "rel_outcome (decodes G (fld_type (fs ! ?i)) (p + f_offset f) Z M)
      (rc (f_codec f) Unsafe (p + f_offset f) M d) (g (f_codec f) (vs ! ?i) d)" using f by (intro dec_simD) auto
  have "v_Field v ?i = Some (vs ! ?i)" using v(1) l i by simp
  then show ?thesis unfolding field_decodeUnsafe_def field_decode_def Let_def reflected_def of_option_simps obind.simps option.case
  proof (simp, intro rel_bind [OF d], goal_cases)
    case (1 a a')
    obtain err M1 d1 x where a: "a = (err, M1, d1)" "a' = (err, x, d1)" "changes (block G (fld_type (fs ! ?i)) (?o ?i)) M M1"
      using 1 off by (cases a; cases a') (auto simp: decodes_def)
    obtain y where y: "repr loose G M1 (heap M M1 Z) (fld_type (fs ! ?i)) (?o ?i) y" "err = None \<Longrightarrow> y = x"
      using 1 a off by (auto simp: decodes_def)
    have tys: "\<forall>i<length fs. go_type (g_types G) (fld_type (fs ! i))" using go_parts(3) [OF env t] by simp
    have ps: "struct_parts G M1 (heap M M1 Z) t fs p (vs[?i := y])" by (rule parts_step [OF env(1) tys v(3) i a(3) y(1)])
    have ch: "changes (block G t p) M M1" using changes_mono [OF a(3)] block_field [OF env t i] by blast
    have "repr loose G M1 (heap M M1 Z) t p (VStruct (vs[?i := y]))"
      using ps by (auto simp: repr_kind(18) [OF t] parts_def held_def)
    then have "held G M1 (heap M M1 Z) t p (VStruct (vs[?i := y]))" by (rule held_changes [OF v(2) ch])
    then show ?case using a y ch off v(1) by auto
  qed
qed

lemma struct_sim:
  assumes env: "go_env (g_types G)" "go_type (g_types G) t" and t: "struct_fields (g_types G) t = Some fs"
  shows "\<forall>f\<in>set fds. field_sim G rc g t fs f \<Longrightarrow>
    dec_sim G t (structCodec_decodeUnsafe rc name fds) (structCodec_Decode g name fds)"
proof (induction fds)
  case Nil
  then show ?case by (simp add: dec_sim_def decodes_same)
next
  case (Cons f fds)
  have f: "field_sim G rc g t fs f" using Cons.prems by simp
  note IH = dec_simD [OF Cons.IH]
  show ?case unfolding dec_sim_def structCodec_decodeUnsafe.simps structCodec_Decode.simps
  proof (intro allI impI, rule rel_bind [OF field_sim_step [OF env t f]], assumption, goal_cases)
    case (1 p Z M v d a a')
    then obtain err M1 d1 v1 v' x where a: "a = (p + f_offset f, err, M1, d1)" "a' = (x, err, v1, d1)"
      "changes (block G t p) M M1" "held G M1 (heap M M1 Z) t p v'" "err = None \<Longrightarrow> v' = v1"
      by (cases a; cases a') auto
    show ?case
    proof (cases err)
      case None
      have "rel_outcome (decodes G t p (heap M M1 Z) M1) (structCodec_decodeUnsafe rc name fds p M1 d1)
          (structCodec_Decode g name fds v1 d1)" using IH a(4,5) None Cons.prems by auto
      then have "rel_outcome (decodes G t p Z M) (structCodec_decodeUnsafe rc name fds p M1 d1)
          (structCodec_Decode g name fds v1 d1)"
        using decodes_after [OF a(3)] by (rule outcome.rel_mono_strong)
      then show ?thesis using a None by simp
    next
      case (Some er)
      then show ?thesis using a Some by (auto intro!: decodes_ret)
    qed
  qed
qed

lemma union_sim:
  assumes env: "go_env (g_types G)" "go_type (g_types G) t" and t: "struct_fields (g_types G) t = Some fs"
    and arms: "arms_ok body cases dflt"
    and fd: "\<forall>f\<in>insert sw {f. Some f \<in> set body}. field_sim G rc g t fs f"
    and sk: "(sk, kind (g_types G) (fld_type (fs ! f_index sw))) \<in> set switch_kinds"
  shows "dec_sim G t (unionCodec_decodeUnsafe rc name sw body cases dflt sk) (unionCodec_Decode g name sw body cases dflt sk)"
proof -
  have swf: "field_sim G rc g t fs sw" using fd by simp
  show ?thesis unfolding dec_sim_def unionCodec_decodeUnsafe_def unionCodec_Decode_def
  proof (intro allI impI, rule rel_bind [OF field_sim_step [OF env t swf]], assumption, goal_cases)
  case (1 p Z M v d a a')
  then obtain err M1 d1 v1 v' x y where a: "a = (p + f_offset sw, err, M1, d1)" "a' = (x, err, v1, d1)"
    "changes (block G t p) M M1" "held G M1 (heap M M1 Z) t p v'"
    "repr loose G M1 (heap M M1 Z) (fld_type (fs ! f_index sw)) (p + f_offset sw) y" "err = None \<Longrightarrow> v' = v1 \<and> y = x"
    by (cases a; cases a') auto
  let ?w = "swVal_at sk M1 (p + f_offset sw)"
  have stop: "decodes G t p Z M (er, M1, d1) (er, v1, d1)" if "er \<noteq> None" for er using a that by (intro decodes_ret) auto
  show ?case
  proof (cases err)
    case None
    then have w: "union_swVal sk x = Ret ?w" using switch_same(1) [OF sk a(5)] a(6) by simp
    show ?thesis
    proof (cases "union_case cases dflt ?w = -1")
      case True
      have "undefined_arm name (-1) \<noteq> None" by (simp add: undefined_arm_def)
      then show ?thesis using a(1,2) None w True by (simp add: Let_def stop)
    next
      case False
      obtain f where f: "body_field body (union_case cases dflt ?w) = Ret f" "Some f \<in> set body"
        using arm_selected [OF arms False] by metis
      then have fs: "field_sim G rc g t fs f" using fd by simp
      have v1: "held G M1 (heap M M1 Z) t p v1" using a(4,6) None by simp
      have "rel_outcome (decodes G t p (heap M M1 Z) M1)
        (obind (field_decodeUnsafe rc f p M1 d1) (\<lambda>(_, err2, M2, d2). Ret (arm_error name (f_name f) ?w err2, M2, d2)))
        (obind (field_decode g f v1 d1) (\<lambda>(_, err2, v2, d2). Ret (arm_error name (f_name f) ?w err2, v2, d2)))"
        by (rule rel_bind [OF field_sim_step [OF env t fs v1]])
          (auto simp: arm_error_def intro!: decodes_ret)
      then have "rel_outcome (decodes G t p Z M)
        (obind (field_decodeUnsafe rc f p M1 d1) (\<lambda>(_, err2, M2, d2). Ret (arm_error name (f_name f) ?w err2, M2, d2)))
        (obind (field_decode g f v1 d1) (\<lambda>(_, err2, v2, d2). Ret (arm_error name (f_name f) ?w err2, v2, d2)))"
        using decodes_after [OF a(3)] by (rule outcome.rel_mono_strong)
      then show ?thesis using a(1,2) None w f(1) False by (simp add: Let_def)
    qed
  next
    case (Some er)
    then show ?thesis using a(1,2) by (simp add: stop)
  qed
  qed
qed

section \<open>The simulation\<close>

lemma dec_blind:
  assumes "typed_env G dt" "fits G dt t c" "plain G c" "go_type (g_types G) t"
    and "kind (g_types G) t \<in> {KPtr, KMap, KInterface}"
  shows "blind (g_types G) t (dec n G D c)"
  using assms
proof (induction n t c rule: typed_codec_induct)
  case (map n t k e kc vc m om)
  show ?case unfolding dec_unfold blind_def mapCodec_Decode_def by (intro allI impI rel_then) (simp add: Let_def)
next
  case (ptr n t e c)
  show ?case by (simp add: blind_def dec_unfold ptrCodec_Decode_def)
next
  case (opt n t c)
  show ?case by (simp add: blind_def dec_unfold optCodec_Decode_def)
next
  case (deferred n t k)
  then show ?case unfolding dec_unfold by (auto simp: blind_def deferredCodec_Decode_def split: option.splits)
qed (auto simp: blind_def alike_def dest: struct_kind)

text \<open>
  \<open>opt\<close> on nils of one word only, as \<open>ParseTag\<close> admits it (pointers and interfaces): of a
  slice \<open>decodeUnsafe\<close> would clear the data pointer and leave the length.
\<close>

fun word_opts :: "codec \<Rightarrow> bool" where
  "word_opts (CArray c n sz) = word_opts c" | "word_opts (CSlice c e m sz om) = word_opts c"
| "word_opts (CPtr c e) = word_opts c" | "word_opts (COpt c nilp) = (nilp \<noteq> VSlice None \<and> word_opts c)"
| "word_opts (CMap kc vc k e m om) = (word_opts kc \<and> word_opts vc)"
| "word_opts (CStruct name fs) = (\<forall>f\<in>set fs. word_opts (f_codec f))"
| "word_opts (CUnion name sw body cases dflt sk) =
     (word_opts (f_codec sw) \<and> (\<forall>y\<in>set body. \<forall>f\<in>set_option y. word_opts (f_codec f)))"
| "word_opts (CWrapper c t) = word_opts c" | "word_opts c = True"

lemma udec_unfold:
  "udec (Suc n) G H D c Unsafe = decode_unsafe G D (udec n G H D) c"
  "udec (Suc n) G H D c (Reflect t a) = decode_reflect G H D (udec n G H D) (dec n G D) c t"
  by (intro ext, simp)+

lemma word_nil:
  assumes "go_env (g_types G)" "go_type (g_types G) t" "v_IsNil (zero_value (g_types G) t) = Some True"
    "zero_value (g_types G) t \<noteq> VSlice None"
  shows "kind (g_types G) t \<in> {KPtr, KMap, KInterface}"
  using zero_of_type [OF assms(1,2)] assms(3,4) by cases auto

lemma decode_at_unsafe:
  assumes "kind (g_types G) t = KArray" "array_len (g_types G) t = Some n"
  shows "byte_kind (g_types G) t \<Longrightarrow> opaqueArrayCodec_Decode_at G D t = opaqueArrayCodec_decodeUnsafe n D"
    "elem_type (g_types G) t = Some e \<Longrightarrow> arrayCodec_Decode_at G rc c t
      = dec_cells (rc c (Reflect e True)) (size_of (g_word G) (g_types G) e) n"
  by (intro ext; simp add: assms opaqueArrayCodec_Decode_at_def arrayCodec_Decode_at_def elem_of_def reflected_def)+

lemma Decode_at_ptr:
  assumes "elem_type (g_types G) t = Some e"
  shows "kind (g_types G) t = KSlice \<Longrightarrow> sliceCodec_Decode_at G m om D rc c t
      = sliceCodec_decodeUnsafe G m (size_of (g_word G) (g_types G) e) om D (rc c (Reflect e True))"
    "kind (g_types G) t = KPtr \<Longrightarrow> ptrCodec_Decode_at G rc c t
      = ptrCodec_decodeUnsafe (size_of (g_word G) (g_types G) e) (rc c Unsafe)"
  by (intro ext; simp add: assms sliceCodec_Decode_at_def ptrCodec_Decode_at_def elem_of_def)+

text \<open>At one bound on the depth of calls.\<close>

definition sims_at :: "genv \<Rightarrow> hooks \<Rightarrow> 'd decoder_fn \<Rightarrow> nat \<Rightarrow> gtype \<Rightarrow> codec \<Rightarrow> bool" where
  "sims_at G H D n t c \<longleftrightarrow> (\<forall>en. called_on t c en \<longrightarrow> dec_sim G t (udec n G H D c en) (dec n G D c))"

lemma sims_atI:
  assumes "codecUnsafe c \<Longrightarrow> dec_sim G t (udec n G H D c Unsafe) (dec n G D c)"
    and "\<And>a. dec_sim G t (udec n G H D c (Reflect t a)) (dec n G D c)"
  shows "sims_at G H D n t c"
  using assms by (simp add: sims_at_def called_on_def split: entry.splits)

lemma sims_atD:
  assumes "sims_at G H D n t c"
  shows "codecUnsafe c \<Longrightarrow> dec_sim G t (udec n G H D c Unsafe) (dec n G D c)"
    "dec_sim G t (udec n G H D c (Reflect t a)) (dec n G D c)"
  using assms by (simp_all add: sims_at_def)

lemmas decoders = udec_unfold decode_unsafe_def decode_reflect_def dec_unfold

lemma leaf_sims:
  assumes "go_env (g_types G)" "go_type (g_types G) t" "typed_decoder D"
  shows "(kind (g_types G) t, c) \<in> {(KBool, CBool), (KInt8, CInt8), (KInt16, CInt16), (KInt32, CInt32),
      (KUint8, CUint8), (KUint16, CUint16), (KUint32, CUint32), (KInt64, CHyper), (KUint64, CUhyper),
      (KFloat32, CFloat), (KFloat64, CDouble), (KComplex64, CComplex64), (KComplex128, CComplex128)} \<Longrightarrow>
      sims_at G H D (Suc n) t c"
    and "kind (g_types G) t = KString \<Longrightarrow> sims_at G H D (Suc n) t (CFixedString k)"
    and "kind (g_types G) t = KString \<Longrightarrow> sims_at G H D (Suc n) t (CVarString m om)"
    and "kind (g_types G) t = KArray \<Longrightarrow> array_len (g_types G) t = Some k \<Longrightarrow> byte_kind (g_types G) t \<Longrightarrow>
      sims_at G H D (Suc n) t (COpaqueArray t k)"
    and "kind (g_types G) t = KSlice \<Longrightarrow> elem_type (g_types G) t = Some GUint8 \<Longrightarrow>
      sims_at G H D (Suc n) t (COpaqueSlice t m om)"
proof -
  note ty = assms(1,2)
  show "sims_at G H D (Suc n) t c" if "(kind (g_types G) t, c) \<in> {(KBool, CBool), (KInt8, CInt8), (KInt16, CInt16),
      (KInt32, CInt32), (KUint8, CUint8), (KUint16, CUint16), (KUint32, CUint32), (KInt64, CHyper), (KUint64, CUhyper),
      (KFloat32, CFloat), (KFloat64, CDouble), (KComplex64, CComplex64), (KComplex128, CComplex128)}"
    using prims_sim [OF ty that assms(3)] by (intro sims_atI) (simp_all add: udec_unfold del: dec.simps udec.simps)
  show "sims_at G H D (Suc n) t (CFixedString k)" "sims_at G H D (Suc n) t (CVarString m om)"
    if "kind (g_types G) t = KString"
    using string_sims [OF ty that assms(3)] by (intro sims_atI; simp add: decoders)+
  show "sims_at G H D (Suc n) t (COpaqueArray t k)"
    if k: "kind (g_types G) t = KArray" "array_len (g_types G) t = Some k" "byte_kind (g_types G) t"
    using opaque_array_sim [OF ty k assms(3)] by (intro sims_atI) (simp_all add: decoders decode_at_unsafe(1) [OF k])
  show "sims_at G H D (Suc n) t (COpaqueSlice t m om)"
    if k: "kind (g_types G) t = KSlice" "elem_type (g_types G) t = Some GUint8"
    using opaque_slice_sim [OF ty k] by (intro sims_atI) (simp_all add: decoders)
qed

lemma parts_sims:
  assumes ty: "go_env (g_types G)" "go_type (g_types G) t" and elem: "elem_type (g_types G) t = Some e"
    and sz: "sz = size_of (g_word G) (g_types G) e" and c: "codecUnsafe c" "sims_at G H D n e c"
  shows "kind (g_types G) t = KArray \<Longrightarrow> array_len (g_types G) t = Some k \<Longrightarrow> sims_at G H D (Suc n) t (CArray c k sz)"
    and "kind (g_types G) t = KSlice \<Longrightarrow> sims_at G H D (Suc n) t (CSlice c e m sz om)"
    and "kind (g_types G) t = KPtr \<Longrightarrow> sims_at G H D (Suc n) t (CPtr c e)"
proof -
  note f = sims_atD(1) [OF c(2,1)] sims_atD(2) [OF c(2)]
  show "sims_at G H D (Suc n) t (CArray c k sz)"
    if k: "kind (g_types G) t = KArray" "array_len (g_types G) t = Some k"
    using array_sim [OF ty k(1) elem k(2) sz f(1)] array_sim [OF ty k(1) elem k(2) sz f(2)] unfolding sz
    by (intro sims_atI) (simp_all add: decoders arrayCodec_decodeUnsafe_def [abs_def] decode_at_unsafe(2) [OF k elem])
  show "sims_at G H D (Suc n) t (CSlice c e m sz om)" if k: "kind (g_types G) t = KSlice"
    using slice_sim [OF ty k elem sz f(1)] slice_sim [OF ty k elem sz f(2)] unfolding sz
    by (intro sims_atI) (simp_all add: decoders Decode_at_ptr [OF elem] k)
  show "sims_at G H D (Suc n) t (CPtr c e)" if k: "kind (g_types G) t = KPtr"
    using ptr_sim [OF ty k elem refl f(1)]
    by (intro sims_atI) (simp_all add: decoders Decode_at_ptr [OF elem] k)
qed

lemma opt_sims:
  assumes env: "typed_env G dt" and c: "fits G dt t c" "plain G c" "codecUnsafe c" "sims_at G H D n t c"
    and t: "go_type (g_types G) t" "v_IsNil (zero_value (g_types G) t) = Some True" "zero_value (g_types G) t \<noteq> VSlice None"
  shows "sims_at G H D (Suc n) t (COpt c (zero_value (g_types G) t))"
proof -
  have g: "go_env (g_types G)" using env by (simp add: typed_env_def)
  have k: "kind (g_types G) t \<in> {KPtr, KMap, KInterface}" by (rule word_nil [OF g t])
  then have s: "kind (g_types G) t \<noteq> KSlice" by auto
  note f = sims_atD(1) [OF c(4,3)] sims_atD(2) [OF c(4)]
  show ?thesis
    using opt_unsafe_sim [OF g t(1,2) s dec_blind [OF env c(1,2) t(1) k], of "udec n G H D" c, OF f(1)]
      opt_reflect_sim [OF g t(1,2), of "udec n G H D" c, OF f(2)]
    by (intro sims_atI) (simp_all add: decoders)
qed

lemma map_sims:
  assumes env: "typed_env G dt" and D: "typed_decoder D" and c: "fits G dt t c" "plain G c" "c = CMap kc vc k e m om"
    and t: "go_type (g_types G) t" "kind (g_types G) t = KMap"
  shows "sims_at G H D (Suc n) t c"
proof -
  have g: "go_env (g_types G)" using env by (simp add: typed_env_def)
  have "dec_sim G t (via_value G t (dec (Suc n) G D c)) (dec (Suc n) G D c)"
    by (rule via_sim [OF g t(1) _ typed_decoder.dec_safe [where B = True, OF D env c(1,2) t(1)] dec_blind [OF env c(1,2) t(1)]])
      (simp_all add: t(2) loadable_def)
  then show ?thesis using c(3) by (intro sims_atI) (simp_all add: decoders)
qed

lemma fields_sims:
  assumes ty: "go_env (g_types G)" "go_type (g_types G) t" and t: "struct_fields (g_types G) t = Some fs"
    and f: "\<And>f. f \<in> F \<Longrightarrow> f_index f < length fs"
      "\<And>f. f \<in> F \<Longrightarrow> f_offset f = field_offset (g_word G) (g_types G) t (f_index f)"
      "\<And>f. f \<in> F \<Longrightarrow> codecUnsafe (f_codec f)"
      "\<And>f. f \<in> F \<Longrightarrow> sims_at G H D n (fld_type (fs ! f_index f)) (f_codec f)"
  shows "F = set fds \<Longrightarrow> sims_at G H D (Suc n) t (CStruct name fds)"
    and "F = insert sw {f. Some f \<in> set body} \<Longrightarrow> arms_ok body cases dflt \<Longrightarrow>
      (sk, kind (g_types G) (fld_type (fs ! f_index sw))) \<in> set switch_kinds \<Longrightarrow>
      sims_at G H D (Suc n) t (CUnion name sw body cases dflt sk)"
proof -
  have *: "\<forall>f\<in>F. field_sim G (udec n G H D) (dec n G D) t fs f"
    using f sims_atD(1) [OF f(4)] by (simp add: field_sim_def)
  show "sims_at G H D (Suc n) t (CStruct name fds)" if "F = set fds"
    using struct_sim [OF ty t] * that by (intro sims_atI) (simp_all add: decoders)
  show "sims_at G H D (Suc n) t (CUnion name sw body cases dflt sk)" if F: "F = insert sw {f. Some f \<in> set body}"
    "arms_ok body cases dflt" "(sk, kind (g_types G) (fld_type (fs ! f_index sw))) \<in> set switch_kinds"
    using union_sim [OF ty t F(2) * [unfolded F(1)] F(3)] by (intro sims_atI) (simp_all add: decoders)
qed

lemma through_sims:
  assumes "\<And>c. g_real G k = Some c \<Longrightarrow> codecUnsafe c" "\<And>c. g_real G k = Some c \<Longrightarrow> sims_at G H D n t c"
  shows "sims_at G H D (Suc n) t (CDeferred k)"
proof (cases "g_real G k")
  case None
  then show ?thesis by (intro sims_atI)
    (simp_all add: decoders dec_sim_def deferredCodec_decodeUnsafe_def deferredCodec_Decode_def)
next
  case (Some c)
  note f = sims_atD [OF assms(2) [OF Some]]
  show ?thesis using f(1) [OF assms(1) [OF Some]] f(2) Some
    by (intro sims_atI) (simp_all add: decoders dec_sim_def deferredCodec_decodeUnsafe_def deferredCodec_Decode_def)
qed

lemma decoders_sim:
  assumes env: "typed_env G dt" and "fits G dt t c" "plain G c" "go_type (g_types G) t" "word_opts c"
    and build: "\<not> g_nounsafe G" and D: "typed_decoder D" and real: "\<forall>c\<in>ran (g_real G). word_opts c"
  shows "sims_at G H D n t c"
  using assms(1-5)
proof (induction n t c rule: typed_codec_induct)
  case (struct n t fs fds name)
  have g: "go_env (g_types G)" using env by (simp add: typed_env_def)
  show ?case by (rule fields_sims(1) [OF g struct(2,1) _ _ _ _ refl]) (use struct build in \<open>auto simp: callable_def\<close>)
next
  case (union n t fs sw body cases dflt sk name)
  have g: "go_env (g_types G)" using env by (simp add: typed_env_def)
  show ?case by (rule fields_sims(2) [OF g union(2,1) _ _ _ _ refl union(3,4)])
    (use union build in \<open>auto simp: callable_def\<close>)
next
  case (opt n t c)
  then show ?case using build by (intro opt_sims [OF env]) (auto simp: callable_def)
next
  case (deferred n t k)
  then show ?case using build real by (intro through_sims) (auto simp: callable_def ran_def)
next
  case (wrapper n t c)
  then show ?case unfolding sims_at_def
    by (auto simp: decoders unsafeCodecWrapper_decodeUnsafe_def [abs_def] called_on_def split: entry.splits)
next
  case (error n t err)
  show ?case by (rule sims_atI) (simp_all add: decoders dec_sim_def decodes_same)
next
  case (zero t c)
  show ?case by (rule sims_atI) (simp_all add: dec_sim_def)
qed (rule leaf_sims parts_sims map_sims [OF env D]; use env build D in \<open>auto simp: typed_env_def callable_def\<close>)+

lemma udec_sim:
  assumes "typed_env G dt" "\<not> g_nounsafe G" "typed_decoder D" "\<forall>c\<in>ran (g_real G). word_opts c"
    "fits G dt t c" "plain G c" "word_opts c" "go_type (g_types G) t" "called_on t c en"
  shows "dec_sim G t (udec n G H D c en) (dec n G D c)"
  using decoders_sim [OF assms(1,5,6,8,7,2-4)] assms(9) by (simp add: sims_at_def)

end
