(* ===== verification/DefaultBuild.thy ===== *)
theory DefaultBuild
  imports UnsafeDecEq
begin

text \<open>
  What holds for the codecs a coder hands out in the default build, which encode from memory
  and decode into memory: they agree with the reflection methods, never leave the memory
  they may write to, and transfer values from one block of memory to another.
\<close>

section \<open>Codecs of the default build\<close>

lemma default_sim:
  assumes "same_platform P G" "\<not> p_nounsafe P" "handed_out P t c cr" "g_real G = cr_real cr"
    and "\<forall>c'\<in>insert c (ran (cr_real cr)). plain G c' \<and> word_opts c'" "typed_decoder D" "called_on t c en"
  shows "dec_sim G t (udec m G H D c en) (dec m G D c)" "B \<or> (\<forall>c'\<in>insert c (ran (cr_real cr)). allocatable G c') \<Longrightarrow> safe_dec B (g_types G) t (dec m G D c)"
proof -
  obtain dt where dt: "typed_env G dt" "\<not> g_nounsafe G" "fits G dt t c" and t: "go_type (g_types G) t"
    by (rule default_codec [OF assms(1-4)]) (use assms(5) in simp)
  have c: "plain G c" "word_opts c" "\<forall>c\<in>ran (g_real G). word_opts c" using assms(4,5) by auto
  show "dec_sim G t (udec m G H D c en) (dec m G D c)"
    by (rule udec_sim [OF dt(1,2) assms(6) c(3) dt(3) c(1,2) t assms(7)])
  show "safe_dec B (g_types G) t (dec m G D c)" if "B \<or> (\<forall>c'\<in>insert c (ran (cr_real cr)). allocatable G c')"
    by (rule typed_decoder.dec_safe [OF assms(6) dt(1,3) c(1) t]) (use that assms(4) in auto)
qed

section \<open>A variable to decode into\<close>

definition no_hooks :: hooks where
  "no_hooks = \<lparr>h_marshal = \<lambda>_ _ _. EDone None, h_unmarshal = \<lambda>_ _ M. DDone None M,
     h_foreign_enc = \<lambda>_ _ _. EDone None, h_foreign_dec = \<lambda>_ _ M. DDone None M\<rparr>"

text \<open>A nil pointer of the type of \<open>UnsafeEncEq\<close>'s example, at address 100.\<close>

definition blank_memory :: memory where
  "blank_memory = \<lparr>m_cell = \<lambda>_. 0, m_next = 300, m_obj = \<lambda>_. VOther\<rparr>"

lemma blank_held: "held cell_env blank_memory {} cell_type 100 (VPtr None)"
proof -
  have "block cell_env cell_type 100 = {100..<108}"
    by (simp add: block_def size_of_def cell_env_def plain_env_def cell_type_def word_bytes_def)
  moreover have "repr loose cell_env blank_memory {} cell_type 100 (VPtr None)"
    by (rule r_nil_ptr) (simp_all add: cell_type_def kind_def under_def blank_memory_def)
  ultimately show ?thesis by (auto simp: held_def room_def blank_memory_def)
qed

lemma cell_plain: "\<forall>c'\<in>insert cell_codec (ran (cr_real cell_coder)). plain cell_env c' \<and> word_opts c'"
  by (auto simp: cell_codec_def cell_coder_def ran_def)

lemma cell_dec:
  "\<exists>d'. dec 3 cell_env (decoder_call (2 ^ 63 - 1) bytes_read) cell_codec (VPtr None)
     \<lparr>dec_r = be32 7 @ be32 5, dec_cr = 0\<rparr> = Ret (None, VPtr (Some (VArray [VInt16 7, VInt16 5])), d')"
proof -
  let ?D = "decoder_call (2 ^ 63 - 1) bytes_read" and ?d = "\<lparr>dec_r = be32 7 @ be32 5, dec_cr = 0\<rparr>"
  obtain d1 where d1: "?D DecInt ?d = Ret (R32 7, None, d1)" "dec_r d1 = be32 5 @ []"
    using decoder_iface.answer_law [OF bytes_reader.decoder_is_iface answers.intros(2), of ?d 7 "be32 5" "2 ^ 63 - 1"] by auto
  obtain d2 where d2: "?D DecInt d1 = Ret (R32 5, None, d2)"
    using decoder_iface.answer_law [OF bytes_reader.decoder_is_iface answers.intros(2) d1(2), of "2 ^ 63 - 1"] by auto
  have z: "replicate 2 x = [x, x]" for x :: gvalue by (simp add: numeral_2_eq_2)
  show ?thesis using d1(1) d2
    by (simp add: numeral_3_eq_3 cell_codec_def ptrCodec_Decode_def z arrayCodec_Decode_def reflected_def
        intCodec_Decode_def dec_set_def narrow_store)
qed

section \<open>Properties\<close>

text \<open>
  C29. The default build decodes into memory what the reflection methods decode into a
  value: with any codec a coder of that build hands out, to any goroutine, called through \<open>Decode\<close> or, where
  the codec has it, \<open>decodeUnsafe\<close>, on a variable that holds \<open>v\<close>, on any decoder. Both
  return, panic, wait or exceed the call depth alike; if they return, then with the same
  error and the same state of the decoder, and without an error the variable holds the
  value that the reflection methods leave (\<open>decodes\<close>; float32 bits up to the quieting of
  signalling NaNs). The codecs involved must not run foreign code, use \<open>opaque\<close> on bytes
  proper and \<open>opt\<close> on nils of one word only.
\<close>

theorem default_build_decodes_alike:
  assumes "same_platform P G" and "\<not> p_nounsafe P" and "handed_out P t c cr" and "g_real G = cr_real cr"
    and "\<forall>c'\<in>insert c (ran (cr_real cr)). plain G c' \<and> word_opts c'" and "typed_decoder D"
    and "held G M Z t p v"
  shows "rel_outcome (decodes G t p Z M) (udec m G H D c (Reflect t True) p M d) (dec m G D c v d)
    \<and> (codecUnsafe c \<longrightarrow> rel_outcome (decodes G t p Z M) (udec m G H D c Unsafe p M d) (dec m G D c v d))"
  using dec_simD [OF default_sim(1) [OF assms(1-6)] assms(7)] by simp

theorem default_build_decodes_alike_witness:
  "\<exists>M' d'. udec 3 cell_env no_hooks (decoder_call (2 ^ 63 - 1) bytes_read) cell_codec (Reflect cell_type True) 100
      blank_memory \<lparr>dec_r = be32 7 @ be32 5, dec_cr = 0\<rparr> = Ret (None, M', d')
    \<and> repr loose cell_env M' {300..<m_next M'} cell_type 100 (VPtr (Some (VArray [VInt16 7, VInt16 5])))"
proof -
  note r = default_build_decodes_alike [OF cell_setting(1-4) cell_plain
      bytes_typed.typed_decoder_axioms blank_held, THEN conjunct1, of 3 no_hooks "\<lparr>dec_r = be32 7 @ be32 5, dec_cr = 0\<rparr>"]
  obtain d' where d: "dec 3 cell_env (decoder_call (2 ^ 63 - 1) bytes_read) cell_codec (VPtr None)
     \<lparr>dec_r = be32 7 @ be32 5, dec_cr = 0\<rparr> = Ret (None, VPtr (Some (VArray [VInt16 7, VInt16 5])), d')"
    using cell_dec by blast
  show ?thesis using r unfolding d
    by (cases "udec 3 cell_env no_hooks (decoder_call (2 ^ 63 - 1) bytes_read) cell_codec (Reflect cell_type True) 100
      blank_memory \<lparr>dec_r = be32 7 @ be32 5, dec_cr = 0\<rparr>") (auto simp: decodes_def heap_def blank_memory_def)
qed

text \<open>
  C30. Memory safety of the default build. On any input, decoding through \<open>unsafe.Pointer\<close>,
  with a codec that a coder of that build handed out, into a variable that holds a value of
  the type, panics only if the run-time system refuses to allocate a slice, which takes a
  codec, \<open>c\<close> itself or one in the registry, whose maximum times the size of the elements is
  beyond the platform (\<open>allocatable\<close>). When decoding returns, also with an error, it has
  changed the variable and freshly allocated memory only, and the variable holds a value of
  its type whose pointers lead into memory that was reachable before or is fresh. The codecs
  involved, those in the registry included, must not run foreign code, use \<open>opaque\<close> on bytes
  proper and \<open>opt\<close> on nils of one word only; the decoder must not panic itself and must fill
  the buffers it is given.
\<close>

theorem default_build_memory_safe:
  assumes "same_platform P G" and "\<not> p_nounsafe P" and "handed_out P t c cr" and "g_real G = cr_real cr"
    and "\<forall>c'\<in>insert c (ran (cr_real cr)). plain G c' \<and> word_opts c'" and "typed_decoder D"
    and "held G M Z t p v" and "called_on t c en"
  shows "(udec m G H D c en p M d = Panic msg \<longrightarrow>
     msg = alloc_panic \<and> (\<exists>c'\<in>insert c (ran (cr_real cr)). \<not> allocatable G c'))
   \<and> (udec m G H D c en p M d = Ret (err, M', d') \<longrightarrow>
     (\<forall>a<m_next M. a \<notin> block G t p \<longrightarrow> m_cell M' a = m_cell M a \<and> m_obj M' a = m_obj M a)
   \<and> (\<exists>x. of_type (g_types G) t x \<and> held G M' (heap M M' Z) t p x))"
proof -
  have rel: "rel_outcome (decodes G t p Z M) (udec m G H D c en p M d) (dec m G D c v d)"
    by (rule dec_simD [OF default_sim(1) [OF assms(1-6,8)] assms(7)])
  have v: "of_type (g_types G) t v" using assms(7) by (auto simp: held_def dest: repr_of_type)
  let ?B = "\<exists>c'\<in>insert c (ran (cr_real cr)). \<not> allocatable G c'"
  have safe: "calm_ret ?B (dec m G D c v d) (\<lambda>(err, v', d'). of_type (g_types G) t v')"
    by (rule safe_decD [OF default_sim(2) [OF assms(1-6,8)] v]) blast
  then have "udec m G H D c en p M d = Panic msg \<Longrightarrow> msg = alloc_panic \<and> ?B" using rel
    by (cases "dec m G D c v d") auto
  moreover have "room G M Z t p" using assms(7) by (simp add: held_def)
  ultimately show ?thesis using rel held_changes [of G M Z t p M'] repr_of_type
    by (cases "dec m G D c v d") (fastforce simp: decodes_def changes_def agree_on_def)+
qed

theorem default_build_memory_safe_witness:
  "\<forall>bs msg. udec 3 cell_env no_hooks (decoder_call (2 ^ 63 - 1) bytes_read) cell_codec Unsafe 100
      blank_memory \<lparr>dec_r = bs, dec_cr = 0\<rparr> \<noteq> Panic msg"
proof -
  have u: "called_on cell_type cell_codec Unsafe" by (simp add: cell_codec_def)
  have a: "\<forall>c'\<in>insert cell_codec (ran (cr_real cell_coder)). allocatable cell_env c'"
    by (auto simp: cell_codec_def cell_coder_def ran_def)
  show ?thesis
    using default_build_memory_safe [OF cell_setting(1-4) cell_plain
      bytes_typed.typed_decoder_axioms blank_held u, THEN conjunct1] a by blast
qed

text \<open>
  C31. Round trip through memory: if the codec of a type can transfer \<open>v\<close> into \<open>v0\<close>
  (\<open>transfers\<close>), then encoding a variable that represents \<open>v\<close> in the default build returns
  without an error and writes bytes from which the default build decodes a variable that
  represented \<open>v0\<close>, in the same or in another memory, into one that represents \<open>v\<close>, reading
  exactly those bytes; on any writer that does not fail and any lawful reader, with any
  bound on the call depth beyond some \<open>n0\<close>.
\<close>

theorem default_build_round_trip:
  assumes "same_platform P G" and "\<not> p_nounsafe P" and "handed_out P t c cr" and "g_real G = cr_real cr"
    and "\<forall>c'\<in>insert c (ran (cr_real cr)). plain G c' \<and> word_opts c'" and "max_u32 + 3 \<le> g_maxInt G"
    and "transfers G c v0 v" and "total_writer W written" and "reader rd pending finals wt"
    and "repr exact G M Z t p v" and "held G N Y t q v0"
  shows "\<exists>n0 bs. \<forall>n\<ge>n0.
     (\<forall>e. \<exists>e'. uenc n G H (encoder_call W) M c (Reflect t canAddr) p e = Ret (None, e')
        \<and> written (enc_w e') = written (enc_w e) @ bs)
   \<and> (\<forall>d rest. pending (dec_r d) = bs @ rest \<longrightarrow>
        (\<exists>N' d'. udec n G H (decoder_call (g_maxInt G) rd) c (Reflect t True) q N d = Ret (None, N', d')
           \<and> pending (dec_r d') = rest \<and> held G N' (heap N N' Y) t q v))"
proof -
  obtain dt where dt: "typed_env G dt" "\<not> g_nounsafe G" "fits G dt t c" and t: "go_type (g_types G) t"
    by (rule default_codec [OF assms(1-4)]) (use assms(5) in simp)
  have c: "plain G c" using assms(5) by simp
  have e: "uenc n G H (encoder_call W) M c (Reflect t canAddr) p = enc n G (encoder_call W) c v" for n
    by (rule ext, rule uenc_same [OF dt c t _ assms(10)]) simp
  have room: "room G N Y t q" using assms(11) by (simp add: held_def)
  note D = reader.decoder_typed [OF assms(9,6)]
  have d: "\<exists>N'. udec n G H (decoder_call (g_maxInt G) rd) c (Reflect t True) q N d = Ret (None, N', d')
      \<and> held G N' (heap N N' Y) t q v"
    if "dec n G (decoder_call (g_maxInt G) rd) c v0 d = Ret (None, v, d')" for n d d'
    using dec_simD [OF default_sim(1) [OF assms(1-5) D, of "Reflect t True"] assms(11), of n H d] that held_changes [OF room]
    by (cases "udec n G H (decoder_call (g_maxInt G) rd) c (Reflect t True) q N d") (auto simp: decodes_def)
  obtain n0 bs where rt: "\<forall>n\<ge>n0.
     (\<forall>e. \<exists>e'. enc n G (encoder_call W) c v e = Ret (None, e') \<and> written (enc_w e') = written (enc_w e) @ bs)
   \<and> (\<forall>d rest. pending (dec_r d) = bs @ rest \<longrightarrow>
        (\<exists>d'. dec n G (decoder_call (g_maxInt G) rd) c v0 d = Ret (None, v, d') \<and> pending (dec_r d') = rest))"
    using codec_round_trip [OF assms(7-9)] by blast
  show ?thesis unfolding e
  proof (intro exI [of _ n0] exI [of _ bs] allI impI conjI, goal_cases)
    case (1 n e)
    then show ?case using rt by blast
  next
    case (2 n d rest)
    then obtain d' where "dec n G (decoder_call (g_maxInt G) rd) c v0 d = Ret (None, v, d')" "pending (dec_r d') = rest"
      using rt by blast
    then show ?case using d by blast
  qed
qed

theorem default_build_round_trip_witness:
  "\<exists>n0 bs. \<forall>n\<ge>n0. \<exists>e' N' d'. uenc n cell_env no_hooks (encoder_call buffer_ops) cell_memory cell_codec (Reflect cell_type False) 100
      \<lparr>enc_w = [], enc_ws = True, enc_cr = 0, enc_cache = [], enc_slot = 3, enc_scratch = []\<rparr> = Ret (None, e') \<and> enc_w e' = bs
    \<and> udec n cell_env no_hooks (decoder_call (2 ^ 63 - 1) bytes_read) cell_codec (Reflect cell_type True) 100 blank_memory
        \<lparr>dec_r = bs, dec_cr = 0\<rparr> = Ret (None, N', d') \<and> dec_r d' = []
    \<and> held cell_env N' {300..<m_next N'} cell_type 100 (VPtr (Some (VArray [VInt16 7, VInt16 5])))"
proof -
  have "transfers cell_env cell_codec (VPtr None) (VPtr (Some (VArray [VInt16 7, VInt16 5])))"
    unfolding cell_codec_def by (rule t_ptr, simp, rule t_array) (auto simp: less_Suc_eq numeral_2_eq_2 intro: t_int16)
  moreover have m: "g_maxInt cell_env = 2 ^ 63 - 1" by (simp add: cell_env_def plain_env_def)
  then have "max_u32 + 3 \<le> g_maxInt cell_env" by (simp add: max_u32_def)
  ultimately obtain n0 bs where rt: "\<forall>n\<ge>n0.
     (\<forall>e. \<exists>e'. uenc n cell_env no_hooks (encoder_call buffer_ops) cell_memory cell_codec (Reflect cell_type False) 100 e
          = Ret (None, e') \<and> enc_w e' = enc_w e @ bs)
   \<and> (\<forall>d rest. dec_r d = bs @ rest \<longrightarrow> (\<exists>N' d'. udec n cell_env no_hooks (decoder_call (g_maxInt cell_env) bytes_read)
          cell_codec (Reflect cell_type True) 100 blank_memory d = Ret (None, N', d') \<and> dec_r d' = rest
        \<and> held cell_env N' (heap blank_memory N' {}) cell_type 100 (VPtr (Some (VArray [VInt16 7, VInt16 5])))))"
    using default_build_round_trip [OF cell_setting(1-4) cell_plain _ _
        byte_buffer.total_writer_axioms bytes_reader.reader_axioms cell_repr blank_held, of no_hooks False] by blast
  have h: "heap blank_memory N' {} = {300..<m_next N'}" for N' by (simp add: heap_def blank_memory_def)
  show ?thesis
  proof (intro exI [of _ n0] exI [of _ bs] allI impI, goal_cases)
    case (1 n)
    from rt 1 obtain e' where "uenc n cell_env no_hooks (encoder_call buffer_ops) cell_memory cell_codec
        (Reflect cell_type False) 100 \<lparr>enc_w = [], enc_ws = True, enc_cr = 0, enc_cache = [], enc_slot = 3, enc_scratch = []\<rparr>
        = Ret (None, e')" "enc_w e' = bs" by fastforce
    moreover from rt 1 have "\<forall>d. dec_r d = bs @ [] \<longrightarrow> (\<exists>N' d'. udec n cell_env no_hooks
        (decoder_call (g_maxInt cell_env) bytes_read) cell_codec (Reflect cell_type True) 100 blank_memory d = Ret (None, N', d')
        \<and> dec_r d' = [] \<and> held cell_env N' (heap blank_memory N' {}) cell_type 100 (VPtr (Some (VArray [VInt16 7, VInt16 5]))))"
      by blast
    ultimately show ?case unfolding h m by fastforce
  qed
qed

end
