(* ===== verification/Spec2Isabelle.thy ===== *)
theory Spec2Isabelle
  imports Prelude GoTypes Layout GoStrings Tags ParseTag Errors GoIO Codecs Encoder Decoder
    CodecEnc CodecDec RoundTrip Narrow Lengths EncSim Wire Typing TypeSafe
    Coder Waiting RequestSpace Requests CoderInv CoderTerm TypedRequests Registry FitsCoder
    Goroutines GoInv GoSteps GoProps GoTyped GoTerm OneGo Opaque Bufio Api
    Memory UnsafeEnc UnsafeEncEq UnsafeDec MemSteps DecSteps UnsafeDecEq DefaultBuild
begin

text \<open>
  go-onc/xdr: marshaling of Go values in the format of RFC 4506 (XDR), driven by reflection
  and struct tags.

  \<^bold>\<open>The program and the theories\<close>

  \<^item> \<open>internal/tags/tags.go\<close>: struct tags, parsed into a byte-encoded list of tag entries, one per
    level of a type. \<open>Tags\<close> has the methods of \<open>XDRTag\<close> on bytes, \<open>ParseTag\<close> the parser,
    \<open>GoStrings\<close> the functions of \<open>strings\<close> and \<open>strconv\<close> it calls.
  \<^item> \<open>internal/errors/errors.go\<close>: error values with field paths (\<open>Errors\<close>).
  \<^item> \<open>internal/coder/encoder.go\<close>, \<open>decoder.go\<close>: the primitive calls of the interfaces \<open>Encoder\<close> and
    \<open>Decoder\<close> on \<open>io.Writer\<close> and \<open>io.Reader\<close> (\<open>Encoder\<close>, \<open>Decoder\<close>; the streams are in \<open>GoIO\<close>,
    \<open>bufio.Writer\<close> is in \<open>Bufio\<close>). \<open>Codecs\<close> has the calls as data, and states the wire format of
    each call. \<open>opaquereader.go\<close> is in \<open>Opaque\<close>.
  \<^item> \<open>internal/coder/codec_*.go\<close>: one codec object per type and tag. The data type \<open>codec\<close> has a
    constructor per codec type of the source. \<open>CodecEnc\<close> and \<open>CodecDec\<close> have the methods \<open>Encode\<close>
    and \<open>Decode\<close> of the \<open>nounsafe\<close> build, which work on \<open>reflect.Value\<close>s; here a value is a
    \<open>gvalue\<close> (\<open>GoTypes\<close>, with types, kinds and zero values).
  \<^item> \<open>codec_*_unsafe.go\<close>: the default build reads and writes memory through \<open>unsafe.Pointer\<close>.
    \<open>Layout\<close> has sizes and offsets, \<open>Memory\<close> the memory and what a block of it represents,
    \<open>UnsafeEnc\<close> and \<open>UnsafeDec\<close> the methods.
  \<^item> \<open>internal/coder/coder.go\<close>: the registry of codecs and their construction from types and
    tags (\<open>Coder\<close>), and the functions \<open>Marshal\<close>, \<open>Unmarshal\<close>, \<open>Write\<close>, \<open>Read\<close> with the pools of
    encoders and decoders, together with \<open>utils.go\<close> (\<open>Api\<close>). Goroutines that share a coder are in
    \<open>Goroutines\<close>: each access to a \<open>sync.Map\<close>, an \<open>atomic.Value\<close> or a \<open>sync.WaitGroup\<close> is an atomic
    step, and steps interleave in any order. \<open>Requests\<close> has the builders of codecs once more, cut
    at the points where they ask for inner codecs, and shows that this makes no difference.
    What the builders do is proved on these requests once, and holds from there for the
    registry of one goroutine (\<open>CoderInv\<close>, \<open>CoderTerm\<close>, \<open>FitsCoder\<close>) and for all interleavings
    (\<open>GoInv\<close>, \<open>GoTerm\<close>, \<open>GoTyped\<close>).

  A method of the source is a definition of the same name, with its receiver's type in front
  where that is needed (\<open>sliceCodec_Encode\<close>). Errors are values; a runtime panic, a call that
  never returns and an exhausted recursion budget are outcomes of their own (\<open>outcome\<close> in
  \<open>Prelude\<close>). Values that a method changes in place are passed in and returned, those of a
  \<open>reflect.Value\<close> that is decoded into included. Foreign code (\<open>MarshalXDR\<close>, \<open>UnmarshalXDR\<close>,
  registered codecs) is a parameter: a tree of calls of the encoder or decoder; readers and
  writers are parameters with the laws of package \<open>io\<close>, stated as locales and interpreted on
  byte buffers, bounded buffers and readers that deliver in pieces.

  \<^bold>\<open>What is shown\<close>

  \<^item> Tags: the methods on bytes do what they promise on lists of entries; the parser yields
    well-formed tags only (C1 to C4). Errors: wrapping (C5), and what becomes of lengths from
    the input that are too long (\<open>Lengths\<close>; C6).
  \<^item> Primitive calls: exactly the bytes of the wire format, prefixes of them on failing
    writers, and their inverses on any lawful reader, with the lengths they accept (C7 to C10, C20, C39).
  \<^item> Codecs: round trip for every transferable value, prefixes on failing writers, alignment
    (\<open>RoundTrip\<close>, \<open>EncSim\<close>, \<open>Wire\<close>; C11 to C13); narrow integers wrap (\<open>Narrow\<close>; C40).
  \<^item> Construction: ends for all types, recursive ones included (\<open>CoderTerm\<close>); no codec waits on
    a deferred one for ever (\<open>Waiting\<close>); answers are stable (\<open>CoderInv\<close>, \<open>Registry\<close>; C14 to C19).
    \<open>RequestSpace\<close> has the types and tags that a construction can come to.
  \<^item> Types: codecs fit the types they were requested for, whichever goroutine constructed them
    (\<open>Typing\<close>, \<open>TypedRequests\<close>, \<open>FitsCoder\<close>, \<open>GoTyped\<close>), and then encoding never panics, and decoding of
    any input only if the run-time system cannot address a slice of so many elements
    (\<open>TypeSafe\<close>; C21, C22). What the methods do at codecs that fit is shown by
    the induction rule \<open>typed_codec_induct\<close>, here and for the default build.
  \<^item> Public functions: caches and pools are invisible, \<open>Unmarshal\<close> inverts \<open>Marshal\<close>, \<open>Write\<close>
    delivers what \<open>Marshal\<close> returns (\<open>Api\<close>; C23 to C27).
  \<^item> The default build encodes and decodes as the reflection methods do (\<open>UnsafeEncEq\<close>;
    \<open>MemSteps\<close>, \<open>DecSteps\<close>, \<open>UnsafeDecEq\<close>), stays within the memory it may write to, and
    transfers values between memories (\<open>DefaultBuild\<close>; C28 to C31), with any codec that any
    goroutine was handed.
  \<^item> Goroutines: run alone, one computes what \<open>getCodec\<close> computes (\<open>OneGo\<close>; C32). For all
    interleavings, constructions exclude each other, deferred codecs are resolved once and
    entries of the table are stable (\<open>GoInv\<close>, \<open>GoSteps\<close>, \<open>GoProps\<close>; C33, C34, C36); nobody waits for
    ever (C35), unless a construction panicked: then its type is blocked for good (C37). Every
    schedule ends (\<open>GoTerm\<close>; C38).

  \<^bold>\<open>Bounds\<close>

  Recursion over codecs and over construction is bounded by a natural number, the depth of
  calls; \<open>Spent\<close> is the outcome beyond it. Statements that something returns give a bound
  that is enough (C14, C15: computed or for all larger bounds; C11, C25, C31: for all bounds
  beyond some number). The steps of goroutines need no such bound; that they end is C38.
  Reading loops are \<open>partial_function\<close>s: a reader without progress never returns. Word sizes are a parameter (the largest int), and so is the largest piece of
  memory the run-time system can address; lengths are words of the width of the source.

  \<^bold>\<open>Not modelled\<close>

  \<^item> Unexported struct fields (\<open>reflect\<close> panics on setting them), capacities of slices, and
    the sharing of memory between values in the \<open>nounsafe\<close> model; in the default build the
    variable that is decoded must not be reachable through its own pointers.
  \<^item> In the default build, the content of maps and interfaces is a value, not memory; their
    codecs are those of the reflection model.
  \<^item> Running out of memory or of stack, which end the process and are not panics: the model
    allocates whatever the platform can address. Of the allocations whose size depends on the
    input, \<open>reflect.MakeSlice\<close> panics on what it cannot address (\<open>MakeSlice\<close>, \<open>newarray\<close>), byte slices
    of a 32-bit length are below that limit on every platform, unless their length overflows an
    int (\<open>DecodeOpaque\<close>), and maps only take the length for a hint.
  \<^item> Negative maxima, as a caller of \<open>DecodeOpaque\<close> or \<open>DecodeString\<close> could pass them.
  \<^item> Foreign code that calls \<open>Encode\<close> or \<open>EncodeValue\<close> of the encoder it is given.
  \<^item> What remains of encoders, buffers and pools after a panic that the caller recovers from (the
    registry is, C37), and goroutines that share an encoder, which the program does not allow.
  \<^item> \<open>field.decode\<close> of \<open>codec_struct_unsafe.go\<close>, which nothing calls: in the default build fields
    are decoded by \<open>field.decodeUnsafe\<close>.
  \<^item> \<open>interface.go\<close> (type aliases and documentation), the tests.
\<close>

end
